(* ===== verification/Rust_Prelude.thy ===== *)
theory Rust_Prelude
  imports Main "HOL-Library.Word" "HOL-Library.Code_Target_Nat"
begin

text \<open>
  The vocabulary the component theories share: the parts of the Rust language and of its standard
  library that the crate relies on.  It holds machine integers with their checked, saturating and
  wrapping operations, \<^verbatim>\<open>std::time\<close> (durations, instants and a monotone clock), results,
  \<^verbatim>\<open>std::io\<close> error kinds, the \<^verbatim>\<open>loop\<close> construct, and the contract of a reference-counted gate.
  Rust's \<^verbatim>\<open>Type::Variant\<close> is written \<^verbatim>\<open>Type_Variant\<close>, its \<^verbatim>\<open>Type::method\<close> is \<^verbatim>\<open>type_method\<close>,
  and a field \<^verbatim>\<open>f\<close> of a struct \<^verbatim>\<open>T\<close> is the record field \<^verbatim>\<open>t_f\<close>.
\<close>

unbundle bit_operations_syntax

named_theorems time_simps \<open>readings and delays of the clock\<close>
named_theorems int_simps \<open>saturating and checked machine arithmetic\<close>
named_theorems round_defs \<open>one iteration of a loop, unfolded into its branches\<close>

section \<open>Machine integers\<close>

type_synonym u8 = "8 word"
type_synonym u16 = "16 word"
type_synonym u32 = "32 word"
type_synonym u64 = "64 word"
type_synonym usize = "64 word"

definition saturating_add :: "'a::len word \<Rightarrow> 'a word \<Rightarrow> 'a word" where
  "saturating_add a b = (if unat a + unat b < 2 ^ LENGTH('a) then a + b else - 1)"

definition saturating_mul :: "'a::len word \<Rightarrow> 'a word \<Rightarrow> 'a word" where
  "saturating_mul a b = (if unat a * unat b < 2 ^ LENGTH('a) then a * b else - 1)"

definition saturating_sub :: "'a::len word \<Rightarrow> 'a word \<Rightarrow> 'a word" where
  "saturating_sub a b = (if b \<le> a then a - b else 0)"

definition checked_add :: "'a::len word \<Rightarrow> 'a word \<Rightarrow> 'a word option" where
  "checked_add a b = (if unat a + unat b < 2 ^ LENGTH('a) then Some (a + b) else None)"

definition checked_sub :: "'a::len word \<Rightarrow> 'a word \<Rightarrow> 'a word option" where
  "checked_sub a b = (if b \<le> a then Some (a - b) else None)"

section \<open>Results and control flow\<close>

abbreviation Ok :: "'a \<Rightarrow> 'e + 'a" where "Ok \<equiv> Inr"
abbreviation Err :: "'e \<Rightarrow> 'e + 'a" where "Err \<equiv> Inl"

text \<open>What a call does: it hands back a value, or it unwinds.\<close>

datatype 'a ret = Returned 'a | Panicked

text \<open>
  Rust's \<^verbatim>\<open>loop\<close>.  One iteration either leaves the loop with a value or starts the next
  iteration in a new state.  A loop that never ends has the value \<^const>\<open>None\<close>.
\<close>

datatype ('r, 's) control = Break 'r | Continue 's

partial_function (option) iterate :: "('s \<Rightarrow> ('r, 's) control) \<Rightarrow> 's \<Rightarrow> 'r option" where
  "iterate round s = (case round s of Break r \<Rightarrow> Some r | Continue s' \<Rightarrow> iterate round s')"

declare iterate.simps [code]

section \<open>Time\<close>

text \<open>
  A \<^verbatim>\<open>Duration\<close> counts nanoseconds and holds 64 bits of seconds, so its largest value is
  \<^verbatim>\<open>u64::MAX\<close> seconds and 999999999 nanoseconds.  An \<^verbatim>\<open>Instant\<close> counts nanoseconds from the
  clock's origin; adding a duration panics past the largest representable instant, which on Unix
  is \<^verbatim>\<open>i64::MAX\<close> seconds and 999999999 nanoseconds.
\<close>

type_synonym duration = nat
type_synonym instant = nat

definition nanos_per_sec :: nat where "nanos_per_sec = 1000000000"
definition from_millis :: "nat \<Rightarrow> duration" where "from_millis ms = ms * 1000000"
definition duration_max :: duration where "duration_max = 2 ^ 64 * nanos_per_sec - 1"
definition instant_max :: instant where "instant_max = 2 ^ 63 * nanos_per_sec - 1"

definition duration_sat_add :: "duration \<Rightarrow> duration \<Rightarrow> duration" where
  "duration_sat_add a b = min (a + b) duration_max"

definition instant_add :: "instant \<Rightarrow> duration \<Rightarrow> instant option" where
  "instant_add t d = (if t + d \<le> instant_max then Some (t + d) else None)"

text \<open>
  The clock of one thread.  \<^verbatim>\<open>time\<close> is the present; \<^verbatim>\<open>delays\<close> says how much time passes before
  each of the following readings, so that every monotone sequence of readings is the run of one
  such clock.  A sleep lasts at least as long as it was asked to.
\<close>

record clock =
  time :: instant
  delays :: "nat list"

definition tick :: "clock \<Rightarrow> clock" where
  "tick c = (case delays c of [] \<Rightarrow> c | d # ds \<Rightarrow> c\<lparr>time := time c + d, delays := ds\<rparr>)"

definition instant_now :: "clock \<Rightarrow> instant \<times> clock" where
  "instant_now c = (time (tick c), tick c)"

definition elapse :: "duration \<Rightarrow> clock \<Rightarrow> clock" where
  "elapse d c = c\<lparr>time := time c + d\<rparr>"

definition sleep :: "duration \<Rightarrow> clock \<Rightarrow> clock" where
  "sleep d c = tick (elapse d c)"

text \<open>The idioms around deadlines: \<^verbatim>\<open>deadline.is_some_and(|limit| Instant::now() >= limit)\<close>,
  \<^verbatim>\<open>Instant::now() + d\<close> and \<^verbatim>\<open>limit.saturating_duration_since(Instant::now())\<close>.\<close>

definition past :: "instant option \<Rightarrow> clock \<Rightarrow> bool \<times> clock" where
  "past deadline c = (case deadline of
     None \<Rightarrow> (False, c)
   | Some limit \<Rightarrow> (let (t, c') = instant_now c in (limit \<le> t, c')))"

definition now_plus :: "duration \<Rightarrow> clock \<Rightarrow> instant option \<times> clock" where
  "now_plus d c = (let (t, c') = instant_now c in (instant_add t d, c'))"

definition remaining :: "instant \<Rightarrow> clock \<Rightarrow> duration \<times> clock" where
  "remaining limit c = (let (t, c') = instant_now c in (limit - t, c'))"

section \<open>Input and output errors\<close>

text \<open>Paths, and the variants of \<^verbatim>\<open>std::io::ErrorKind\<close> the crate distinguishes.\<close>

type_synonym path = string

datatype error_kind =
    ErrorKind_NotFound | ErrorKind_PermissionDenied | ErrorKind_ConnectionRefused
  | ErrorKind_ConnectionReset | ErrorKind_ConnectionAborted | ErrorKind_NotConnected
  | ErrorKind_AddrInUse | ErrorKind_BrokenPipe | ErrorKind_AlreadyExists | ErrorKind_WouldBlock
  | ErrorKind_InvalidInput | ErrorKind_InvalidData | ErrorKind_TimedOut | ErrorKind_WriteZero
  | ErrorKind_Interrupted | ErrorKind_Unsupported | ErrorKind_UnexpectedEof | ErrorKind_IsADirectory
  | ErrorKind_ExecutableFileBusy | ErrorKind_Other

record io_error =
  io_kind :: error_kind
  io_os :: "nat option"
  io_message :: string

definition io_error_new :: "error_kind \<Rightarrow> string \<Rightarrow> io_error" where
  "io_error_new kind message = \<lparr>io_kind = kind, io_os = None, io_message = message\<rparr>"

definition io_error_other :: "string \<Rightarrow> io_error" where
  "io_error_other message = io_error_new ErrorKind_Other message"

text \<open>\<^verbatim>\<open>std::io::Read::read\<close> into a buffer of a given size: the bytes read, none at the end.\<close>

type_synonym 'r reader = "nat \<Rightarrow> 'r \<Rightarrow> (io_error + u8 list) \<times> 'r"

text \<open>A reader that keeps the bytes it handed out.\<close>

definition tap_reader :: "'r reader \<Rightarrow> ('r \<times> u8 list) reader" where
  "tap_reader rd n = (\<lambda>(r, taken). case rd n r of
     (Inr bytes, r) \<Rightarrow> (Inr bytes, r, taken @ bytes) | (Inl e, r) \<Rightarrow> (Inl e, r, taken))"

text \<open>A stream that ends: every read that leaves the loop running brings the end closer.\<close>

definition finite_stream :: "('r \<Rightarrow> nat) \<Rightarrow> 'r reader \<Rightarrow> bool" where
  "finite_stream left rd \<longleftrightarrow> (\<forall>n r x r'. rd n r = (x, r') \<longrightarrow>
     (case x of Inr bytes \<Rightarrow> bytes \<noteq> [] | Inl e \<Rightarrow> io_kind e = ErrorKind_Interrupted) \<longrightarrow> left r' < left r)"

text \<open>The bytes of an ASCII literal.\<close>

definition ascii :: "string \<Rightarrow> u8 list" where
  "ascii s = map of_char s"

section \<open>Lemmas on loops\<close>

lemma iterate_partial:
  assumes "iterate round s = Some r" and "I s"
    and "\<And>s s'. I s \<Longrightarrow> round s = Continue s' \<Longrightarrow> I s'"
    and "\<And>s r. I s \<Longrightarrow> round s = Break r \<Longrightarrow> Q r"
  shows "Q r"
  using assms
proof (induction round s r rule: iterate.raw_induct[rotated, consumes 1])
  case (1 iter f s r)
  show ?case
  proof (cases "f s")
    case (Break r')
    with 1(2) 1(5)[OF 1(3) Break] show ?thesis by simp
  next
    case (Continue s')
    with 1(2) have "iter f s' = Some r" by simp
    from 1(1)[OF this 1(4)[OF 1(3) Continue]] 1(4, 5) show ?thesis by blast
  qed
qed

lemma iterate_total:
  assumes "wf R" and "I s"
    and step: "\<And>s s'. I s \<Longrightarrow> round s = Continue s' \<Longrightarrow> I s' \<and> (s', s) \<in> R"
  shows "\<exists>r. iterate round s = Some r"
  using assms(1, 2)
proof (induction s rule: wf_induct_rule)
  case (less s)
  show ?case
  proof (cases "round s")
    case (Break r)
    then show ?thesis by (subst iterate.simps) simp
  next
    case (Continue s')
    with less.IH[of s'] step[OF less.prems Continue] show ?thesis
      by (subst iterate.simps) simp
  qed
qed

lemma iterate_leave: "round s = Break r \<Longrightarrow> iterate round s = Some r"
  by (subst iterate.simps) simp

lemma iterate_step: "round s = Continue s' \<Longrightarrow> iterate round s = iterate round s'"
  by (subst iterate.simps) simp

text \<open>Two loops whose iterations agree up to a change of state agree on their results.\<close>

lemma iterate_erase:
  assumes "\<And>s. round' (f s) = map_control g f (round s)" and "iterate round s = Some r"
  shows "iterate round' (f s) = Some (g r)"
proof -
  have "\<forall>t. t = f s \<longrightarrow> iterate round' t = Some (g r)"
    by (rule iterate_partial[OF assms(2), of "\<lambda>u. iterate round' (f s) = iterate round' (f u)"
          "\<lambda>r. \<forall>t. t = f s \<longrightarrow> iterate round' t = Some (g r)"])
       (use assms(1) in \<open>auto simp: iterate_leave iterate_step\<close>)
  then show ?thesis by simp
qed

text \<open>Total correctness in one premise: what every round keeps, decreases and establishes.\<close>

lemma iterate_correct:
  assumes "I s" and round: "\<And>s. I s \<Longrightarrow> case round s of Break r \<Rightarrow> Q r | Continue s' \<Rightarrow> I s' \<and> (s', s) \<in> measure f"
  shows "\<exists>r. iterate round s = Some r \<and> Q r"
proof -
  have step: "I s' \<and> (s', s) \<in> measure f" if "I s" "round s = Continue s'" for s s' using round[OF that(1)] that(2) by simp
  obtain r where r: "iterate round s = Some r" using iterate_total[OF wf_measure assms(1) step] by blast
  have "Q r" by (rule iterate_partial[where I = I and Q = Q, OF r assms(1)]) (use step in blast, use round in fastforce)
  with r show ?thesis by blast
qed

text \<open>The contract of a loop: an invariant every iteration keeps and a postcondition every
  exit establishes.  A component interprets it on its own iteration.\<close>

locale loop_contract =
  fixes round :: "'s \<Rightarrow> ('r, 's) control"
    and inv :: "'s \<Rightarrow> bool"
    and post :: "'r \<Rightarrow> bool"
  assumes keeps: "inv s \<Longrightarrow> round s = Continue s' \<Longrightarrow> inv s'"
    and leaves: "inv s \<Longrightarrow> round s = Break r \<Longrightarrow> post r"
begin

lemma sound: "iterate round s = Some r \<Longrightarrow> inv s \<Longrightarrow> post r"
  by (rule iterate_partial[of round s r inv post]) (auto intro: keeps leaves)

end

text \<open>The stronger contract of a loop that ends: a well-founded relation every further iteration
  descends.\<close>

locale ending_loop = loop_contract +
  fixes descends :: "('s \<times> 's) set"
  assumes wf_descends: "wf descends"
    and descent: "inv s \<Longrightarrow> round s = Continue s' \<Longrightarrow> (s', s) \<in> descends"
begin

lemma ends: "inv s \<Longrightarrow> \<exists>r. iterate round s = Some r"
  by (rule iterate_total[of descends inv]) (auto intro: wf_descends keeps descent)

lemma ends_well: "inv s \<Longrightarrow> \<exists>r. iterate round s = Some r \<and> post r"
  using ends sound by blast

end

lemma tap_reader_cases:
  assumes "tap_reader rd n (r, taken) = (x, r', taken')"
  shows "taken' = taken @ (case x of Inr bytes \<Rightarrow> bytes | Inl _ \<Rightarrow> [])" and "rd n r = (x, r')"
  using assms by (auto simp: tap_reader_def split: prod.splits sum.splits)

lemma finite_tap: "finite_stream left rd \<Longrightarrow> finite_stream (\<lambda>(r, _). left r) (tap_reader rd)"
  unfolding finite_stream_def using tap_reader_cases(2) by fastforce

section \<open>Lemmas on the clock\<close>

lemma tick_mono [intro]: "time c \<le> time (tick c)"
  by (simp add: tick_def split: list.split)

lemma le_tick [simp]: "t \<le> time c \<Longrightarrow> t \<le> time (tick c)"
  using tick_mono[of c] by simp

lemma tick_less: "time (tick c) < t \<Longrightarrow> time c < t"
  using tick_mono[of c] by linarith

lemma time_elapse [simp]: "time (elapse d c) = time c + d"
  by (simp add: elapse_def)

lemma sleep_lasts: "time c + d \<le> time (sleep d c)"
  using tick_mono[of "elapse d c"] by (simp add: sleep_def)

lemma sleep_mono [intro]: "time c \<le> time (sleep d c)"
  using sleep_lasts[of c d] by simp

lemma instant_now_eq [time_simps]: "instant_now c = (time (tick c), tick c)"
  by (fact instant_now_def)

lemma past_None [simp]: "past None c = (False, c)"
  by (simp add: past_def)

lemma past_Some [time_simps]: "past (Some limit) c = (limit \<le> time (tick c), tick c)"
  by (simp add: past_def instant_now_def)

lemma now_plus_eq [time_simps]: "now_plus d c = (instant_add (time (tick c)) d, tick c)"
  by (simp add: now_plus_def instant_now_def)

lemma remaining_eq [time_simps]: "remaining limit c = (limit - time (tick c), tick c)"
  by (simp add: remaining_def instant_now_def)

lemma instant_add_Some [time_simps]:
  "instant_add t d = Some u \<longleftrightarrow> u = t + d \<and> t + d \<le> instant_max"
  by (auto simp: instant_add_def)

lemma past_clock_mono: "past deadline c = (late, c') \<Longrightarrow> time c \<le> time c'"
  by (cases deadline) (auto simp: time_simps)

section \<open>Lemmas on machine integers\<close>

lemma unat_no_wrap:
  fixes a b :: "'a::len word"
  shows "unat a + unat b < 2 ^ LENGTH('a) \<Longrightarrow> unat (a + b) = unat a + unat b"
    and "unat a * unat b < 2 ^ LENGTH('a) \<Longrightarrow> unat (a * b) = unat a * unat b"
  by (simp_all only: word_arith_nat_add[of a b] word_arith_nat_mult[of a b] unsigned_of_nat
      take_bit_nat_eq_self id_apply of_nat_id)

lemma unat_minus_one_max: "unat (- 1 :: 'a::len word) = 2 ^ LENGTH('a) - 1"
  by (simp add: unsigned_minus_1_eq_mask mask_eq_exp_minus_1)

lemma min_max_word: "n < 2 ^ k \<Longrightarrow> min n (2 ^ k - 1) = n" "\<not> n < 2 ^ k \<Longrightarrow> min n (2 ^ k - 1) = 2 ^ k - 1"
  for n k :: nat
  by linarith+

lemma unat_saturating_add [int_simps]:
  "unat (saturating_add a b) = min (unat a + unat b) (2 ^ LENGTH('a) - 1)" for a b :: "'a::len word"
  by (cases "unat a + unat b < 2 ^ LENGTH('a)")
     (simp_all add: saturating_add_def unat_no_wrap unat_minus_one_max min_max_word del: One_nat_def)

lemma unat_saturating_mul [int_simps]:
  "unat (saturating_mul a b) = min (unat a * unat b) (2 ^ LENGTH('a) - 1)" for a b :: "'a::len word"
  by (cases "unat a * unat b < 2 ^ LENGTH('a)")
     (simp_all add: saturating_mul_def unat_no_wrap unat_minus_one_max min_max_word del: One_nat_def)

lemma unat_min [int_simps]: "unat (min a b) = min (unat a) (unat b)" for a b :: "'a::len word"
  by (simp add: min_def word_le_nat_alt)

lemma unat_max [int_simps]: "unat (max a b) = max (unat a) (unat b)" for a b :: "'a::len word"
  by (simp add: max_def word_le_nat_alt)

lemma unat_shifted_one [int_simps]:
  "n < LENGTH('a) \<Longrightarrow> unat (push_bit n 1 :: 'a::len word) = 2 ^ n"
  unfolding unsigned_push_bit_eq by (simp add: push_bit_eq_mult take_bit_nat_eq_self)

lemma checked_add_Some [int_simps]:
  "checked_add a b = Some c \<longleftrightarrow> unat a + unat b < 2 ^ LENGTH('a) \<and> unat c = unat a + unat b"
  for a b c :: "'a::len word"
proof (cases "unat a + unat b < 2 ^ LENGTH('a)")
  case True
  then have "a + b = c \<longleftrightarrow> unat c = unat a + unat b"
    using unat_no_wrap(1)[OF True] by (metis word_unat_eq_iff)
  with True show ?thesis by (simp add: checked_add_def)
qed (simp add: checked_add_def)

lemma word_inc: "a < b \<Longrightarrow> unat (a + 1) = unat a + 1 \<and> a + 1 \<le> b" for a b :: "'a::len word"
  using unat_no_wrap(1)[of a 1] unsigned_less[of b, where 'a = nat]
  by (auto simp: word_less_nat_alt inc_le)

lemma word_dec: "0 < unat a \<Longrightarrow> unat (a - 1) + 1 = unat a \<and> a - 1 \<le> a" for a :: "'a::len word"
proof -
  assume "0 < unat a"
  then have "a \<noteq> 0" by auto
  from unat_minus_one[OF this] \<open>0 < unat a\<close> show ?thesis by (simp add: word_le_nat_alt)
qed

section \<open>Computations that may fail and leave a state\<close>

text \<open>The operator \<^verbatim>\<open>?\<close> on a computation that leaves a state behind.\<close>

definition and_then :: "('e + 'a) \<times> 's \<Rightarrow> ('a \<Rightarrow> 's \<Rightarrow> ('e + 'b) \<times> 's) \<Rightarrow> ('e + 'b) \<times> 's" where
  "and_then r k = (case r of (Inl e, s) \<Rightarrow> (Err e, s) | (Inr x, s) \<Rightarrow> k x s)"

lemma and_thenE:
  assumes "and_then r k = (x, s')"
  obtains (error) e where "r = (Inl e, s')" "x = Inl e"
  | (step) a s where "r = (Inr a, s)" "k a s = (x, s')"
  using assms by (auto simp: and_then_def split: prod.splits sum.splits)

end
