(* ===== verification/Readiness.thy ===== *)
theory Readiness
  imports Rust_Prelude
begin

text \<open>
  Deadline-bounded live probes (\<^verbatim>\<open>src/src/readiness.rs\<close>).  The probe is the caller's code: a
  function of the deadline it is given, the time it is called and its own state, which answers
  after some time.  For the asynchronous loop the answer of the probe under
  \<^verbatim>\<open>tokio::time::timeout_at\<close> is the parameter, \<^const>\<open>None\<close> being the timeout.
\<close>

definition poll_interval :: duration where
  "poll_interval = from_millis 25"

type_synonym ('p, 'a, 'e) probe =
  "instant \<Rightarrow> instant \<Rightarrow> 'p \<Rightarrow> ('e + 'a option) \<times> duration \<times> 'p"

type_synonym ('p, 'a, 'e) timed_probe =
  "instant \<Rightarrow> instant \<Rightarrow> 'p \<Rightarrow> ('e + 'a option) option \<times> duration \<times> 'p"

definition wait_round :: "('p, 'a, 'e) probe \<Rightarrow> instant \<Rightarrow> 'p \<times> clock
    \<Rightarrow> (('e + 'a option) \<times> 'p \<times> clock, 'p \<times> clock) control" where
  "wait_round probe deadline = (\<lambda>(p, c).
    let (t, c) = instant_now c in
    if deadline \<le> t then Break (Ok None, p, c)
    else
      let (answer, took, p) = probe deadline (time c) p; c = elapse took c in
      case answer of
        Inl e \<Rightarrow> Break (Err e, p, c)
      | Inr proof \<Rightarrow>
          let (t, c) = instant_now c in
          if deadline \<le> t then Break (Ok None, p, c)
          else (case proof of
            Some x \<Rightarrow> Break (Ok (Some x), p, c)
          | None \<Rightarrow>
              let (left, c) = remaining deadline c in
              Continue (p, sleep (min poll_interval left) c)))"

definition wait_until :: "('p, 'a, 'e) probe \<Rightarrow> instant \<Rightarrow> 'p \<Rightarrow> clock
    \<Rightarrow> (('e + 'a option) \<times> 'p \<times> clock) option" where
  "wait_until probe deadline p c = iterate (wait_round probe deadline) (p, c)"

text \<open>The asynchronous loop sleeps until the earlier of the deadline and one interval from now;
  computing the latter panics past the largest instant.\<close>

definition wait_round_async :: "('p, 'a, 'e) timed_probe \<Rightarrow> instant \<Rightarrow> 'p \<times> clock
    \<Rightarrow> (('e + 'a option) ret \<times> 'p \<times> clock, 'p \<times> clock) control" where
  "wait_round_async probe deadline = (\<lambda>(p, c).
    let (t, c) = instant_now c in
    if deadline \<le> t then Break (Returned (Ok None), p, c)
    else
      let (answer, took, p) = probe deadline (time c) p; c = elapse took c in
      case answer of
        None \<Rightarrow> Break (Returned (Ok None), p, c)
      | Some (Inl e) \<Rightarrow> Break (Returned (Err e), p, c)
      | Some (Inr proof) \<Rightarrow>
          let (t, c) = instant_now c in
          if deadline \<le> t then Break (Returned (Ok None), p, c)
          else (case proof of
            Some x \<Rightarrow> Break (Returned (Ok (Some x)), p, c)
          | None \<Rightarrow>
              (case now_plus poll_interval c of
                (None, c) \<Rightarrow> Break (Panicked, p, c)
              | (Some wake, c) \<Rightarrow> Continue (p, sleep (min wake deadline - time c) c))))"

definition wait_until_async :: "('p, 'a, 'e) timed_probe \<Rightarrow> instant \<Rightarrow> 'p \<Rightarrow> clock
    \<Rightarrow> (('e + 'a option) ret \<times> 'p \<times> clock) option" where
  "wait_until_async probe deadline p c = iterate (wait_round_async probe deadline) (p, c)"

section \<open>Both loops end, and answer in time\<close>

lemma poll_interval_pos [simp]: "0 < poll_interval"
  by (simp add: poll_interval_def from_millis_def)

text \<open>Time left before a deadline; a round that continues has used some of it, or all.\<close>

definition time_left :: "instant \<Rightarrow> 'p \<times> clock \<Rightarrow> nat" where
  "time_left deadline = (\<lambda>(p, c). Suc deadline - time c)"

lemma poll_progress:
  assumes "t < deadline" and "t \<le> time c'"
  shows "Suc deadline - time (sleep (min poll_interval (deadline - time c')) c') < Suc deadline - t"
proof -
  have "0 < min poll_interval (deadline - time c') \<or> deadline \<le> time c'"
    by auto
  with assms sleep_lasts[of c' "min poll_interval (deadline - time c')"] show ?thesis
    by linarith
qed

lemma poll_pause_async: "min (time c + poll_interval) limit - time c = min poll_interval (limit - time c)"
  by linarith

interpretation wait: ending_loop "wait_round probe deadline" "\<lambda>_. True"
  "\<lambda>(r, p, c). (\<forall>x. r = Ok (Some x) \<longrightarrow> time c < deadline) \<and> (r = Ok None \<longrightarrow> deadline \<le> time c)"
  "measure (time_left deadline)"
  for probe deadline
proof unfold_locales
  fix s r
  assume "wait_round probe deadline s = Break r"
  then show "case r of (r, p, c) \<Rightarrow>
      (\<forall>x. r = Ok (Some x) \<longrightarrow> time c < deadline) \<and> (r = Ok None \<longrightarrow> deadline \<le> time c)"
    by (auto simp: wait_round_def time_simps Let_def split: prod.splits if_splits sum.splits option.splits)
next
  fix s s'
  assume *: "wait_round probe deadline s = Continue s'"
  obtain p c where s: "s = (p, c)" by (cases s)
  obtain answer took p' where "probe deadline (time (tick c)) p = (answer, took, p')"
    by (cases "probe deadline (time (tick c)) p")
  with * s obtain c' where
    "s' = (p', sleep (min poll_interval (deadline - time (tick c'))) (tick c'))"
    "time (tick c) \<le> time c'" "time (tick c) < deadline"
    by (auto simp: wait_round_def time_simps Let_def split: if_splits sum.splits option.splits)
  moreover from this have "time c < deadline" "time c \<le> time (tick c')"
    using tick_mono[of c] tick_mono[of c'] by linarith+
  ultimately show "(s', s) \<in> measure (time_left deadline)"
    using poll_progress s by (simp add: time_left_def)
qed auto

interpretation wait_async: ending_loop "wait_round_async probe deadline" "\<lambda>_. True"
  "\<lambda>(r, p, c). \<forall>x. r = Returned (Ok (Some x)) \<longrightarrow> time c < deadline"
  "measure (time_left deadline)"
  for probe deadline
proof unfold_locales
  fix s r
  assume "wait_round_async probe deadline s = Break r"
  then show "case r of (r, p, c) \<Rightarrow> \<forall>x. r = Returned (Ok (Some x)) \<longrightarrow> time c < deadline"
    by (auto simp: wait_round_async_def time_simps Let_def
        split: prod.splits if_splits sum.splits option.splits)
next
  fix s s'
  assume *: "wait_round_async probe deadline s = Continue s'"
  obtain p c where s: "s = (p, c)" by (cases s)
  obtain answer took p' where "probe deadline (time (tick c)) p = (answer, took, p')"
    by (cases "probe deadline (time (tick c)) p")
  with * s obtain c' where
    "s' = (p', sleep (min (time (tick c') + poll_interval) deadline - time (tick c')) (tick c'))"
    "time (tick c) \<le> time c'" "time (tick c) < deadline"
    by (auto simp: wait_round_async_def time_simps Let_def
        split: if_splits sum.splits option.splits prod.splits)
  moreover from this have "time c < deadline" "time c \<le> time (tick c')"
    using tick_mono[of c] tick_mono[of c'] by linarith+
  ultimately show "(s', s) \<in> measure (time_left deadline)"
    using poll_progress s by (simp add: time_left_def poll_pause_async)
qed auto

text \<open>Waiting for a live proof always ends, for every probe and every clock.  A proof is handed
  back only while the deadline lies ahead, and giving up is reported only once it has passed; the
  remaining outcome is the probe's own error.\<close>

theorem wait_until_ends_in_time:
  "\<exists>r p' c'. wait_until probe deadline p c = Some (r, p', c')
    \<and> (case r of Inr (Some proof) \<Rightarrow> time c' < deadline | Inr None \<Rightarrow> deadline \<le> time c' | Inl e \<Rightarrow> True)"
proof -
  obtain r p' c' where "wait_until probe deadline p c = Some (r, p', c')"
    and "\<forall>x. r = Ok (Some x) \<longrightarrow> time c' < deadline" and "r = Ok None \<longrightarrow> deadline \<le> time c'"
    using wait.ends_well[of probe deadline "(p, c)"] by (auto simp: wait_until_def)
  then show ?thesis by (auto split: sum.split option.split)
qed

end
