(* ===== verification/Replacement.thy ===== *)
theory Replacement
  imports Readiness
begin

text \<open>
  Replacement ordering (\<^verbatim>\<open>src/src/replacement.rs\<close>): the transition machine that decides the order
  of a driver's operations, and the blocking and asynchronous loops that run it.  The driver is
  the application's code and a parameter: its answers, the time it takes and its own state are
  arbitrary.  The upgrade lock the caller passes is only a token and has no part in the result.
\<close>

section \<open>Data\<close>

datatype mode = Mode_Overlap | Mode_Exclusive

datatype step =
    Step_Recheck | Step_Prepare | Step_Drain | Step_Start
  | Step_Verify | Step_Validate | Step_Commit | Step_Retire

datatype progress = Progress_Done | Progress_Pending | Progress_Unchanged

datatype outcome = Outcome_Unchanged | Outcome_Complete | Outcome_RetirementPending

datatype 'e reason = Reason_Deadline | Reason_Adapter 'e | Reason_InvalidProgress

record 'e failure =
  failure_step :: step
  failure_committed :: bool
  failure_reason :: "'e reason"

record budgets =
  budgets_setup :: duration
  budgets_drain :: "duration option"

record machine =
  machine_mode :: mode
  machine_step :: step
  machine_committed :: bool

section \<open>The transition machine\<close>

definition machine_new :: "mode \<Rightarrow> machine" where
  "machine_new mode = \<lparr>machine_mode = mode, machine_step = Step_Recheck, machine_committed = False\<rparr>"

definition machine_failure :: "'e reason \<Rightarrow> machine \<Rightarrow> 'e failure" where
  "machine_failure reason m = \<lparr>failure_step = machine_step m,
     failure_committed = machine_committed m, failure_reason = reason\<rparr>"

text \<open>The second half of \<^verbatim>\<open>Machine::advance\<close>, reached with \<^verbatim>\<open>Progress::Done\<close>.\<close>

definition machine_done :: "machine \<Rightarrow> outcome option \<times> machine" where
  "machine_done m = (case machine_step m of
     Step_Recheck \<Rightarrow> (None, m\<lparr>machine_step := Step_Prepare\<rparr>)
   | Step_Prepare \<Rightarrow>
       (None, m\<lparr>machine_step := (if machine_mode m = Mode_Exclusive then Step_Drain else Step_Start)\<rparr>)
   | Step_Drain \<Rightarrow> (None, m\<lparr>machine_step := Step_Start\<rparr>)
   | Step_Start \<Rightarrow> (None, m\<lparr>machine_step := Step_Verify\<rparr>)
   | Step_Verify \<Rightarrow> (None, m\<lparr>machine_step := Step_Validate\<rparr>)
   | Step_Validate \<Rightarrow> (None, m\<lparr>machine_step := Step_Commit\<rparr>)
   | Step_Commit \<Rightarrow>
       if machine_mode m = Mode_Exclusive
       then (Some Outcome_Complete, m\<lparr>machine_committed := True\<rparr>)
       else (None, m\<lparr>machine_committed := True, machine_step := Step_Retire\<rparr>)
   | Step_Retire \<Rightarrow> (Some Outcome_Complete, m))"

definition machine_advance :: "progress \<Rightarrow> machine \<Rightarrow> ('e failure + outcome option) \<times> machine" where
  "machine_advance progress m = (case (machine_step m, progress) of
     (Step_Recheck, Progress_Unchanged) \<Rightarrow> (Ok (Some Outcome_Unchanged), m)
   | (Step_Recheck, Progress_Pending) \<Rightarrow> (Ok None, m)
   | (Step_Verify, Progress_Pending) \<Rightarrow> (Ok None, m)
   | (Step_Drain, Progress_Pending) \<Rightarrow> (Ok None, m)
   | (Step_Retire, Progress_Pending) \<Rightarrow> (Ok (Some Outcome_RetirementPending), m)
   | (_, Progress_Done) \<Rightarrow> (let (outcome, m') = machine_done m in (Ok outcome, m'))
   | _ \<Rightarrow> (Err (machine_failure Reason_InvalidProgress m), m))"

section \<open>The loops\<close>

text \<open>
  What the loops act on: the driver's state, the clock, and the files the crate has read ahead
  for the client (\<^verbatim>\<open>warmup::prefault_all\<close>, whose errors are discarded).
\<close>

record 'd world =
  world_driver :: 'd
  world_clock :: clock
  world_prefaulted :: "string list"

text \<open>
  A driver.  \<^verbatim>\<open>perform\<close> is given the step, its deadline and the time of the call, and answers
  with its result, the time it took and its new state.  \<^verbatim>\<open>timed\<close> is the same operation under
  \<^verbatim>\<open>tokio::time::timeout_at\<close>, with \<^const>\<open>None\<close> for the timeout.
\<close>

record ('d, 'e) driver =
  driver_perform :: "step \<Rightarrow> instant option \<Rightarrow> instant \<Rightarrow> 'd \<Rightarrow> ('e + progress) \<times> duration \<times> 'd"
  driver_timed :: "step \<Rightarrow> instant \<Rightarrow> instant \<Rightarrow> 'd \<Rightarrow> ('e + progress) option \<times> duration \<times> 'd"
  driver_warmup_paths :: "'d \<Rightarrow> string list"

type_synonym 'd loop_state = "machine \<times> instant option \<times> 'd world"
type_synonym ('d, 'e) loop_result = "('e failure + outcome) ret \<times> 'd world"

text \<open>The deadline of the next step, once the machine has moved on from \<^verbatim>\<open>step\<close>.\<close>

definition rearm :: "budgets \<Rightarrow> step \<Rightarrow> step \<Rightarrow> instant option \<Rightarrow> clock \<Rightarrow> instant option ret \<times> clock" where
  "rearm b step next deadline c =
    (if next = Step_Drain \<or> next = Step_Retire then
       (case budgets_drain b of
         None \<Rightarrow> (Returned None, c)
       | Some budget \<Rightarrow> (case now_plus budget c of
           (None, c) \<Rightarrow> (Panicked, c) | (Some t, c) \<Rightarrow> (Returned (Some t), c)))
     else if step = Step_Drain then
       (case now_plus (budgets_setup b) c of
         (None, c) \<Rightarrow> (Panicked, c) | (Some t, c) \<Rightarrow> (Returned (Some t), c))
     else (Returned deadline, c))"

text \<open>The pause before the same step is asked again, blocking and asynchronous.\<close>

definition poll_pause :: "instant option \<Rightarrow> clock \<Rightarrow> unit ret \<times> clock" where
  "poll_pause deadline c = (case deadline of
     None \<Rightarrow> (Returned (), sleep poll_interval c)
   | Some limit \<Rightarrow>
       let (left, c) = remaining limit c in (Returned (), sleep (min poll_interval left) c))"

definition poll_pause_until :: "instant option \<Rightarrow> clock \<Rightarrow> unit ret \<times> clock" where
  "poll_pause_until deadline c = (case now_plus poll_interval c of
     (None, c) \<Rightarrow> (Panicked, c)
   | (Some wake, c) \<Rightarrow>
       let until = (case deadline of None \<Rightarrow> wake | Some limit \<Rightarrow> min limit wake) in
       (Returned (), sleep (until - time c) c))"

definition prefault_once :: "('d, 'e) driver \<Rightarrow> machine \<Rightarrow> machine \<Rightarrow> 'd world \<Rightarrow> 'd world" where
  "prefault_once d before m w =
    (if machine_committed m \<and> \<not> machine_committed before
     then w\<lparr>world_prefaulted := world_prefaulted w @ driver_warmup_paths d (world_driver w)\<rparr>
     else w)"

text \<open>The tail of an iteration, from the answer the driver gave in time.\<close>

definition settle_progress :: "(instant option \<Rightarrow> clock \<Rightarrow> unit ret \<times> clock) \<Rightarrow> ('d, 'e) driver \<Rightarrow> budgets
    \<Rightarrow> progress \<Rightarrow> 'd loop_state \<Rightarrow> (('d, 'e) loop_result, 'd loop_state) control" where
  "settle_progress pause d b progress = (\<lambda>(m, deadline, w).
    case machine_advance progress m of
      (Inl failure, m') \<Rightarrow> Break (Returned (Err failure), w)
    | (Inr (Some outcome), m') \<Rightarrow> Break (Returned (Ok outcome), prefault_once d m m' w)
    | (Inr None, m') \<Rightarrow>
        let w = prefault_once d m m' w in
        if machine_step m' \<noteq> machine_step m then
          (case rearm b (machine_step m) (machine_step m') deadline (world_clock w) of
            (Panicked, c) \<Rightarrow> Break (Panicked, w\<lparr>world_clock := c\<rparr>)
          | (Returned deadline', c) \<Rightarrow> Continue (m', deadline', w\<lparr>world_clock := c\<rparr>))
        else
          (case pause deadline (world_clock w) of
            (Panicked, c) \<Rightarrow> Break (Panicked, w\<lparr>world_clock := c\<rparr>)
          | (Returned _, c) \<Rightarrow> Continue (m', deadline, w\<lparr>world_clock := c\<rparr>)))"

text \<open>The answer itself: an error of the driver, a late answer to any step but the commit, or
  progress.\<close>

definition settle_answer :: "(instant option \<Rightarrow> clock \<Rightarrow> unit ret \<times> clock) \<Rightarrow> ('d, 'e) driver \<Rightarrow> budgets
    \<Rightarrow> 'e + progress \<Rightarrow> 'd loop_state \<Rightarrow> (('d, 'e) loop_result, 'd loop_state) control" where
  "settle_answer pause d b result = (\<lambda>(m, deadline, w).
    case result of
      Inl e \<Rightarrow> Break (Returned (Err (machine_failure (Reason_Adapter e) m)), w)
    | Inr progress \<Rightarrow>
        let (late, c) = (if machine_step m \<noteq> Step_Commit then past deadline (world_clock w)
                         else (False, world_clock w));
            w = w\<lparr>world_clock := c\<rparr> in
        if late then Break (Returned (Err (machine_failure Reason_Deadline m)), w)
        else settle_progress pause d b progress (m, deadline, w))"

definition run_round :: "('d, 'e) driver \<Rightarrow> budgets
    \<Rightarrow> 'd loop_state \<Rightarrow> (('d, 'e) loop_result, 'd loop_state) control" where
  "run_round d b = (\<lambda>(m, deadline, w).
    let (late, c) = past deadline (world_clock w) in
    if late then Break (Returned (Err (machine_failure Reason_Deadline m)), w\<lparr>world_clock := c\<rparr>)
    else
      let (result, took, s) = driver_perform d (machine_step m) deadline (time c) (world_driver w) in
      settle_answer poll_pause d b result
        (m, deadline, w\<lparr>world_driver := s, world_clock := elapse took c\<rparr>))"

definition run_round_async :: "('d, 'e) driver \<Rightarrow> budgets
    \<Rightarrow> 'd loop_state \<Rightarrow> (('d, 'e) loop_result, 'd loop_state) control" where
  "run_round_async d b = (\<lambda>(m, deadline, w).
    let (late, c) = past deadline (world_clock w) in
    if late then Break (Returned (Err (machine_failure Reason_Deadline m)), w\<lparr>world_clock := c\<rparr>)
    else
      let (result, took, s) =
        (case (if machine_step m \<noteq> Step_Commit then deadline else None) of
          Some limit \<Rightarrow> driver_timed d (machine_step m) limit (time c) (world_driver w)
        | None \<Rightarrow> let (result, took, s) =
              driver_perform d (machine_step m) deadline (time c) (world_driver w)
            in (Some result, took, s));
        w = w\<lparr>world_driver := s, world_clock := elapse took c\<rparr> in
      case result of
        None \<Rightarrow> Break (Returned (Err (machine_failure Reason_Deadline m)), w)
      | Some result \<Rightarrow> settle_answer poll_pause_until d b result (m, deadline, w))"

definition run_from :: "('d loop_state \<Rightarrow> (('d, 'e) loop_result, 'd loop_state) control) \<Rightarrow> mode \<Rightarrow> budgets
    \<Rightarrow> 'd world \<Rightarrow> ('d, 'e) loop_result option" where
  "run_from round mode b w = (case now_plus (budgets_setup b) (world_clock w) of
     (None, c) \<Rightarrow> Some (Panicked, w\<lparr>world_clock := c\<rparr>)
   | (Some deadline, c) \<Rightarrow>
       iterate round (machine_new mode, Some deadline, w\<lparr>world_clock := c\<rparr>))"

definition run :: "mode \<Rightarrow> budgets \<Rightarrow> ('d, 'e) driver \<Rightarrow> 'd world \<Rightarrow> ('d, 'e) loop_result option" where
  "run mode b d w = run_from (run_round d b) mode b w"

definition run_async :: "mode \<Rightarrow> budgets \<Rightarrow> ('d, 'e) driver \<Rightarrow> 'd world \<Rightarrow> ('d, 'e) loop_result option" where
  "run_async mode b d w = run_from (run_round_async d b) mode b w"

section \<open>The promised protocol\<close>

text \<open>
  The order the crate promises for each mode, and the histories of a driver that keeps to it: each
  operation is the next one of the plan, a finished one is never asked for again, and only the
  recheck, the drain and the proof may be asked for repeatedly while they are pending.
\<close>

definition plan :: "mode \<Rightarrow> step list" where
  "plan mode = (case mode of
     Mode_Overlap \<Rightarrow>
       [Step_Recheck, Step_Prepare, Step_Start, Step_Verify, Step_Validate, Step_Commit, Step_Retire]
   | Mode_Exclusive \<Rightarrow>
       [Step_Recheck, Step_Prepare, Step_Drain, Step_Start, Step_Verify, Step_Validate, Step_Commit])"

type_synonym 'e history = "(step \<times> ('e + progress) option) list"

inductive protocol :: "mode \<Rightarrow> 'e history \<Rightarrow> step list \<Rightarrow> bool" for mode where
  begin_plan: "protocol mode [] (plan mode)"
| finish_step: "protocol mode log (s # rest) \<Longrightarrow> protocol mode (log @ [(s, Some (Ok Progress_Done))]) rest"
| retry_step: "protocol mode log (s # rest) \<Longrightarrow> s \<in> {Step_Recheck, Step_Drain, Step_Verify} \<Longrightarrow>
    protocol mode (log @ [(s, Some (Ok Progress_Pending))]) (s # rest)"

text \<open>A driver that also writes down what it was asked and what it answered.\<close>

definition logged :: "('d, 'e) driver \<Rightarrow> ('d \<times> 'e history, 'e) driver" where
  "logged d = \<lparr>
     driver_perform = (\<lambda>s deadline t (x, log).
       let (r, took, x) = driver_perform d s deadline t x in (r, took, x, log @ [(s, Some r)])),
     driver_timed = (\<lambda>s limit t (x, log).
       let (r, took, x) = driver_timed d s limit t x in (r, took, x, log @ [(s, r)])),
     driver_warmup_paths = (\<lambda>(x, log). driver_warmup_paths d x)\<rparr>"

definition history :: "('d \<times> 'e history) world \<Rightarrow> 'e history" where
  "history w = snd (world_driver w)"

definition finished :: "'e history \<Rightarrow> step list" where
  "finished log = map fst (filter (\<lambda>(s, r). r = Some (Ok Progress_Done)) log)"

definition reports_commit :: "'e failure + outcome \<Rightarrow> bool" where
  "reports_commit r = (case r of
     Inl failure \<Rightarrow> failure_committed failure
   | Inr outcome \<Rightarrow> outcome = Outcome_Complete \<or> outcome = Outcome_RetirementPending)"

text \<open>A history kept to the protocol, but for its last answer, which ended the run.\<close>

definition obedient :: "mode \<Rightarrow> 'e history \<Rightarrow> bool" where
  "obedient mode log \<longleftrightarrow> (\<exists>kept rest. protocol mode kept rest \<and>
     (log = kept \<or> (\<exists>s r rest'. rest = s # rest' \<and> log = kept @ [(s, r)])))"

section \<open>What the machine does at each step\<close>

definition machine_ok :: "mode \<Rightarrow> machine \<Rightarrow> bool" where
  "machine_ok mode m \<longleftrightarrow> machine_mode m = mode \<and> machine_step m \<in> set (plan mode)
     \<and> (machine_committed m \<longleftrightarrow> machine_step m = Step_Retire)"

definition ahead :: "mode \<Rightarrow> step \<Rightarrow> step list" where
  "ahead mode s = dropWhile (\<lambda>x. x \<noteq> s) (plan mode)"

lemma machine_ok_new: "machine_ok mode (machine_new mode)"
  by (cases mode) (simp_all add: machine_ok_def machine_new_def plan_def)

lemma ahead_new: "ahead mode Step_Recheck = plan mode"
  by (cases mode) (simp_all add: ahead_def plan_def)

lemma ahead_Cons: "machine_ok mode m \<Longrightarrow> ahead mode (machine_step m) = machine_step m # tl (ahead mode (machine_step m))"
  by (cases mode; cases "machine_step m") (simp_all add: ahead_def plan_def machine_ok_def)

lemmas machine_defs = machine_advance_def machine_done_def machine_ok_def machine_failure_def

lemma advance_on:
  assumes "machine_advance p m = (Inr None, m')" and "machine_ok mode m"
  shows "machine_ok mode m' \<and>
    (p = Progress_Done \<and> ahead mode (machine_step m) = machine_step m # ahead mode (machine_step m')
       \<and> machine_step m' \<noteq> machine_step m \<and> machine_step m \<noteq> Step_Retire
       \<and> (machine_committed m' \<longleftrightarrow> machine_step m = Step_Commit)
     \<or> p = Progress_Pending \<and> m' = m \<and> machine_step m \<in> {Step_Recheck, Step_Drain, Step_Verify})"
  using assms
  by (cases mode; cases "machine_step m"; cases p)
     (auto simp: machine_defs plan_def ahead_def)

lemma advance_out:
  assumes "machine_advance p m = (Inr (Some out), m')" and "machine_ok mode m"
  shows "out = Outcome_Unchanged \<and> p = Progress_Unchanged \<and> m' = m \<and> machine_step m = Step_Recheck
    \<or> out = Outcome_RetirementPending \<and> p = Progress_Pending \<and> m' = m \<and> machine_step m = Step_Retire
    \<or> out = Outcome_Complete \<and> p = Progress_Done \<and> machine_committed m'
      \<and> machine_step m = (if mode = Mode_Exclusive then Step_Commit else Step_Retire)"
  using assms
  by (cases mode; cases "machine_step m"; cases p)
     (auto simp: machine_defs plan_def split: if_splits)

lemma advance_err:
  assumes "machine_advance p m = (Inl failure, m')"
  shows "m' = m \<and> failure = machine_failure Reason_InvalidProgress m \<and> p \<noteq> Progress_Done"
  using assms
  by (cases "machine_step m"; cases p)
     (auto simp: machine_advance_def machine_done_def split: prod.splits if_splits)

section \<open>The loops keep to the protocol\<close>

lemma finished_snoc [simp]:
  "finished (log @ [(s, r)]) = finished log @ (if r = Some (Ok Progress_Done) then [s] else [])"
  by (simp add: finished_def)

lemma finished_Nil [simp]: "finished [] = []"
  by (simp add: finished_def)

lemma protocol_finished: "protocol mode log rest \<Longrightarrow> finished log @ rest = plan mode"
  by (induction rule: protocol.induct) simp_all

lemma obedient_kept: "protocol mode log rest \<Longrightarrow> obedient mode log"
  by (auto simp: obedient_def)

lemma obedient_last: "protocol mode log (s # rest) \<Longrightarrow> obedient mode (log @ [(s, r)])"
  by (auto simp: obedient_def)

definition warmed :: "('d, 'e) driver \<Rightarrow> string list \<Rightarrow> bool \<Rightarrow> 'w world \<Rightarrow> bool" where
  "warmed d pf committed w \<longleftrightarrow>
    (\<exists>x. world_prefaulted w = pf @ (if committed then driver_warmup_paths d x else []))"

lemma warmed_world [simp]:
  "warmed d pf committed (w\<lparr>world_clock := c\<rparr>) = warmed d pf committed w"
  "warmed d pf committed (w\<lparr>world_driver := y\<rparr>) = warmed d pf committed w"
  by (simp_all add: warmed_def)

lemma history_world [simp]:
  "history (w\<lparr>world_clock := c\<rparr>) = history w"
  "history (prefault_once d m m' w) = history w"
  by (simp_all add: history_def prefault_once_def)

lemma warmed_once:
  "warmed d pf (machine_committed m) w \<Longrightarrow> (machine_committed m \<longrightarrow> machine_committed m') \<Longrightarrow>
    warmed d pf (machine_committed m') (prefault_once (logged d) m m' w)"
  by (cases "world_driver w") (auto simp: warmed_def prefault_once_def logged_def)

text \<open>Between two iterations, and between a driver's answer and the decision on it.\<close>

definition run_inv :: "mode \<Rightarrow> ('d, 'e) driver \<Rightarrow> string list \<Rightarrow> ('d \<times> 'e history) loop_state \<Rightarrow> bool" where
  "run_inv mode d pf = (\<lambda>(m, deadline, w). machine_ok mode m
     \<and> protocol mode (history w) (ahead mode (machine_step m))
     \<and> (machine_committed m \<longleftrightarrow> Step_Commit \<in> set (finished (history w)))
     \<and> warmed d pf (machine_committed m) w)"

definition run_asked :: "mode \<Rightarrow> ('d, 'e) driver \<Rightarrow> string list \<Rightarrow> ('e + progress) option
    \<Rightarrow> ('d \<times> 'e history) loop_state \<Rightarrow> bool" where
  "run_asked mode d pf r = (\<lambda>(m, deadline, w). machine_ok mode m \<and> (\<exists>log.
       history w = log @ [(machine_step m, r)]
     \<and> protocol mode log (ahead mode (machine_step m))
     \<and> (machine_committed m \<longleftrightarrow> Step_Commit \<in> set (finished log)))
     \<and> warmed d pf (machine_committed m) w)"

definition run_post :: "mode \<Rightarrow> ('d, 'e) driver \<Rightarrow> string list \<Rightarrow> ('d \<times> 'e history, 'e) loop_result \<Rightarrow> bool" where
  "run_post mode d pf = (\<lambda>(out, w). obedient mode (history w) \<and> (\<forall>r. out = Returned r \<longrightarrow>
       (reports_commit r \<longleftrightarrow> Step_Commit \<in> set (finished (history w)))
     \<and> warmed d pf (reports_commit r) w
     \<and> (r = Ok Outcome_Complete \<longrightarrow> finished (history w) = plan mode)
     \<and> (r = Ok Outcome_Unchanged \<longrightarrow> finished (history w) = [])))"

lemma asked_obedient: "run_asked mode d pf r (m, deadline, w) \<Longrightarrow> obedient mode (history w)"
proof -
  assume "run_asked mode d pf r (m, deadline, w)"
  then obtain log where "machine_ok mode m" "history w = log @ [(machine_step m, r)]"
    "protocol mode log (ahead mode (machine_step m))"
    by (auto simp: run_asked_def)
  then show ?thesis using ahead_Cons obedient_last by metis
qed

lemma asked_no_commit:
  assumes "run_asked mode d pf r (m, deadline, w)"
    and "r = Some (Ok Progress_Done) \<longrightarrow> machine_step m \<noteq> Step_Commit"
  shows "machine_committed m \<longleftrightarrow> Step_Commit \<in> set (finished (history w))"
  using assms by (auto simp: run_asked_def)

lemma asked_failure:
  assumes "run_asked mode d pf r (m, deadline, w)"
    and "r = Some (Ok Progress_Done) \<longrightarrow> machine_step m \<noteq> Step_Commit"
  shows "run_post mode d pf (Returned (Err (machine_failure reason m)), w)"
  using asked_obedient[OF assms(1)] asked_no_commit[OF assms] assms(1)
  by (simp add: run_post_def reports_commit_def machine_failure_def run_asked_def)

lemma asked_on:
  assumes "run_asked mode d pf (Some (Ok p)) (m, deadline, w)"
    and "machine_advance p m = (Inr None, m')"
  shows "run_inv mode d pf (m', deadline', prefault_once (logged d) m m' w)"
proof -
  obtain log where log: "history w = log @ [(machine_step m, Some (Ok p))]"
      "protocol mode log (ahead mode (machine_step m))"
      "machine_committed m \<longleftrightarrow> Step_Commit \<in> set (finished log)"
    and ok: "machine_ok mode m" and warm: "warmed d pf (machine_committed m) w"
    using assms(1) by (auto simp: run_asked_def)
  note on = advance_on[OF assms(2) ok]
  have "protocol mode (history w) (ahead mode (machine_step m'))"
    using on log ahead_Cons[OF ok] by (metis finish_step retry_step)
  moreover have "machine_committed m' \<longleftrightarrow> Step_Commit \<in> set (finished (history w))"
    and "machine_committed m \<longrightarrow> machine_committed m'"
    using on log ok by (auto simp: machine_ok_def)
  ultimately show ?thesis
    using on warmed_once[OF warm, of m'] by (simp add: run_inv_def)
qed

lemma asked_out:
  assumes "run_asked mode d pf (Some (Ok p)) (m, deadline, w)"
    and "machine_advance p m = (Inr (Some out), m')"
  shows "run_post mode d pf (Returned (Ok out), prefault_once (logged d) m m' w)"
proof -
  obtain log where log: "history w = log @ [(machine_step m, Some (Ok p))]"
      "protocol mode log (ahead mode (machine_step m))"
      "machine_committed m \<longleftrightarrow> Step_Commit \<in> set (finished log)"
    and ok: "machine_ok mode m" and warm: "warmed d pf (machine_committed m) w"
    using assms(1) by (auto simp: run_asked_def)
  note out = advance_out[OF assms(2) ok]
  have "finished log @ ahead mode (machine_step m) = plan mode"
    using log(2) by (rule protocol_finished)
  with out log have "out = Outcome_Complete \<longrightarrow> finished (history w) = plan mode"
    and "out = Outcome_Unchanged \<longrightarrow> finished (history w) = []"
    by (cases mode; auto simp: ahead_def plan_def)+
  moreover have "machine_committed m' \<longleftrightarrow> Step_Commit \<in> set (finished (history w))"
    and "machine_committed m' \<longleftrightarrow> out = Outcome_Complete \<or> out = Outcome_RetirementPending"
    and "machine_committed m \<longrightarrow> machine_committed m'"
    using out log ok by (cases mode; auto simp: machine_ok_def split: if_splits)+
  ultimately show ?thesis
    using asked_obedient[OF assms(1)] warmed_once[OF warm, of m'] by (auto simp: run_post_def reports_commit_def)
qed

lemma asked_clock: "run_asked mode d pf r (m, deadline, w\<lparr>world_clock := c\<rparr>) = run_asked mode d pf r (m, deadline, w)"
  by (simp add: run_asked_def)

lemma inv_clock: "run_inv mode d pf (m, deadline, w\<lparr>world_clock := c\<rparr>) = run_inv mode d pf (m, deadline, w)"
  by (simp add: run_inv_def)

lemma settle_progress_keeps:
  assumes "run_asked mode d pf (Some (Ok p)) (m, deadline, w)"
    and "settle_progress pause (logged d) b p (m, deadline, w) = Continue s"
  shows "run_inv mode d pf s"
  using assms(2) asked_on[OF assms(1)]
  by (auto simp: settle_progress_def inv_clock Let_def split: prod.splits sum.splits option.splits ret.splits if_splits)

lemma settle_progress_leaves:
  assumes "run_asked mode d pf (Some (Ok p)) (m, deadline, w)"
    and "settle_progress pause (logged d) b p (m, deadline, w) = Break r"
  shows "run_post mode d pf r"
proof -
  have "run_post mode d pf (Panicked, w')" if "history w' = history w" for w'
    using asked_obedient[OF assms(1)] that by (simp add: run_post_def)
  moreover have "run_post mode d pf (Returned (Err f), w)" if "machine_advance p m = (Inl f, m')" for f m'
    using advance_err[OF that] asked_failure[OF assms(1)] by auto
  ultimately show ?thesis
    using assms(2) asked_out[OF assms(1)]
    by (auto simp: settle_progress_def Let_def
        split: prod.splits sum.splits option.splits ret.splits if_splits)
qed

lemma settle_answer_keeps:
  assumes "run_asked mode d pf (Some r) (m, deadline, w)"
    and "settle_answer pause (logged d) b r (m, deadline, w) = Continue s"
  shows "run_inv mode d pf s"
  using assms
  by (auto simp: settle_answer_def asked_clock Let_def
      split: prod.splits sum.splits if_splits elim!: settle_progress_keeps[rotated])

lemma settle_answer_leaves:
  assumes asked: "run_asked mode d pf (Some r) (m, deadline, w)"
    and "settle_answer pause (logged d) b r (m, deadline, w) = Break out"
  shows "run_post mode d pf out"
proof (cases r)
  case (Inl e)
  with assms(2) have "out = (Returned (Err (machine_failure (Reason_Adapter e) m)), w)"
    by (simp add: settle_answer_def)
  then show ?thesis using asked_failure[OF asked] Inl by simp
next
  case (Inr p)
  define c where "c = snd (if machine_step m \<noteq> Step_Commit then past deadline (world_clock w)
    else (False, world_clock w))"
  have asked': "run_asked mode d pf (Some (Ok p)) (m, deadline, w\<lparr>world_clock := c\<rparr>)"
    using asked Inr by (simp add: asked_clock)
  have "machine_step m \<noteq> Step_Commit \<and>
      out = (Returned (Err (machine_failure Reason_Deadline m)), w\<lparr>world_clock := c\<rparr>)
    \<or> settle_progress pause (logged d) b p (m, deadline, w\<lparr>world_clock := c\<rparr>) = Break out"
    using assms(2) Inr
    by (auto simp: settle_answer_def c_def Let_def split: prod.splits if_splits)
  then show ?thesis
  proof
    assume "machine_step m \<noteq> Step_Commit \<and>
      out = (Returned (Err (machine_failure Reason_Deadline m)), w\<lparr>world_clock := c\<rparr>)"
    then show ?thesis using asked_failure[OF asked'] by simp
  qed (rule settle_progress_leaves[OF asked'])
qed

lemma ask:
  assumes "run_inv mode d pf (m, deadline, w)"
    and "snd s = history w @ [(machine_step m, r)]"
  shows "run_asked mode d pf r (m, deadline, w\<lparr>world_driver := s, world_clock := c\<rparr>)"
  using assms by (auto simp: run_inv_def run_asked_def history_def warmed_def)

lemma inv_failure:
  "run_inv mode d pf (m, deadline, w) \<Longrightarrow>
    run_post mode d pf (Returned (Err (machine_failure reason m)), w\<lparr>world_clock := c\<rparr>)"
  by (auto simp: run_inv_def run_post_def machine_failure_def reports_commit_def intro: obedient_kept)

lemma logged_perform:
  "driver_perform (logged d) s deadline t x = (r, took, y) \<Longrightarrow> snd y = snd x @ [(s, Some r)]"
  by (auto simp: logged_def split: prod.splits)

lemma logged_timed:
  "driver_timed (logged d) s limit t x = (r, took, y) \<Longrightarrow> snd y = snd x @ [(s, r)]"
  by (auto simp: logged_def split: prod.splits)

interpretation run: loop_contract "run_round (logged d) b" "run_inv mode d pf" "run_post mode d pf"
  for d b mode pf
proof unfold_locales
  fix s s'
  assume "run_inv mode d pf s" "run_round (logged d) b s = Continue s'"
  then show "run_inv mode d pf s'"
    by (cases s) (auto simp: run_round_def Let_def history_def split: prod.splits if_splits
        dest!: logged_perform intro!: settle_answer_keeps ask)
next
  fix s r
  assume "run_inv mode d pf s" "run_round (logged d) b s = Break r"
  then show "run_post mode d pf r"
    by (cases s) (auto simp: run_round_def Let_def history_def split: prod.splits if_splits
        dest!: logged_perform intro!: settle_answer_leaves ask inv_failure)
qed

lemma async_round_asks:
  assumes "run_inv mode d pf (m, deadline, w)"
  shows "run_round_async (logged d) b (m, deadline, w) =
      Break (Returned (Err (machine_failure Reason_Deadline m)), w\<lparr>world_clock := snd (past deadline (world_clock w))\<rparr>)
    \<or> (\<exists>w'. run_asked mode d pf None (m, deadline, w') \<and> run_round_async (logged d) b (m, deadline, w)
        = Break (Returned (Err (machine_failure Reason_Deadline m)), w'))
    \<or> (\<exists>r w'. run_asked mode d pf (Some r) (m, deadline, w') \<and> run_round_async (logged d) b (m, deadline, w)
        = settle_answer poll_pause_until (logged d) b r (m, deadline, w'))"
proof -
  obtain late c where late: "past deadline (world_clock w) = (late, c)"
    by (cases "past deadline (world_clock w)")
  define ask_driver where "ask_driver =
    (case (if machine_step m \<noteq> Step_Commit then deadline else None) of
        Some limit \<Rightarrow> driver_timed (logged d) (machine_step m) limit (time c) (world_driver w)
      | None \<Rightarrow> let (result, took, s) =
            driver_perform (logged d) (machine_step m) deadline (time c) (world_driver w)
          in (Some result, took, s))"
  obtain r took s where r: "ask_driver = (r, took, s)" by (cases ask_driver)
  then have "snd s = history w @ [(machine_step m, r)]"
    by (auto simp: ask_driver_def history_def split: option.splits prod.splits if_splits
        dest: logged_perform logged_timed)
  note asked = ask[OF assms this, of "elapse took c"]
  have "run_round_async (logged d) b (m, deadline, w) =
    (if late then Break (Returned (Err (machine_failure Reason_Deadline m)), w\<lparr>world_clock := c\<rparr>)
     else case r of
       None \<Rightarrow> Break (Returned (Err (machine_failure Reason_Deadline m)),
         w\<lparr>world_driver := s, world_clock := elapse took c\<rparr>)
     | Some r \<Rightarrow> settle_answer poll_pause_until (logged d) b r
         (m, deadline, w\<lparr>world_driver := s, world_clock := elapse took c\<rparr>))"
    using late r unfolding run_round_async_def ask_driver_def by (simp only: prod.case Let_def)
  with asked late show ?thesis by (cases r) auto
qed

interpretation run_async: loop_contract "run_round_async (logged d) b" "run_inv mode d pf" "run_post mode d pf"
  for d b mode pf
proof unfold_locales
  fix s s'
  assume inv: "run_inv mode d pf s" and s': "run_round_async (logged d) b s = Continue s'"
  obtain m deadline w where s: "s = (m, deadline, w)" by (cases s)
  from async_round_asks[OF inv[unfolded s], of b] show "run_inv mode d pf s'"
    using s' by (auto simp: s) (metis settle_answer_keeps)
next
  fix s r
  assume inv: "run_inv mode d pf s" and r: "run_round_async (logged d) b s = Break r"
  obtain m deadline w where s: "s = (m, deadline, w)" by (cases s)
  from async_round_asks[OF inv[unfolded s], of b] show "run_post mode d pf r"
    using r inv
    by (auto simp: s intro: inv_failure asked_failure) (metis settle_answer_leaves)
qed

lemma run_from_post:
  assumes "run_from round mode b w = Some r" and "world_driver w = (x, [])"
    and sound: "\<And>s r. iterate round s = Some r \<Longrightarrow> run_inv mode d (world_prefaulted w) s \<Longrightarrow>
      run_post mode d (world_prefaulted w) r"
  shows "run_post mode d (world_prefaulted w) r"
proof (cases "now_plus (budgets_setup b) (world_clock w)")
  case (Pair deadline c)
  have start: "protocol mode [] (ahead mode Step_Recheck)"
    by (simp add: ahead_new begin_plan)
  then have "run_inv mode d (world_prefaulted w) (machine_new mode, deadline, w\<lparr>world_clock := c\<rparr>)"
    using machine_ok_new[of mode] assms(2)
    by (simp add: run_inv_def history_def warmed_def machine_new_def)
  moreover have "run_post mode d (world_prefaulted w) (Panicked, w\<lparr>world_clock := c\<rparr>)"
    using obedient_kept[OF start] assms(2) by (simp add: run_post_def history_def)
  ultimately show ?thesis
    using assms(1) Pair sound by (auto simp: run_from_def split: option.splits)
qed

section \<open>The loops end\<close>

text \<open>
  Only an incumbent that an application drains without a limit can keep the loop going for ever.
  Every other wait runs against a deadline: each further iteration either moves on in the plan or
  has used up some of the time before the deadline.
\<close>

definition bounded_drain :: "mode \<Rightarrow> budgets \<Rightarrow> bool" where
  "bounded_drain mode b \<longleftrightarrow> mode = Mode_Overlap \<or> budgets_drain b \<noteq> None"

definition run_bounded :: "mode \<Rightarrow> budgets \<Rightarrow> 'd loop_state \<Rightarrow> bool" where
  "run_bounded mode b = (\<lambda>(m, deadline, w). bounded_drain mode b \<and> machine_ok mode m
     \<and> (deadline = None \<longrightarrow> machine_step m = Step_Retire))"

definition run_order :: "mode \<Rightarrow> ('d loop_state \<times> 'd loop_state) set" where
  "run_order mode = measures
     [\<lambda>(m, deadline, w). length (ahead mode (machine_step m)),
      \<lambda>(m, deadline, w). case deadline of None \<Rightarrow> 0 | Some limit \<Rightarrow> Suc limit - time (world_clock w)]"

definition shrinking :: "(instant option \<Rightarrow> clock \<Rightarrow> unit ret \<times> clock) \<Rightarrow> bool" where
  "shrinking pause \<longleftrightarrow> (\<forall>limit t c c'. pause (Some limit) c = (Returned (), c') \<longrightarrow>
     t < limit \<longrightarrow> t \<le> time c \<longrightarrow> Suc limit - time c' < Suc limit - t)"

lemma shrinking_pause: "shrinking poll_pause" "shrinking poll_pause_until"
proof -
  show "shrinking poll_pause"
    using poll_progress order_trans[OF _ tick_mono]
    by (auto simp: shrinking_def poll_pause_def time_simps)
  show "shrinking poll_pause_until"
    unfolding shrinking_def
  proof (intro allI impI)
    fix limit t c c'
    assume "poll_pause_until (Some limit) c = (Returned (), c')" and "t < limit" "t \<le> time c"
    then show "Suc limit - time c' < Suc limit - t"
      using poll_progress[of t limit "tick c"] order_trans[OF _ tick_mono, of t c]
        poll_pause_async[of "tick c" limit]
      by (auto simp: poll_pause_until_def time_simps min.commute split: option.splits prod.splits)
  qed
qed

lemma rearm_bounded:
  assumes "rearm b step next deadline c = (Returned deadline', c')" and "bounded_drain mode b"
    and "next \<in> set (plan mode)" and "deadline = None \<longrightarrow> step = Step_Retire" and "step \<noteq> Step_Retire"
  shows "deadline' = None \<longrightarrow> next = Step_Retire"
  using assms
  by (cases mode) (auto simp: rearm_def bounded_drain_def plan_def
      split: if_splits option.splits prod.splits)

lemma settle_progress_descends:
  fixes d :: "('d, 'e) driver"
  assumes "run_bounded mode b (m, deadline, w)" and "shrinking pause"
    and "settle_progress pause d b p (m, deadline, w) = Continue s"
    and "\<And>limit. deadline = Some limit \<Longrightarrow> machine_step m \<noteq> Step_Commit \<Longrightarrow> time (world_clock w) < limit"
    and "time (world_clock w0) \<le> time (world_clock w)"
  shows "run_bounded mode b s \<and> (s, (m, deadline, w0)) \<in> run_order mode"
proof -
  have ok: "machine_ok mode m" and bounded: "bounded_drain mode b"
    and none: "deadline = None \<longrightarrow> machine_step m = Step_Retire"
    using assms(1) by (auto simp: run_bounded_def)
  obtain m' where adv: "machine_advance p m = (Inr None :: 'e failure + outcome option, m')"
    using assms(3) by (auto simp: settle_progress_def split: prod.splits sum.splits option.splits)
  define w1 where "w1 = prefault_once d m m' w"
  have clk: "world_clock w1 = world_clock w" by (simp add: w1_def prefault_once_def)
  note on = advance_on[OF adv ok]
  show ?thesis
  proof (cases "machine_step m' = machine_step m")
    case False
    with assms(3) adv obtain deadline' c where s: "s = (m', deadline', w1\<lparr>world_clock := c\<rparr>)"
      and "rearm b (machine_step m) (machine_step m') deadline (world_clock w1) = (Returned deadline', c)"
      by (auto simp: settle_progress_def w1_def Let_def split: prod.splits ret.splits)
    with on False rearm_bounded[OF this(2) bounded _ none] have "run_bounded mode b s"
      using bounded by (auto simp: run_bounded_def machine_ok_def)
    with on False s show ?thesis by (auto simp: run_order_def)
  next
    case True
    with on have "m' = m" and polled: "machine_step m \<in> {Step_Recheck, Step_Drain, Step_Verify}"
      by auto
    with none obtain limit where limit: "deadline = Some limit" by (cases deadline) auto
    with assms(3) adv True obtain c where s: "s = (m', deadline, w1\<lparr>world_clock := c\<rparr>)"
      and "pause (Some limit) (world_clock w1) = (Returned (), c)"
      by (auto simp: settle_progress_def w1_def Let_def split: prod.splits ret.splits)
    moreover have "time (world_clock w) < limit"
      using assms(4)[OF limit] polled by auto
    ultimately have "Suc limit - time c < Suc limit - time (world_clock w0)"
      using assms(2, 5) unfolding shrinking_def clk by (meson order_le_less_trans)
    with s \<open>m' = m\<close> limit ok bounded show ?thesis
      by (auto simp: run_bounded_def run_order_def)
  qed
qed

lemma settle_answer_descends:
  assumes "run_bounded mode b (m, deadline, w)" and "shrinking pause"
    and "settle_answer pause d b r (m, deadline, w) = Continue s"
    and "time (world_clock w0) \<le> time (world_clock w)"
  shows "run_bounded mode b s \<and> (s, (m, deadline, w0)) \<in> run_order mode"
proof -
  obtain p late c where p: "r = Inr p" and late: "\<not> late"
    and c: "(if machine_step m \<noteq> Step_Commit then past deadline (world_clock w)
      else (False, world_clock w)) = (late, c)"
    and s: "settle_progress pause d b p (m, deadline, w\<lparr>world_clock := c\<rparr>) = Continue s"
    using assms(3) by (auto simp: settle_answer_def Let_def split: sum.splits prod.splits if_splits)
  have "time (world_clock w) \<le> time c"
    using c by (auto split: if_splits dest: past_clock_mono)
  moreover have "time c < limit" if "deadline = Some limit" "machine_step m \<noteq> Step_Commit" for limit
    using c late that by (auto simp: time_simps)
  ultimately show ?thesis
    using settle_progress_descends[OF _ assms(2) s, of mode w0] assms(1, 4)
    by (auto simp: run_bounded_def)
qed

lemma run_round_descends:
  assumes "run_bounded mode b s" and "run_round d b s = Continue s'"
  shows "run_bounded mode b s' \<and> (s', s) \<in> run_order mode"
proof -
  obtain m deadline w where s: "s = (m, deadline, w)" by (cases s)
  with assms(2) obtain r x c where c: "time (world_clock w) \<le> time c"
    and r: "settle_answer poll_pause d b r (m, deadline, w\<lparr>world_driver := x, world_clock := c\<rparr>) = Continue s'"
    by (auto simp: run_round_def Let_def split: prod.splits if_splits)
       (metis past_clock_mono time_elapse trans_le_add1)
  have "run_bounded mode b (m, deadline, w\<lparr>world_driver := x, world_clock := c\<rparr>)"
    using assms(1) by (simp add: s run_bounded_def)
  then show ?thesis
    using settle_answer_descends[OF _ shrinking_pause(1) r, of mode w] c s by simp
qed

lemma run_round_async_descends:
  assumes "run_bounded mode b s" and "run_round_async d b s = Continue s'"
  shows "run_bounded mode b s' \<and> (s', s) \<in> run_order mode"
proof -
  obtain m deadline w where s: "s = (m, deadline, w)" by (cases s)
  obtain late c where late: "past deadline (world_clock w) = (late, c)" by force
  with assms(2) s obtain r x took where
    r: "settle_answer poll_pause_until d b r (m, deadline, w\<lparr>world_driver := x, world_clock := elapse took c\<rparr>)
      = Continue s'"
    by (auto simp: run_round_async_def Let_def split: prod.splits if_splits option.splits)
  have "run_bounded mode b (m, deadline, w\<lparr>world_driver := x, world_clock := elapse took c\<rparr>)"
    using assms(1) by (simp add: s run_bounded_def)
  then show ?thesis
    using settle_answer_descends[OF _ shrinking_pause(2) r, of mode w] past_clock_mono[OF late] s by simp
qed

lemma wf_run_order: "wf (run_order mode)"
  by (simp add: run_order_def)

interpretation run_ends: ending_loop "run_round d b" "run_bounded mode b" "\<lambda>_. True" "run_order mode"
  for d b mode
  by unfold_locales (blast dest: run_round_descends intro: wf_run_order)+

interpretation run_async_ends: ending_loop "run_round_async d b" "run_bounded mode b" "\<lambda>_. True" "run_order mode"
  for d b mode
  by unfold_locales (blast dest: run_round_async_descends intro: wf_run_order)+

lemma run_from_ends:
  assumes "bounded_drain mode b"
    and "\<And>s. run_bounded mode b s \<Longrightarrow> \<exists>r. iterate round s = Some r"
  shows "\<exists>r. run_from round mode b w = Some r"
  using assms machine_ok_new[of mode]
  by (auto simp: run_from_def run_bounded_def machine_new_def split: option.split prod.split)

section \<open>Properties\<close>

lemma run_post_of:
  assumes "run mode b (logged d) w = Some r \<or> run_async mode b (logged d) w = Some r"
    and "world_driver w = (x, [])"
  shows "run_post mode d (world_prefaulted w) r"
  using assms run_from_post[OF _ assms(2)] run.sound run_async.sound
  unfolding run_def run_async_def by blast

lemma protocol_split:
  "protocol mode log rest \<Longrightarrow> log = before @ (s, r) # after \<Longrightarrow> \<exists>rest. protocol mode before (s # rest)"
proof (induction arbitrary: after rule: protocol.induct)
  case (finish_step log t rest)
  then show ?case by (cases after rule: rev_cases) auto
next
  case (retry_step log t rest)
  then show ?case by (cases after rule: rev_cases) auto
qed simp

lemma obedient_split:
  assumes "obedient mode (before @ (s, r) # after)"
  shows "\<exists>rest. protocol mode before (s # rest)"
proof -
  obtain kept rest where kept: "protocol mode kept rest"
    and "before @ (s, r) # after = kept
      \<or> (\<exists>t q rest'. rest = t # rest' \<and> before @ (s, r) # after = kept @ [(t, q)])"
    using assms unfolding obedient_def by blast
  then show ?thesis
    using protocol_split[OF kept] by (cases after rule: rev_cases) auto
qed

text \<open>Every step of the plan has its prerequisites before it.\<close>

lemma plan_prefix:
  "done @ s # rest = plan mode \<Longrightarrow>
    (s = Step_Commit \<longrightarrow> Step_Verify \<in> set done \<and> Step_Validate \<in> set done)
    \<and> (s = Step_Retire \<longrightarrow> mode = Mode_Overlap \<and> Step_Commit \<in> set done)
    \<and> (s = Step_Drain \<longrightarrow> mode = Mode_Exclusive)
    \<and> (s = Step_Start \<longrightarrow> mode = Mode_Exclusive \<longrightarrow> Step_Drain \<in> set done)"
  by (cases mode) (auto simp: plan_def append_eq_Cons_conv Cons_eq_append_conv)

text \<open>A driver that finishes everything at once, and a run of it, for the witnesses.\<close>

definition prompt_driver :: "(unit, unit) driver" where
  "prompt_driver = \<lparr>driver_perform = (\<lambda>s deadline t x. (Ok Progress_Done, 1, x)),
     driver_timed = (\<lambda>s limit t x. (Some (Ok Progress_Done), 1, x)),
     driver_warmup_paths = (\<lambda>x. [''relay''])\<rparr>"

definition prompt_budgets :: budgets where
  "prompt_budgets = \<lparr>budgets_setup = 100, budgets_drain = Some 50\<rparr>"

definition prompt_start :: "(unit \<times> unit history) world" where
  "prompt_start = \<lparr>world_driver = ((), []), world_clock = \<lparr>time = 5, delays = []\<rparr>, world_prefaulted = []\<rparr>"

definition prompt_end :: "mode \<Rightarrow> (unit \<times> unit history) world" where
  "prompt_end mode = \<lparr>world_driver = ((), map (\<lambda>s. (s, Some (Ok Progress_Done))) (plan mode)),
     world_clock = \<lparr>time = 12, delays = []\<rparr>, world_prefaulted = [''relay'']\<rparr>"

lemma prompt_run:
  "run Mode_Exclusive prompt_budgets (logged prompt_driver) prompt_start
    = Some (Returned (Ok Outcome_Complete), prompt_end Mode_Exclusive)"
  by code_simp

lemma prompt_run_async:
  "run_async Mode_Overlap prompt_budgets (logged prompt_driver) prompt_start
    = Some (Returned (Ok Outcome_Complete), prompt_end Mode_Overlap)"
  by code_simp

text \<open>C1: Whatever the driver answers and however long it takes, the blocking and the asynchronous
  replacement ask it for exactly the operations of the mode's plan, in order, each only after the
  one before it finished, repeating none but a pending recheck, drain or proof.  They report
  completion only after the whole plan was carried out, and an unchanged selection only when
  nothing was.\<close>

theorem run_refines_protocol:
  assumes "run mode b (logged d) w = Some (out, w') \<or> run_async mode b (logged d) w = Some (out, w')"
    and "world_driver w = (x, [])"
  shows "obedient mode (history w')
    \<and> (out = Returned (Ok Outcome_Complete) \<longrightarrow> finished (history w') = plan mode)
    \<and> (out = Returned (Ok Outcome_Unchanged) \<longrightarrow> finished (history w') = [])"
  using run_post_of[OF assms] by (simp add: run_post_def)

theorem run_refines_protocol_witness:
  "obedient Mode_Exclusive (history (prompt_end Mode_Exclusive))
    \<and> finished (history (prompt_end Mode_Exclusive)) = plan Mode_Exclusive"
  using run_refines_protocol[OF disjI1[OF prompt_run], of "()"] by (simp add: prompt_start_def)

text \<open>C2: A replacement says truthfully whether the new selection is authoritative.  Completion,
  pending retirement and a failure marked as committed are reported exactly when the driver's
  commit succeeded, even if that commit ran past the deadline; and the client's files are read
  ahead once in that case, and not at all otherwise.\<close>

theorem run_reports_the_commit:
  assumes "run mode b (logged d) w = Some (Returned r, w')
      \<or> run_async mode b (logged d) w = Some (Returned r, w')"
    and "world_driver w = (x, [])"
  shows "(reports_commit r \<longleftrightarrow> Step_Commit \<in> set (finished (history w')))
    \<and> (\<exists>y. world_prefaulted w' = world_prefaulted w
          @ (if reports_commit r then driver_warmup_paths d y else []))"
  using run_post_of[OF assms] by (auto simp: run_post_def warmed_def)

theorem run_reports_the_commit_witness:
  "reports_commit (Ok Outcome_Complete :: unit failure + outcome)
    \<and> Step_Commit \<in> set (finished (history (prompt_end Mode_Overlap)))
    \<and> world_prefaulted (prompt_end Mode_Overlap) = [''relay'']"
  using run_reports_the_commit[OF disjI2[OF prompt_run_async], of "()"]
  by (simp add: prompt_start_def prompt_end_def prompt_driver_def reports_commit_def)

text \<open>C3: The order that keeps a service safe, for every operation a replacement asks for: the
  candidate is selected only after a live proof and a revalidation; an exclusive replacement starts
  it only after the incumbent was drained; an overlapping one never drains the incumbent, and
  retires it only after the new selection was committed.\<close>

theorem run_orders_operations:
  assumes "run mode b (logged d) w = Some (out, w') \<or> run_async mode b (logged d) w = Some (out, w')"
    and "world_driver w = (x, [])"
    and "history w' = before @ (s, r) # after"
  shows "(s = Step_Commit \<longrightarrow> Step_Verify \<in> set (finished before) \<and> Step_Validate \<in> set (finished before))
    \<and> (s = Step_Retire \<longrightarrow> mode = Mode_Overlap \<and> Step_Commit \<in> set (finished before))
    \<and> (s = Step_Drain \<longrightarrow> mode = Mode_Exclusive)
    \<and> (s = Step_Start \<longrightarrow> mode = Mode_Exclusive \<longrightarrow> Step_Drain \<in> set (finished before))"
proof -
  have "obedient mode (before @ (s, r) # after)"
    using run_post_of[OF assms(1, 2)] assms(3) by (simp add: run_post_def)
  then obtain rest where "protocol mode before (s # rest)"
    using obedient_split by blast
  from plan_prefix[OF protocol_finished[OF this]] show ?thesis .
qed

theorem run_orders_operations_witness:
  "Step_Drain \<in> set (finished (take 3 (history (prompt_end Mode_Exclusive))))"
proof -
  have "history (prompt_end Mode_Exclusive) = take 3 (history (prompt_end Mode_Exclusive))
      @ (Step_Start, Some (Ok Progress_Done)) # drop 4 (history (prompt_end Mode_Exclusive))"
    by code_simp
  from run_orders_operations[OF disjI1[OF prompt_run] _ this, of "()"] show ?thesis
    by (simp add: prompt_start_def)
qed

text \<open>C4: A replacement always ends, blocking or asynchronous and for every driver and clock,
  unless an exclusive one was told to wait for its incumbent without a limit.\<close>

theorem run_ends:
  assumes "mode = Mode_Overlap \<or> budgets_drain b \<noteq> None"
  shows "(\<exists>r. run mode b d w = Some r) \<and> (\<exists>r. run_async mode b d w = Some r)"
proof -
  have "bounded_drain mode b" using assms by (simp add: bounded_drain_def)
  then show ?thesis
    unfolding run_def run_async_def
    by (intro conjI run_from_ends) (blast intro: run_ends.ends run_async_ends.ends)+
qed

theorem run_ends_witness:
  "\<exists>r. run Mode_Overlap \<lparr>budgets_setup = 100, budgets_drain = None\<rparr> prompt_driver
     \<lparr>world_driver = (), world_clock = \<lparr>time = 0, delays = [3, 1, 4]\<rparr>, world_prefaulted = []\<rparr> = Some r"
  using run_ends[of Mode_Overlap "\<lparr>budgets_setup = 100, budgets_drain = None\<rparr>" prompt_driver] by simp

end
