(* ===== verification/Selection.thy ===== *)
theory Selection
  imports Readiness
begin

text \<open>
  Following a candidate that another process selects (\<^verbatim>\<open>src/src/selection.rs\<close>): the decision rules
  of \<^verbatim>\<open>Watch\<close> and the blocking and asynchronous loops around them.  The evidence is the
  application's code and a parameter: what it reads, proves and how long it waits is arbitrary.
\<close>

section \<open>Data and decision rules\<close>

datatype 'p selection = Selection_Current 'p | Selection_Committed | Selection_NotCommitted

record budget =
  budget_commit :: duration
  budget_proof :: duration

datatype decision = Decision_Current | Decision_Committed | Decision_NotCommitted | Decision_Wait

record watch =
  watch_budget :: budget
  watch_committed_at :: "duration option"

definition watch_new :: "budget \<Rightarrow> watch" where
  "watch_new b = \<lparr>watch_budget = b, watch_committed_at = None\<rparr>"

definition watch_until :: "watch \<Rightarrow> duration" where
  "watch_until w = (case watch_committed_at w of
     Some at \<Rightarrow> min (duration_sat_add at (budget_proof (watch_budget w))) (budget_commit (watch_budget w))
   | None \<Rightarrow> budget_commit (watch_budget w))"

definition watch_record :: "duration \<Rightarrow> bool \<Rightarrow> watch \<Rightarrow> watch" where
  "watch_record elapsed committed w =
    (if committed \<and> watch_committed_at w = None then w\<lparr>watch_committed_at := Some elapsed\<rparr> else w)"

definition watch_decide :: "duration \<Rightarrow> bool \<Rightarrow> watch \<Rightarrow> decision" where
  "watch_decide elapsed proven w =
    (if proven then Decision_Current
     else case (watch_committed_at w, watch_until w \<le> elapsed) of
       (_, False) \<Rightarrow> Decision_Wait
     | (Some _, True) \<Rightarrow> Decision_Committed
     | (None, True) \<Rightarrow> Decision_NotCommitted)"

section \<open>The loops\<close>

text \<open>
  The evidence: each call is given the time it starts and answers after some time.  \<^verbatim>\<open>timed\<close> is
  the probe under \<^verbatim>\<open>tokio::time::timeout_at\<close>, with \<^const>\<open>None\<close> for the timeout.
\<close>

record ('v, 'p, 'e) evidence =
  evidence_committed :: "instant \<Rightarrow> 'v \<Rightarrow> ('e + bool) \<times> duration \<times> 'v"
  evidence_probe :: "instant \<Rightarrow> instant \<Rightarrow> 'v \<Rightarrow> ('e + 'p option) \<times> duration \<times> 'v"
  evidence_timed :: "instant \<Rightarrow> instant \<Rightarrow> 'v \<Rightarrow> ('e + 'p option) option \<times> duration \<times> 'v"
  evidence_wait :: "instant \<Rightarrow> instant \<Rightarrow> 'v \<Rightarrow> duration \<times> 'v"

text \<open>The default \<^verbatim>\<open>Evidence::wait\<close>, from its own reading of the clock.\<close>

definition default_wait :: "instant \<Rightarrow> instant \<Rightarrow> 'v \<Rightarrow> duration \<times> 'v" where
  "default_wait until t v = (min poll_interval (until - t), v)"

type_synonym 'v watch_state = "watch \<times> 'v \<times> clock"
type_synonym ('v, 'p, 'e) watch_result = "('e + 'p selection) ret \<times> 'v \<times> clock"

text \<open>\<^verbatim>\<open>proof.filter(|_| Instant::now() < until)\<close>, then the decision at the time it is taken.\<close>

definition conclude :: "('v, 'p, 'e) evidence \<Rightarrow> instant \<Rightarrow> instant \<Rightarrow> 'p option \<Rightarrow> 'v watch_state
    \<Rightarrow> (('v, 'p, 'e) watch_result, 'v watch_state) control" where
  "conclude ev start until proof = (\<lambda>(w, v, c).
    let (t, c) = instant_now c in
    case (watch_decide (t - start) (proof \<noteq> None) w, proof) of
      (Decision_Current, Some p) \<Rightarrow> Break (Returned (Ok (Selection_Current p)), v, c)
    | (Decision_Current, None) \<Rightarrow> Break (Panicked, v, c)
    | (Decision_Committed, _) \<Rightarrow> Break (Returned (Ok Selection_Committed), v, c)
    | (Decision_NotCommitted, _) \<Rightarrow> Break (Returned (Ok Selection_NotCommitted), v, c)
    | (Decision_Wait, _) \<Rightarrow>
        let (t, c) = instant_now c; (took, v) = evidence_wait ev until t v in
        Continue (w, v, elapse took c))"

definition filter_proof :: "instant \<Rightarrow> 'p option \<Rightarrow> clock \<Rightarrow> 'p option \<times> clock" where
  "filter_proof until proof c = (case proof of
     None \<Rightarrow> (None, c)
   | Some p \<Rightarrow> let (t, c) = instant_now c in (if t < until then Some p else None, c))"

text \<open>The first half of a round: read the selection, then compute the round's deadline.\<close>

definition observe :: "('v, 'p, 'e) evidence \<Rightarrow> instant \<Rightarrow> 'v watch_state
    \<Rightarrow> (('v, 'p, 'e) watch_result, instant \<times> 'v watch_state) control" where
  "observe ev start = (\<lambda>(w, v, c).
    let (answer, took, v) = evidence_committed ev (time c) v; c = elapse took c in
    case answer of
      Inl e \<Rightarrow> Break (Returned (Err e), v, c)
    | Inr committed \<Rightarrow>
        let (t, c) = instant_now c;
            w = watch_record (t - start) committed w in
        (case instant_add start (watch_until w) of
          None \<Rightarrow> Break (Panicked, v, c)
        | Some until \<Rightarrow> Continue (until, w, v, c)))"

definition await_round :: "('v, 'p, 'e) evidence \<Rightarrow> instant \<Rightarrow> 'v watch_state
    \<Rightarrow> (('v, 'p, 'e) watch_result, 'v watch_state) control" where
  "await_round ev start s = (case observe ev start s of
     Break r \<Rightarrow> Break r
   | Continue (until, w, v, c) \<Rightarrow>
       let (answer, took, v) = evidence_probe ev until (time c) v; c = elapse took c in
       (case answer of
         Inl e \<Rightarrow> Break (Returned (Err e), v, c)
       | Inr proof \<Rightarrow>
           let (proof, c) = filter_proof until proof c in
           conclude ev start until proof (w, v, c)))"

definition await_round_async :: "('v, 'p, 'e) evidence \<Rightarrow> instant \<Rightarrow> 'v watch_state
    \<Rightarrow> (('v, 'p, 'e) watch_result, 'v watch_state) control" where
  "await_round_async ev start s = (case observe ev start s of
     Break r \<Rightarrow> Break r
   | Continue (until, w, v, c) \<Rightarrow>
       let (answer, took, v) = evidence_timed ev until (time c) v; c = elapse took c in
       (case answer of
         None \<Rightarrow> conclude ev start until None (w, v, c)
       | Some (Inl e) \<Rightarrow> Break (Returned (Err e), v, c)
       | Some (Inr proof) \<Rightarrow>
           let (proof, c) = filter_proof until proof c in
           conclude ev start until proof (w, v, c)))"

definition await_selection :: "budget \<Rightarrow> ('v, 'p, 'e) evidence \<Rightarrow> 'v \<Rightarrow> clock
    \<Rightarrow> ('v, 'p, 'e) watch_result option" where
  "await_selection b ev v c =
    (let (start, c) = instant_now c in iterate (await_round ev start) (watch_new b, v, c))"

definition await_selection_async :: "budget \<Rightarrow> ('v, 'p, 'e) evidence \<Rightarrow> 'v \<Rightarrow> clock
    \<Rightarrow> ('v, 'p, 'e) watch_result option" where
  "await_selection_async b ev v c =
    (let (start, c) = instant_now c in iterate (await_round_async ev start) (watch_new b, v, c))"

section \<open>What was seen\<close>

text \<open>Evidence that also writes down what it read and what it proved, and when.\<close>

datatype 'p sighting = Saw bool | Probed "'p option" instant instant

definition noted :: "('v, 'p, 'e) evidence \<Rightarrow> ('v \<times> 'p sighting list, 'p, 'e) evidence" where
  "noted ev = \<lparr>
     evidence_committed = (\<lambda>t (v, log). let (r, took, v) = evidence_committed ev t v in
       (r, took, v, log @ (case r of Inl _ \<Rightarrow> [] | Inr b \<Rightarrow> [Saw b]))),
     evidence_probe = (\<lambda>until t (v, log). let (r, took, v) = evidence_probe ev until t v in
       (r, took, v, log @ (case r of Inl _ \<Rightarrow> [] | Inr p \<Rightarrow> [Probed p until (t + took)]))),
     evidence_timed = (\<lambda>until t (v, log). let (r, took, v) = evidence_timed ev until t v in
       (r, took, v, log @ (case r of Some (Inr p) \<Rightarrow> [Probed p until (t + took)] | _ \<Rightarrow> []))),
     evidence_wait = (\<lambda>until t (v, log). let (took, v) = evidence_wait ev until t v in (took, v, log))\<rparr>"

definition seen_commit :: "'p sighting list \<Rightarrow> bool" where
  "seen_commit log \<longleftrightarrow> Saw True \<in> set log"

definition watch_inv :: "budget \<Rightarrow> instant \<Rightarrow> ('v \<times> 'p sighting list) watch_state \<Rightarrow> bool" where
  "watch_inv b start = (\<lambda>(w, (v, log), c). watch_budget w = b \<and> start \<le> time c
     \<and> (watch_committed_at w \<noteq> None \<longleftrightarrow> seen_commit log))"

definition watch_post :: "budget \<Rightarrow> instant \<Rightarrow> ('v \<times> 'p sighting list, 'p, 'e) watch_result \<Rightarrow> bool" where
  "watch_post b start = (\<lambda>(r, (v, log), c).
     (r = Returned (Ok Selection_Committed) \<longrightarrow> seen_commit log)
   \<and> (r = Returned (Ok Selection_NotCommitted) \<longrightarrow> \<not> seen_commit log \<and> start + budget_commit b \<le> time c)
   \<and> (\<forall>p. r = Returned (Ok (Selection_Current p)) \<longrightarrow> (\<exists>log' until t.
        log = log' @ [Probed (Some p) until t] \<and> t < until \<and> until \<le> start + budget_commit b))
   \<and> (r = Panicked \<longrightarrow> instant_max < start + budget_commit b))"

lemma watch_until_le: "watch_until w \<le> budget_commit (watch_budget w)"
  by (simp add: watch_until_def split: option.split)

lemma watch_record_simps [simp]:
  "watch_budget (watch_record e committed w) = watch_budget w"
  "watch_committed_at (watch_record e committed w) = None \<longleftrightarrow> watch_committed_at w = None \<and> \<not> committed"
  by (auto simp: watch_record_def)

lemma watch_decide_cases:
  "watch_decide e proven w = Decision_Current \<longleftrightarrow> proven"
  "watch_decide e proven w = Decision_Wait \<longleftrightarrow> \<not> proven \<and> e < watch_until w"
  "watch_decide e proven w = Decision_Committed \<longleftrightarrow>
     \<not> proven \<and> watch_until w \<le> e \<and> watch_committed_at w \<noteq> None"
  "watch_decide e proven w = Decision_NotCommitted \<longleftrightarrow>
     \<not> proven \<and> watch_until w \<le> e \<and> watch_committed_at w = None"
  by (auto simp: watch_decide_def split: option.splits bool.splits)

lemma seen_commit_snoc [simp]:
  "seen_commit []= False"
  "seen_commit (log @ [Saw b]) = (b \<or> seen_commit log)"
  "seen_commit (log @ [Probed p u t]) = seen_commit log"
  by (auto simp: seen_commit_def)

lemma noted_simps [simp]:
  "evidence_committed (noted ev) t (v, log) = (case evidence_committed ev t v of (r, took, v) \<Rightarrow>
     (r, took, v, log @ (case r of Inl _ \<Rightarrow> [] | Inr b \<Rightarrow> [Saw b])))"
  "evidence_probe (noted ev) until t (v, log) = (case evidence_probe ev until t v of (r, took, v) \<Rightarrow>
     (r, took, v, log @ (case r of Inl _ \<Rightarrow> [] | Inr p \<Rightarrow> [Probed p until (t + took)])))"
  "evidence_timed (noted ev) until t (v, log) = (case evidence_timed ev until t v of (r, took, v) \<Rightarrow>
     (r, took, v, log @ (case r of Some (Inr p) \<Rightarrow> [Probed p until (t + took)] | _ \<Rightarrow> [])))"
  "evidence_wait (noted ev) until t (v, log) = (case evidence_wait ev until t v of (took, v) \<Rightarrow>
     (took, v, log))"
  by (simp_all add: noted_def)

lemma observe_noted:
  assumes "watch_inv b start s"
  shows "case observe (noted ev) start s of
      Break r \<Rightarrow> watch_post b start r
    | Continue (until, s') \<Rightarrow> watch_inv b start s' \<and> until = start + watch_until (fst s')"
proof -
  obtain w v log c where s: "s = (w, (v, log), c)" by (cases s) auto
  obtain r took v' where r: "evidence_committed ev (time c) v = (r, took, v')"
    by (cases "evidence_committed ev (time c) v")
  show ?thesis
  proof (cases r)
    case (Inl e)
    with s r show ?thesis by (simp add: observe_def watch_post_def)
  next
    case (Inr committed)
    define w' where "w' = watch_record (time (tick (elapse took c)) - start) committed w"
    have "watch_inv b start (w', (v', log @ [Saw committed]), tick (elapse took c))"
      using assms s tick_mono[of "elapse took c"]
      by (auto simp: watch_inv_def w'_def simp del: not_None_eq)
    moreover have "instant_max < start + budget_commit b" if "instant_max < start + watch_until w'"
      using that watch_until_le[of w'] assms s by (simp add: watch_inv_def w'_def)
    ultimately show ?thesis
      using s r Inr
      by (auto simp: observe_def watch_post_def time_simps instant_add_def w'_def Let_def
          not_le[symmetric])
  qed
qed

lemma conclude_noted:
  assumes "watch_inv b start (w, (v, log), c)" and "until = start + watch_until w"
    and "\<And>p. proof = Some p \<Longrightarrow> \<exists>log' t. log = log' @ [Probed (Some p) until t] \<and> t < until"
  shows "case conclude (noted ev) start until proof (w, (v, log), c) of
      Break r \<Rightarrow> watch_post b start r
    | Continue s' \<Rightarrow> watch_inv b start s'"
proof (cases "proof")
  case (Some p)
  have "until \<le> start + budget_commit b"
    using watch_until_le[of w] assms(1, 2) by (simp add: watch_inv_def)
  with Some assms show ?thesis
    by (auto simp: conclude_def watch_decide_def watch_post_def time_simps)
next
  case None
  let ?t = "time (tick c) - start"
  consider "?t < watch_until w" | "watch_until w \<le> ?t" "watch_committed_at w = None"
    | "watch_until w \<le> ?t" "watch_committed_at w \<noteq> None"
    by linarith
  then show ?thesis
  proof cases
    case 1
    with None have "watch_decide ?t (proof \<noteq> None) w = Decision_Wait"
      by (simp add: watch_decide_cases)
    with assms(1) None show ?thesis
      by (auto simp: conclude_def time_simps watch_inv_def trans_le_add1 split: prod.splits)
  next
    case 2
    with None have "watch_decide ?t (proof \<noteq> None) w = Decision_NotCommitted"
      by (simp add: watch_decide_cases)
    moreover have "start + budget_commit b \<le> time (tick c)"
      using 2 assms(1) by (auto simp: watch_until_def watch_inv_def le_diff_conv2 add.commute)
    ultimately show ?thesis
      using assms(1) 2 None by (auto simp: conclude_def time_simps watch_post_def watch_inv_def)
  next
    case 3
    with None have "watch_decide ?t (proof \<noteq> None) w = Decision_Committed"
      by (simp add: watch_decide_cases)
    with assms(1) None 3 show ?thesis
      by (auto simp: conclude_def time_simps watch_post_def watch_inv_def)
  qed
qed

lemma filter_proof_noted:
  assumes "filter_proof until proof c = (proof', c')"
  shows "time c \<le> time c' \<and> (\<forall>p. proof' = Some p \<longrightarrow> proof = Some p \<and> time c < until)"
  using assms
  by (auto simp: filter_proof_def time_simps tick_less split: option.splits if_splits)

lemma await_round_noted:
  assumes "watch_inv b start s"
  shows "case await_round (noted ev) start s of
      Break r \<Rightarrow> watch_post b start r | Continue s' \<Rightarrow> watch_inv b start s'"
proof (cases "observe (noted ev) start s")
  case (Break r)
  with observe_noted[OF assms, of ev] show ?thesis by (simp add: await_round_def)
next
  case (Continue x)
  then obtain w v log c where x: "x = (start + watch_until w, w, (v, log), c)"
    and inv: "watch_inv b start (w, (v, log), c)"
    using observe_noted[OF assms, of ev] by (cases x) auto
  let ?until = "start + watch_until w"
  obtain r took v' where r: "evidence_probe ev ?until (time c) v = (r, took, v')"
    by (cases "evidence_probe ev ?until (time c) v")
  show ?thesis
  proof (cases r)
    case (Inl e)
    with Continue x r show ?thesis
      by (simp add: await_round_def watch_post_def)
  next
    case (Inr pf)
    define log' where "log' = log @ [Probed pf ?until (time c + took)]"
    obtain p c' where p: "filter_proof ?until pf (elapse took c) = (p, c')" by force
    note fp = filter_proof_noted[OF p]
    have inv': "watch_inv b start (w, (v', log'), c')"
      using inv fp by (auto simp: watch_inv_def log'_def)
    have fresh: "\<exists>before t. log' = before @ [Probed (Some q) ?until t] \<and> t < ?until" if "p = Some q" for q
      using fp that by (auto simp: log'_def)
    have "await_round (noted ev) start s = conclude (noted ev) start ?until p (w, (v', log'), c')"
      using Continue x r Inr p by (simp add: await_round_def log'_def)
    with conclude_noted[OF inv' refl fresh, of p ev] show ?thesis by simp
  qed
qed

lemma await_round_async_noted:
  assumes "watch_inv b start s"
  shows "case await_round_async (noted ev) start s of
      Break r \<Rightarrow> watch_post b start r | Continue s' \<Rightarrow> watch_inv b start s'"
proof (cases "observe (noted ev) start s")
  case (Break r)
  with observe_noted[OF assms, of ev] show ?thesis by (simp add: await_round_async_def)
next
  case (Continue x)
  then obtain w v log c where x: "x = (start + watch_until w, w, (v, log), c)"
    and inv: "watch_inv b start (w, (v, log), c)"
    using observe_noted[OF assms, of ev] by (cases x) auto
  let ?until = "start + watch_until w"
  obtain r took v' where r: "evidence_timed ev ?until (time c) v = (r, took, v')"
    by (cases "evidence_timed ev ?until (time c) v")
  have waited: "watch_inv b start (w, (v', log), elapse took c)"
    using inv by (simp add: watch_inv_def)
  consider "r = None" | e where "r = Some (Inl e)" | pf where "r = Some (Inr pf)"
    by (metis option.exhaust sum.exhaust)
  then show ?thesis
  proof cases
    case 1
    then show ?thesis
      using Continue x r conclude_noted[OF waited refl, of None ev] by (simp add: await_round_async_def)
  next
    case 2
    then show ?thesis
      using Continue x r by (simp add: await_round_async_def watch_post_def)
  next
    case (3 pf)
    define log' where "log' = log @ [Probed pf ?until (time c + took)]"
    obtain p c' where p: "filter_proof ?until pf (elapse took c) = (p, c')" by force
    note fp = filter_proof_noted[OF p]
    have inv': "watch_inv b start (w, (v', log'), c')"
      using inv fp by (auto simp: watch_inv_def log'_def)
    have fresh: "\<exists>before t. log' = before @ [Probed (Some q) ?until t] \<and> t < ?until" if "p = Some q" for q
      using fp that by (auto simp: log'_def)
    have "await_round_async (noted ev) start s = conclude (noted ev) start ?until p (w, (v', log'), c')"
      using Continue x r 3 p by (simp add: await_round_async_def log'_def)
    with conclude_noted[OF inv' refl fresh, of p ev] show ?thesis by simp
  qed
qed

interpretation await: loop_contract "await_round (noted ev) start" "watch_inv b start" "watch_post b start"
  for ev start b
proof unfold_locales
  fix s s'
  assume "watch_inv b start s" "await_round (noted ev) start s = Continue s'"
  then show "watch_inv b start s'" using await_round_noted[of b start s ev] by simp
next
  fix s r
  assume "watch_inv b start s" "await_round (noted ev) start s = Break r"
  then show "watch_post b start r" using await_round_noted[of b start s ev] by simp
qed

interpretation await_async: loop_contract "await_round_async (noted ev) start" "watch_inv b start" "watch_post b start"
  for ev start b
proof unfold_locales
  fix s s'
  assume "watch_inv b start s" "await_round_async (noted ev) start s = Continue s'"
  then show "watch_inv b start s'" using await_round_async_noted[of b start s ev] by simp
next
  fix s r
  assume "watch_inv b start s" "await_round_async (noted ev) start s = Break r"
  then show "watch_post b start r" using await_round_async_noted[of b start s ev] by simp
qed

section \<open>The wait ends\<close>

text \<open>A wait that lets some time pass before its limit.\<close>

definition wakes_later :: "('v, 'p, 'e) evidence \<Rightarrow> bool" where
  "wakes_later ev \<longleftrightarrow> (\<forall>until t v. t < until \<longrightarrow> 0 < fst (evidence_wait ev until t v))"

definition watch_live :: "budget \<Rightarrow> instant \<Rightarrow> ('v, 'p, 'e) evidence \<Rightarrow> 'v watch_state \<Rightarrow> bool" where
  "watch_live b start ev = (\<lambda>(w, v, c). wakes_later ev \<and> watch_budget w = b \<and> start \<le> time c)"

definition watch_order :: "budget \<Rightarrow> instant \<Rightarrow> ('v watch_state \<times> 'v watch_state) set" where
  "watch_order b start = measure (\<lambda>(w, v, c). start + budget_commit b - time c)"

lemma conclude_descends:
  assumes "conclude ev start until pf (w, v, c) = Continue s'"
    and "watch_live b start ev (w, v, c)" and "until = start + watch_until w" and "time c0 \<le> time c"
  shows "watch_live b start ev s' \<and> (s', (w0, v0, c0)) \<in> watch_order b start"
proof -
  have wait: "watch_decide (time (tick c) - start) (pf \<noteq> None) w = Decision_Wait"
    using assms(1) by (auto simp: conclude_def time_simps split: decision.splits option.splits)
  obtain took v' where took: "evidence_wait ev until (time (tick (tick c))) v = (took, v')"
    by (cases "evidence_wait ev until (time (tick (tick c))) v")
  with wait assms(1) have s': "s' = (w, v', elapse took (tick (tick c)))"
    by (simp add: conclude_def time_simps)
  have "start \<le> time (tick c)" "time (tick c) - start < watch_until w"
    using wait assms(2) by (simp_all add: watch_decide_cases watch_live_def)
  then have "time (tick c) < until"
    using assms(3) by linarith
  moreover have "until \<le> start + budget_commit b"
    using watch_until_le[of w] assms(2, 3) by (simp add: watch_live_def)
  moreover have "wakes_later ev"
    using assms(2) by (simp add: watch_live_def)
  then have "time (tick (tick c)) < until \<Longrightarrow> 0 < took"
    using took unfolding wakes_later_def by (metis fst_conv)
  ultimately have "time c0 < start + budget_commit b" "time c0 < time (tick (tick c)) + took"
    using assms(4) tick_mono[of c] tick_mono[of "tick c"] by linarith+
  then show ?thesis
    using assms(2) s' by (auto simp: watch_live_def watch_order_def trans_le_add1)
qed

lemma observe_live:
  assumes "observe ev start (w0, v0, c0) = Continue (until, w, v, c)" and "watch_live b start ev (w0, v0, c0)"
  shows "watch_live b start ev (w, v, c) \<and> until = start + watch_until w \<and> time c0 \<le> time c"
  using assms
  by (auto simp: observe_def watch_live_def time_simps Let_def trans_le_add1
      split: prod.splits sum.splits option.splits)

lemma await_round_descends:
  assumes "watch_live b start ev s" and "await_round ev start s = Continue s'"
  shows "watch_live b start ev s' \<and> (s', s) \<in> watch_order b start"
proof -
  obtain w0 v0 c0 where s: "s = (w0, v0, c0)" by (cases s)
  obtain until w v c where o: "observe ev start s = Continue (until, w, v, c)"
    using assms(2) by (auto simp: await_round_def split: control.splits)
  note live = observe_live[OF o[unfolded s] assms(1)[unfolded s]]
  obtain pf v' took c' where c: "conclude ev start until pf (w, v', c') = Continue s'"
    and "time (elapse took c) \<le> time c'"
    using assms(2) o
    by (auto simp: await_round_def Let_def split: prod.splits sum.splits dest!: filter_proof_noted)
  with live have "watch_live b start ev (w, v', c')" "time c0 \<le> time c'"
    by (auto simp: watch_live_def)
  with conclude_descends[OF c] live s show ?thesis by blast
qed

lemma wf_watch_order: "wf (watch_order b start)"
  by (simp add: watch_order_def)

interpretation await_ends: ending_loop "await_round ev start" "watch_live b start ev" "\<lambda>_. True" "watch_order b start"
  for ev start b
  by unfold_locales (blast dest: await_round_descends intro: wf_watch_order)+

section \<open>Properties\<close>

text \<open>Evidence that reads the commit on its second look and has a proof on its third, for the
  witnesses.  Its state counts the looks.\<close>

definition staged_evidence :: "(nat, string, unit) evidence" where
  "staged_evidence = \<lparr>
     evidence_committed = (\<lambda>t n. (Ok (1 \<le> n), 1, n)),
     evidence_probe = (\<lambda>until t n. (Ok (if 2 \<le> n then Some ''pid'' else None), 1, Suc n)),
     evidence_timed = (\<lambda>until t n. (Some (Ok (if 2 \<le> n then Some ''pid'' else None)), 1, Suc n)),
     evidence_wait = default_wait\<rparr>"

lemma staged_watch:
  "await_selection \<lparr>budget_commit = 90000000, budget_proof = 60000000\<rparr> (noted staged_evidence)
     (0, []) \<lparr>time = 7, delays = []\<rparr>
   = Some (Returned (Ok (Selection_Current ''pid'')),
       (3, [Saw False, Probed None 90000007 9, Saw True, Probed None 85000010 25000011,
            Saw True, Probed (Some ''pid'') 85000010 50000013]), \<lparr>time = 50000013, delays = []\<rparr>)"
  by code_simp

text \<open>C9: Waiting for a candidate that another process selects reports only what was seen, for all
  evidence and every clock.  A proof is handed on only if the last probe returned it before that
  round's deadline, which never lies past the commit budget; a committed selection without proof is
  reported only if the selection was read as naming the candidate; and that it was not committed,
  only if no reading ever named it and the whole commit budget has passed.  The wait panics only
  when the commit budget reaches past the largest instant.\<close>

theorem await_selection_is_truthful:
  assumes "await_selection b (noted ev) (v, []) c = Some (r, (v', log), c')
      \<or> await_selection_async b (noted ev) (v, []) c = Some (r, (v', log), c')"
  defines "start \<equiv> time (tick c)"
  shows "(r = Returned (Ok Selection_Committed) \<longrightarrow> seen_commit log)
    \<and> (r = Returned (Ok Selection_NotCommitted) \<longrightarrow>
         \<not> seen_commit log \<and> start + budget_commit b \<le> time c')
    \<and> (\<forall>p. r = Returned (Ok (Selection_Current p)) \<longrightarrow> (\<exists>before until t.
         log = before @ [Probed (Some p) until t] \<and> t < until \<and> until \<le> start + budget_commit b))
    \<and> (r = Panicked \<longrightarrow> instant_max < start + budget_commit b)"
proof -
  have "watch_inv b start (watch_new b, (v, []), tick c)"
    by (simp add: watch_inv_def watch_new_def start_def)
  then have "watch_post b start (r, (v', log), c')"
    using assms(1) await.sound[of ev start] await_async.sound[of ev start]
    unfolding await_selection_def await_selection_async_def by (auto simp: instant_now_def start_def)
  then show ?thesis by (simp add: watch_post_def)
qed

theorem await_selection_is_truthful_witness:
  "\<exists>before until t. [Saw False, Probed None 90000007 9, Saw True, Probed None 85000010 25000011,
       Saw True, Probed (Some ''pid'') 85000010 50000013] = before @ [Probed (Some ''pid'') until t]
     \<and> t < until \<and> until \<le> 90000007"
  using await_selection_is_truthful[OF disjI1[OF staged_watch]] by (simp add: tick_def)

text \<open>The wait always ends, provided the evidence lets some time pass when it is asked to wait
  for a later round, as the default wait does.\<close>

theorem await_selection_ends:
  assumes "\<And>until t v. t < until \<Longrightarrow> 0 < fst (evidence_wait ev until t v)"
  shows "\<exists>r. await_selection b ev v c = Some r"
proof -
  have "watch_live b (time (tick c)) ev (watch_new b, v, tick c)"
    using assms by (simp add: watch_live_def wakes_later_def watch_new_def)
  from await_ends.ends[OF this] show ?thesis
    by (simp add: await_selection_def instant_now_def)
qed

theorem await_selection_ends_witness:
  "\<exists>r. await_selection \<lparr>budget_commit = 5, budget_proof = 3\<rparr> staged_evidence 0
     \<lparr>time = 0, delays = [2, 0, 9]\<rparr> = Some r"
  using await_selection_ends[of staged_evidence]
  by (simp add: staged_evidence_def default_wait_def)

end
