(* ===== verification/Retry.thy ===== *)
theory Retry
  imports Rust_Prelude
begin

text \<open>
  Persistable attempt budgets (\<^verbatim>\<open>src/src/retry.rs\<close>), on 64-bit words with the saturating
  arithmetic of the source.
\<close>

record policy =
  policy_limit :: u64
  policy_delay :: u64
  policy_maximum_delay :: u64

record retry_state =
  retry_attempts :: u64
  retry_next_attempt :: u64

definition retry_default :: retry_state where
  "retry_default = \<lparr>retry_attempts = 0, retry_next_attempt = 0\<rparr>"

definition retry_allowed :: "retry_state \<Rightarrow> policy \<Rightarrow> u64 \<Rightarrow> bool" where
  "retry_allowed s p now \<longleftrightarrow> retry_attempts s < policy_limit p \<and> retry_next_attempt s \<le> now"

definition retry_reserve :: "policy \<Rightarrow> u64 \<Rightarrow> retry_state \<Rightarrow> retry_state" where
  "retry_reserve p now s =
    (let attempts = saturating_add (retry_attempts s) 1;
         multiplier = push_bit (unat (min attempts 63)) 1 in
     s\<lparr>retry_attempts := attempts,
       retry_next_attempt := saturating_add now
         (min (saturating_mul (policy_delay p) multiplier) (policy_maximum_delay p))\<rparr>)"

definition retry_exhaust :: "policy \<Rightarrow> retry_state \<Rightarrow> retry_state" where
  "retry_exhaust p s = s\<lparr>retry_attempts := policy_limit p\<rparr>"

definition retry_next :: "retry_state \<Rightarrow> policy \<Rightarrow> u64 option" where
  "retry_next s p = (if retry_attempts s < policy_limit p then Some (retry_next_attempt s) else None)"

section \<open>The schedule over unbounded numbers\<close>

text \<open>What the persisted words stand for.\<close>

definition schedule :: "nat \<Rightarrow> nat \<Rightarrow> nat \<Rightarrow> nat \<Rightarrow> nat" where
  "schedule now delay maximum attempts =
    min (now + min (delay * 2 ^ min (attempts + 1) 63) maximum) (2 ^ 64 - 1)"

lemma unat_u64_less [simp]: "unat (w :: u64) < 18446744073709551616"
  using unsigned_less[of w, where 'a = nat] by simp

lemma reserve_attempts:
  "unat (retry_attempts (retry_reserve p now s)) = min (unat (retry_attempts s) + 1) (2 ^ 64 - 1)"
  by (simp add: retry_reserve_def Let_def int_simps)

lemma reserve_next:
  "unat (retry_next_attempt (retry_reserve p now s)) =
    schedule (unat now) (unat (policy_delay p)) (unat (policy_maximum_delay p)) (unat (retry_attempts s))"
proof -
  let ?a = "saturating_add (retry_attempts s) 1"
  have shift: "unat (min ?a 63) = min (unat (retry_attempts s) + 1) 63"
    by (simp add: int_simps)
  then have "unat (push_bit (unat (min ?a 63)) 1 :: u64) = 2 ^ min (unat (retry_attempts s) + 1) 63"
    by (subst unat_shifted_one) simp_all
  moreover have "min (min x (2 ^ 64 - 1)) (unat (policy_maximum_delay p)) = min x (unat (policy_maximum_delay p))"
    for x
    by (simp add: min_def) (use unat_u64_less[of "policy_maximum_delay p"] in linarith)
  ultimately show ?thesis
    by (simp add: retry_reserve_def Let_def schedule_def unat_saturating_add unat_saturating_mul unat_min)
qed

lemma schedule_mono: "a \<le> b \<Longrightarrow> schedule now delay maximum a \<le> schedule now delay maximum b"
  unfolding schedule_def
  by (intro min.mono add_left_mono mult_le_mono2 power_increasing order_refl) auto

text \<open>A consumer that reserves only when it is allowed to, at the times it looks: how often it
  starts a candidate.\<close>

fun campaign :: "policy \<Rightarrow> u64 list \<Rightarrow> retry_state \<Rightarrow> nat \<times> retry_state" where
  "campaign p [] s = (0, s)"
| "campaign p (now # later) s =
    (if retry_allowed s p now
     then (case campaign p later (retry_reserve p now s) of (n, s') \<Rightarrow> (Suc n, s'))
     else campaign p later s)"

lemma campaign_limit:
  "fst (campaign p looks s) + unat (retry_attempts s) \<le> max (unat (policy_limit p)) (unat (retry_attempts s))"
proof (induction looks arbitrary: s)
  case (Cons now later)
  show ?case
  proof (cases "retry_allowed s p now")
    case True
    then have less: "unat (retry_attempts s) < unat (policy_limit p)"
      by (simp add: retry_allowed_def word_less_nat_alt)
    moreover have "unat (policy_limit p) < 2 ^ 64"
      using unat_u64_less by simp
    ultimately have "unat (retry_attempts (retry_reserve p now s)) = unat (retry_attempts s) + 1"
      using reserve_attempts[of p now s] by linarith
    with Cons.IH[of "retry_reserve p now s"] True less show ?thesis
      by (auto split: prod.split)
  next
    case False
    with Cons.IH show ?thesis by simp
  qed
qed simp

section \<open>Properties\<close>

text \<open>A reservation on 64-bit words is the schedule over unbounded numbers: the delay is doubled
  once per attempt, at most 63 times, capped by the maximum, and added to a clock that stops at its
  largest value instead of wrapping; the attempt is counted unless the counter is full.\<close>

theorem reserve_is_schedule:
  "unat (retry_next_attempt (retry_reserve p now s)) =
      schedule (unat now) (unat (policy_delay p)) (unat (policy_maximum_delay p)) (unat (retry_attempts s))
    \<and> unat (retry_attempts (retry_reserve p now s)) = min (unat (retry_attempts s) + 1) (2 ^ 64 - 1)"
  using reserve_next reserve_attempts by blast

text \<open>Backoff never shrinks: of two campaigns under one policy, the one with more attempts
  behind it is never scheduled earlier.  A consumer that reserves only when allowed starts a
  candidate at most as often as the limit says, whatever times it looks, and after a permanent
  failure nothing is allowed at any time.\<close>

theorem campaigns_are_bounded:
  "(retry_attempts s \<le> retry_attempts s' \<longrightarrow>
      retry_next_attempt (retry_reserve p now s) \<le> retry_next_attempt (retry_reserve p now s'))
    \<and> fst (campaign p looks retry_default) \<le> unat (policy_limit p)
    \<and> \<not> retry_allowed (retry_exhaust p s) p later \<and> retry_next (retry_exhaust p s) p = None"
  using campaign_limit[of p looks retry_default] schedule_mono
  by (simp add: word_le_nat_alt reserve_next retry_default_def retry_allowed_def retry_exhaust_def
      retry_next_def)

theorem campaigns_are_bounded_witness:
  "retry_next_attempt (retry_reserve \<lparr>policy_limit = 6, policy_delay = 30, policy_maximum_delay = 300\<rparr> 100
       \<lparr>retry_attempts = 1, retry_next_attempt = 0\<rparr>)
    \<le> retry_next_attempt (retry_reserve \<lparr>policy_limit = 6, policy_delay = 30, policy_maximum_delay = 300\<rparr> 100
       \<lparr>retry_attempts = 5, retry_next_attempt = 0\<rparr>)"
  using campaigns_are_bounded[of "\<lparr>retry_attempts = 1, retry_next_attempt = 0\<rparr>"
      "\<lparr>retry_attempts = 5, retry_next_attempt = 0\<rparr>"
      "\<lparr>policy_limit = 6, policy_delay = 30, policy_maximum_delay = 300\<rparr>" 100]
  by simp

end
