(* ===== verification/Backoff.thy ===== *)
theory Backoff
  imports Rust_Prelude
begin

text \<open>
  A check repeated with a growing pause (\<^verbatim>\<open>src/src/backoff.rs\<close>).  The check is a parameter: a
  function of the time it starts and of the state it reads, which answers after some time.
\<close>

definition backoff_first :: duration where "backoff_first = from_millis 1"
definition backoff_longest :: duration where "backoff_longest = from_millis 50"

definition next_pause :: "duration \<Rightarrow> instant option \<Rightarrow> clock \<Rightarrow> duration option \<times> duration \<times> clock" where
  "next_pause pause deadline c = (case deadline of
     Some limit \<Rightarrow>
       let (left, c) = remaining limit c in
       if left = 0 then (None, pause, c)
       else (Some (min left pause), min backoff_longest (pause * 2), c)
   | None \<Rightarrow> (Some pause, min backoff_longest (pause * 2), c))"

type_synonym ('s, 'e) check = "instant \<Rightarrow> 's \<Rightarrow> ('e + bool) \<times> duration \<times> 's"

definition poll_round :: "('s, 'e) check \<Rightarrow> instant option \<Rightarrow> duration \<times> 's \<times> clock
    \<Rightarrow> (('e + bool) \<times> 's \<times> clock, duration \<times> 's \<times> clock) control" where
  "poll_round check deadline = (\<lambda>(pause, s, c).
    let (answer, took, s) = check (time c) s; c = elapse took c in
    case answer of
      Inl e \<Rightarrow> Break (Err e, s, c)
    | Inr True \<Rightarrow> Break (Ok True, s, c)
    | Inr False \<Rightarrow>
        (case next_pause pause deadline c of
          (None, _, c) \<Rightarrow> Break (Ok False, s, c)
        | (Some nap, pause, c) \<Rightarrow>
            let (late, c) = past deadline (sleep nap c) in
            if late then Break (Ok False, s, c) else Continue (pause, s, c)))"

definition poll :: "('s, 'e) check \<Rightarrow> instant option \<Rightarrow> 's \<Rightarrow> clock \<Rightarrow> (('e + bool) \<times> 's \<times> clock) option" where
  "poll check deadline s c = iterate (poll_round check deadline) (backoff_first, s, c)"

section \<open>Polling ends, and checks no later than promised\<close>

text \<open>A check that also writes down when it started.\<close>

definition timed_check :: "('s, 'e) check \<Rightarrow> ('s \<times> instant list, 'e) check" where
  "timed_check check = (\<lambda>t (s, log). let (r, took, s) = check t s in (r, took, s, log @ [t]))"

definition pauses_ok :: "duration \<Rightarrow> bool" where
  "pauses_ok pause \<longleftrightarrow> 0 < pause \<and> pause \<le> backoff_longest"

lemma next_pause_ok:
  assumes "next_pause pause deadline c = (nap, pause', c')" and "pauses_ok pause"
  shows "pauses_ok pause' \<and> c' = (if deadline = None then c else tick c)
    \<and> (case deadline of
        None \<Rightarrow> nap = Some pause
      | Some limit \<Rightarrow> nap = (if limit \<le> time (tick c) then None else Some (min (limit - time (tick c)) pause)))"
  using assms
  by (auto simp: next_pause_def time_simps pauses_ok_def backoff_longest_def from_millis_def
      split: option.splits if_splits)

definition poll_inv :: "instant \<Rightarrow> duration \<times> ('s \<times> instant list) \<times> clock \<Rightarrow> bool" where
  "poll_inv deadline = (\<lambda>(pause, (s, log), c). pauses_ok pause
     \<and> (log = [] \<or> time c < deadline \<and> (\<forall>t \<in> set (tl log). t < deadline)))"

definition poll_post :: "instant \<Rightarrow> ('e + bool) \<times> ('s \<times> instant list) \<times> clock \<Rightarrow> bool" where
  "poll_post deadline = (\<lambda>(r, (s, log), c). log \<noteq> [] \<and> (\<forall>t \<in> set (tl log). t < deadline)
     \<and> (r = Ok False \<longrightarrow> deadline \<le> time c))"

definition poll_order :: "instant \<Rightarrow> ((duration \<times> 's \<times> clock) \<times> (duration \<times> 's \<times> clock)) set" where
  "poll_order deadline = measure (\<lambda>(pause, s, c). deadline - time c)"

lemma poll_round_timed:
  assumes "poll_inv deadline (pause, (s, log), c)"
  shows "case poll_round (timed_check check) (Some deadline) (pause, (s, log), c) of
      Break r \<Rightarrow> poll_post deadline r
    | Continue s' \<Rightarrow> poll_inv deadline s' \<and> (s', (pause, (s, log), c)) \<in> poll_order deadline"
proof -
  obtain r took s' where r: "check (time c) s = (r, took, s')" by (cases "check (time c) s")
  let ?log = "log @ [time c]" and ?c = "elapse took c"
  have log: "\<forall>t \<in> set (tl ?log). t < deadline"
    using assms by (cases log) (auto simp: poll_inv_def)
  consider e where "r = Inl e" | "r = Inr True" | "r = Inr False" "deadline \<le> time (tick ?c)"
    | "r = Inr False" "time (tick ?c) < deadline"
    by (metis (full_types) sum.exhaust not_le)
  then show ?thesis
  proof cases
    case 4
    define nap where "nap = min (deadline - time (tick ?c)) pause"
    define c' where "c' = sleep nap (tick ?c)"
    obtain pause' where pause: "next_pause pause (Some deadline) ?c = (Some nap, pause', tick ?c)"
      and ok: "pauses_ok pause'"
      using next_pause_ok[of pause "Some deadline" ?c] assms 4
      by (cases "next_pause pause (Some deadline) ?c") (auto simp: poll_inv_def nap_def)
    have "0 < nap" using 4 assms by (simp add: nap_def poll_inv_def pauses_ok_def)
    then have "time c < time (tick c')"
      using sleep_lasts[of "tick ?c" nap] tick_mono[of c'] tick_mono[of ?c]
      unfolding c'_def time_elapse by linarith
    with r 4 pause ok log show ?thesis
      by (auto simp: poll_round_def timed_check_def Let_def time_simps poll_post_def poll_inv_def
          poll_order_def c'_def[symmetric])
  qed (use r log in \<open>auto simp: poll_round_def timed_check_def poll_post_def next_pause_def time_simps Let_def\<close>)
qed

lemmas poll_round_timed' = poll_round_timed[of deadline "fst s" "fst (fst (snd s))" "snd (fst (snd s))"
    "snd (snd s)" for deadline s, simplified]

interpretation poll: ending_loop "poll_round (timed_check check) (Some deadline)" "poll_inv deadline"
  "poll_post deadline" "poll_order deadline" for check deadline
proof unfold_locales
  fix s s' assume "poll_inv deadline s" "poll_round (timed_check check) (Some deadline) s = Continue s'"
  then show "poll_inv deadline s'" using poll_round_timed'[of deadline s check] by simp
next
  fix s s' assume "poll_inv deadline s" "poll_round (timed_check check) (Some deadline) s = Continue s'"
  then show "(s', s) \<in> poll_order deadline" using poll_round_timed'[of deadline s check] by simp
next
  fix s r assume "poll_inv deadline s" "poll_round (timed_check check) (Some deadline) s = Break r"
  then show "poll_post deadline r" using poll_round_timed'[of deadline s check] by simp
qed (simp add: poll_order_def)

text \<open>Writing down the times does not change what polling does.\<close>

lemma poll_round_erase:
  "poll_round check deadline ((\<lambda>(pause, (s, log), c). (pause, s, c)) s) =
    map_control (\<lambda>(r, (s, log), c). (r, s, c)) (\<lambda>(pause, (s, log), c). (pause, s, c))
      (poll_round (timed_check check) deadline s)"
  by (auto simp: poll_round_def timed_check_def Let_def
      split: prod.splits sum.splits bool.splits option.splits)

lemma poll_untimed:
  "poll (timed_check check) deadline (s, []) c = Some (r, (s', log), c') \<Longrightarrow>
    poll check deadline s c = Some (r, s', c')"
  using iterate_erase[where round' = "poll_round check deadline" and round = "poll_round (timed_check check) deadline"
      and f = "\<lambda>(pause, (s, log), c). (pause, s, c)" and g = "\<lambda>(r, (s, log), c). (r, s, c)",
      OF poll_round_erase]
  unfolding poll_def by fastforce

lemma poll_start: "poll_inv deadline (backoff_first, (s, []), c)"
  by (simp add: poll_inv_def pauses_ok_def backoff_first_def backoff_longest_def from_millis_def)

lemma poll_total: "\<exists>r. poll check (Some deadline) s c = Some r"
  using poll.ends[OF poll_start] poll_untimed unfolding poll_def by (metis prod.exhaust)

text \<open>Polling against a deadline always ends, for every check and clock.  The check runs at least
  once, every later check starts before the deadline, and a negative answer is given only once the
  deadline has passed.\<close>

theorem poll_ends:
  "\<exists>r s' log c'. poll (timed_check check) (Some deadline) (s, []) c = Some (r, (s', log), c')
    \<and> log \<noteq> [] \<and> list_all (\<lambda>t. t < deadline) (tl log)
    \<and> (case r of Inr False \<Rightarrow> deadline \<le> time c' | _ \<Rightarrow> True)"
proof -
  from poll.ends_well[OF poll_start[of deadline s c], of check] obtain r s' log c' where
    "poll (timed_check check) (Some deadline) (s, []) c = Some (r, (s', log), c')"
    "poll_post deadline (r, (s', log), c')"
    unfolding poll_def by auto
  then show ?thesis
    by (auto simp: poll_post_def list_all_iff split: sum.splits bool.splits)
qed

end
