(* ===== verification/Ownership.thy ===== *)
theory Ownership
  imports Backoff
begin

text \<open>
  Process locks (\<^verbatim>\<open>src/src/ownership.rs\<close>): exclusive operating-system locks on persistent files.
  The lock files of a host are a table from paths to files and from files to the open handle that
  holds the lock, as \<^verbatim>\<open>std::fs::File::try_lock\<close> and \<^verbatim>\<open>unlock\<close> see it; other processes act on the
  same table through the same operations.  Opening and locking can fail, which the table says per
  path and per file.
\<close>

section \<open>Lock files\<close>

record lock_fs =
  fs_inode :: "path \<Rightarrow> nat option"
  fs_holder :: "nat \<Rightarrow> nat option"
  fs_fresh :: nat
  fs_refuse :: "path \<Rightarrow> io_error option"
  fs_fault :: "nat \<Rightarrow> io_error option"

record lock_file =
  file_inode :: nat
  file_handle :: nat

datatype try_lock = TryLock_Ok | TryLock_WouldBlock | TryLock_Error io_error

text \<open>\<^verbatim>\<open>OpenOptions::open\<close> with or without \<^verbatim>\<open>create\<close>, \<^verbatim>\<open>File::try_lock\<close> and \<^verbatim>\<open>File::unlock\<close>.\<close>

definition open_options :: "bool \<Rightarrow> path \<Rightarrow> lock_fs \<Rightarrow> (io_error + lock_file) \<times> lock_fs" where
  "open_options create p fs = (case fs_refuse fs p of
     Some e \<Rightarrow> (Err e, fs)
   | None \<Rightarrow> (case fs_inode fs p of
       Some i \<Rightarrow> (Ok \<lparr>file_inode = i, file_handle = fs_fresh fs\<rparr>, fs\<lparr>fs_fresh := fs_fresh fs + 1\<rparr>)
     | None \<Rightarrow>
         if create
         then (Ok \<lparr>file_inode = fs_fresh fs, file_handle = fs_fresh fs\<rparr>,
           fs\<lparr>fs_inode := (fs_inode fs)(p \<mapsto> fs_fresh fs), fs_fresh := fs_fresh fs + 1\<rparr>)
         else (Err (io_error_new ErrorKind_NotFound ''not found''), fs)))"

definition file_try_lock :: "lock_file \<Rightarrow> lock_fs \<Rightarrow> try_lock \<times> lock_fs" where
  "file_try_lock f fs = (case fs_fault fs (file_inode f) of
     Some e \<Rightarrow> (TryLock_Error e, fs)
   | None \<Rightarrow>
       if fs_holder fs (file_inode f) = None \<or> fs_holder fs (file_inode f) = Some (file_handle f)
       then (TryLock_Ok, fs\<lparr>fs_holder := (fs_holder fs)(file_inode f \<mapsto> file_handle f)\<rparr>)
       else (TryLock_WouldBlock, fs))"

definition file_unlock :: "lock_file \<Rightarrow> lock_fs \<Rightarrow> lock_fs" where
  "file_unlock f fs =
    (if fs_holder fs (file_inode f) = Some (file_handle f)
     then fs\<lparr>fs_holder := (fs_holder fs)(file_inode f := None)\<rparr> else fs)"

section \<open>ProcessLock\<close>

text \<open>A \<^verbatim>\<open>ProcessLock\<close> is the locked file; dropping it unlocks.\<close>

type_synonym process_lock = lock_file

definition process_lock_drop :: "process_lock \<Rightarrow> lock_fs \<Rightarrow> lock_fs" where
  "process_lock_drop l fs = file_unlock l fs"

definition locked :: "lock_file \<Rightarrow> lock_fs \<Rightarrow> (io_error + bool) \<times> lock_fs" where
  "locked f fs = (case file_try_lock f fs of
     (TryLock_Ok, fs) \<Rightarrow> (Ok True, fs)
   | (TryLock_WouldBlock, fs) \<Rightarrow> (Ok False, fs)
   | (TryLock_Error e, fs) \<Rightarrow> (Err e, fs))"

definition open_or_create :: "path \<Rightarrow> lock_fs \<Rightarrow> (io_error + lock_file) \<times> lock_fs" where
  "open_or_create p fs = open_options True p fs"

definition open_existing :: "path \<Rightarrow> lock_fs \<Rightarrow> (io_error + lock_file option) \<times> lock_fs" where
  "open_existing p fs = (case open_options False p fs of
     (Inr f, fs) \<Rightarrow> (Ok (Some f), fs)
   | (Inl e, fs) \<Rightarrow> if io_kind e = ErrorKind_NotFound then (Ok None, fs) else (Err e, fs))"

definition try_from_file :: "lock_file \<Rightarrow> lock_fs \<Rightarrow> (io_error + process_lock option) \<times> lock_fs" where
  "try_from_file f fs = (case locked f fs of
     (Inl e, fs) \<Rightarrow> (Err e, fs)
   | (Inr True, fs) \<Rightarrow> (Ok (Some f), fs)
   | (Inr False, fs) \<Rightarrow> (Ok None, fs))"

definition try_acquire :: "path \<Rightarrow> lock_fs \<Rightarrow> (io_error + process_lock option) \<times> lock_fs" where
  "try_acquire p fs = (case open_or_create p fs of
     (Inl e, fs) \<Rightarrow> (Err e, fs)
   | (Inr f, fs) \<Rightarrow> try_from_file f fs)"

definition is_held :: "path \<Rightarrow> lock_fs \<Rightarrow> (io_error + bool) \<times> lock_fs" where
  "is_held p fs = (case open_existing p fs of
     (Inl e, fs) \<Rightarrow> (Err e, fs)
   | (Inr None, fs) \<Rightarrow> (Ok False, fs)
   | (Inr (Some f), fs) \<Rightarrow> (case try_from_file f fs of
       (Inl e, fs) \<Rightarrow> (Err e, fs)
     | (Inr None, fs) \<Rightarrow> (Ok True, fs)
     | (Inr (Some l), fs) \<Rightarrow> (Ok False, process_lock_drop l fs)))"

text \<open>
  The waits.  \<^verbatim>\<open>others\<close> is what the rest of the host has done to the table by the time of a check.
\<close>

definition lock_check :: "(instant \<Rightarrow> lock_fs \<Rightarrow> lock_fs) \<Rightarrow> lock_file \<Rightarrow> (lock_fs, io_error) check" where
  "lock_check others f = (\<lambda>t fs. let (r, fs) = locked f (others t fs) in (r, 0, fs))"

definition lock_until :: "(instant \<Rightarrow> lock_fs \<Rightarrow> lock_fs) \<Rightarrow> lock_file \<Rightarrow> instant \<Rightarrow> lock_fs \<Rightarrow> clock
    \<Rightarrow> ((io_error + process_lock option) \<times> lock_fs \<times> clock) option" where
  "lock_until others f deadline fs c = (case poll (lock_check others f) (Some deadline) fs c of
     None \<Rightarrow> None
   | Some (Inl e, fs, c) \<Rightarrow> Some (Err e, fs, c)
   | Some (Inr acquired, fs, c) \<Rightarrow> Some (Ok (if acquired then Some f else None), fs, c))"

definition acquire_until :: "(instant \<Rightarrow> lock_fs \<Rightarrow> lock_fs) \<Rightarrow> path \<Rightarrow> instant \<Rightarrow> lock_fs \<Rightarrow> clock
    \<Rightarrow> ((io_error + process_lock option) \<times> lock_fs \<times> clock) option" where
  "acquire_until others p deadline fs c = (case open_or_create p fs of
     (Inl e, fs) \<Rightarrow> Some (Err e, fs, c)
   | (Inr f, fs) \<Rightarrow> lock_until others f deadline fs c)"

definition wait_released_until :: "(instant \<Rightarrow> lock_fs \<Rightarrow> lock_fs) \<Rightarrow> path \<Rightarrow> instant \<Rightarrow> lock_fs \<Rightarrow> clock
    \<Rightarrow> ((io_error + bool) \<times> lock_fs \<times> clock) option" where
  "wait_released_until others p deadline fs c = (case open_existing p fs of
     (Inl e, fs) \<Rightarrow> Some (Err e, fs, c)
   | (Inr None, fs) \<Rightarrow> Some (Ok True, fs, c)
   | (Inr (Some f), fs) \<Rightarrow> (case lock_until others f deadline fs c of
       None \<Rightarrow> None
     | Some (Inl e, fs, c) \<Rightarrow> Some (Err e, fs, c)
     | Some (Inr None, fs, c) \<Rightarrow> Some (Ok False, fs, c)
     | Some (Inr (Some l), fs, c) \<Rightarrow> Some (Ok True, process_lock_drop l fs, c)))"

text \<open>
  \<^verbatim>\<open>acquire_async\<close> has no deadline of its own: its caller cancels it.  Under the caller's timeout a
  sleep that would end past the limit ends the wait instead.
\<close>

definition sleep_under :: "instant \<Rightarrow> duration \<Rightarrow> clock \<Rightarrow> clock option" where
  "sleep_under limit nap c = (if time c + nap \<le> limit then Some (sleep nap c) else None)"

definition acquire_async_round :: "(instant \<Rightarrow> lock_fs \<Rightarrow> lock_fs) \<Rightarrow> instant \<Rightarrow> lock_file \<Rightarrow> duration \<times> lock_fs \<times> clock
    \<Rightarrow> ((io_error + process_lock) option \<times> lock_fs \<times> clock, duration \<times> lock_fs \<times> clock) control" where
  "acquire_async_round others limit f = (\<lambda>(pause, fs, c).
    case locked f (others (time c) fs) of
      (Inl e, fs) \<Rightarrow> Break (Some (Err e), fs, c)
    | (Inr True, fs) \<Rightarrow> Break (Some (Ok f), fs, c)
    | (Inr False, fs) \<Rightarrow>
        (case next_pause pause None c of
          (Some nap, pause, c) \<Rightarrow> (case sleep_under limit nap c of
              None \<Rightarrow> Break (None, fs, c)
            | Some c \<Rightarrow> Continue (pause, fs, c))
        | (None, pause, c) \<Rightarrow> Continue (pause, fs, c)))"

definition acquire_async :: "(instant \<Rightarrow> lock_fs \<Rightarrow> lock_fs) \<Rightarrow> instant \<Rightarrow> path \<Rightarrow> lock_fs \<Rightarrow> clock
    \<Rightarrow> ((io_error + process_lock) option \<times> lock_fs \<times> clock) option" where
  "acquire_async others limit p fs c = (case open_or_create p fs of
     (Inl e, fs) \<Rightarrow> Some (Some (Err e), fs, c)
   | (Inr f, fs) \<Rightarrow> iterate (acquire_async_round others limit f) (backoff_first, fs, c))"

section \<open>Mutual exclusion\<close>

text \<open>
  A host: its lock table and the process locks alive on it, in any process.  Every process may try
  to acquire, look whether a lock is held, or drop a lock it has; lock files are never unlinked.
\<close>

type_synonym lock_host = "lock_fs \<times> process_lock list"

inductive lock_step :: "lock_host \<Rightarrow> lock_host \<Rightarrow> bool" where
  acquired: "try_acquire p fs = (Ok (Some l), fs') \<Longrightarrow> lock_step (fs, live) (fs', l # live)"
| refused: "try_acquire p fs = (r, fs') \<Longrightarrow> \<forall>l. r \<noteq> Ok (Some l) \<Longrightarrow> lock_step (fs, live) (fs', live)"
| looked: "is_held p fs = (r, fs') \<Longrightarrow> lock_step (fs, live) (fs', live)"
| dropped: "l \<in> set live \<Longrightarrow> lock_step (fs, live) (process_lock_drop l fs, remove1 l live)"

inductive_cases lock_stepE: "lock_step (fs, live) h"

definition idle_host :: "lock_host \<Rightarrow> bool" where
  "idle_host = (\<lambda>(fs, live). live = [] \<and> (\<forall>i. fs_holder fs i = None)
     \<and> (\<forall>p i. fs_inode fs p = Some i \<longrightarrow> i < fs_fresh fs))"

definition lock_inv :: "lock_host \<Rightarrow> bool" where
  "lock_inv = (\<lambda>(fs, live). distinct (map file_inode live)
     \<and> (\<forall>l \<in> set live. fs_holder fs (file_inode l) = Some (file_handle l) \<and> file_handle l < fs_fresh fs)
     \<and> (\<forall>i. fs_holder fs i \<noteq> None \<longrightarrow> i \<in> file_inode ` set live)
     \<and> (\<forall>p i. fs_inode fs p = Some i \<longrightarrow> i < fs_fresh fs))"

lemma open_options_fresh:
  assumes "open_options create p fs = (Ok f, fs')" and "lock_inv (fs, live)"
  shows "lock_inv (fs', live) \<and> file_handle f \<notin> file_handle ` set live \<and> file_handle f < fs_fresh fs'
    \<and> fs_inode fs' p = Some (file_inode f)"
  using assms
  by (fastforce simp: open_options_def lock_inv_def split: option.splits if_splits)

lemma open_options_refused:
  "open_options create p fs = (Err e, fs') \<Longrightarrow> fs' = fs"
  by (auto simp: open_options_def split: option.splits if_splits)

lemma locked_result:
  assumes "locked f fs = (r, fs')"
  shows "r = Ok True \<and> fs_holder fs (file_inode f) \<in> {None, Some (file_handle f)}
      \<and> fs' = fs\<lparr>fs_holder := (fs_holder fs)(file_inode f \<mapsto> file_handle f)\<rparr>
    \<or> r \<noteq> Ok True \<and> fs' = fs \<and> (r = Ok False \<longrightarrow> fs_holder fs (file_inode f) \<notin> {None, Some (file_handle f)})"
  using assms by (auto simp: locked_def file_try_lock_def split: option.splits if_splits)

lemma lock_fresh:
  assumes "locked f fs = (Ok True, fs')" and inv: "lock_inv (fs, live)"
    and "file_handle f \<notin> file_handle ` set live" and "file_handle f < fs_fresh fs"
  shows "lock_inv (fs', f # live) \<and> fs_holder fs (file_inode f) = None"
proof -
  have "fs_holder fs (file_inode f) \<noteq> Some (file_handle f)"
  proof
    assume held: "fs_holder fs (file_inode f) = Some (file_handle f)"
    then obtain l where "l \<in> set live" "file_inode f = file_inode l"
      using inv by (auto simp: lock_inv_def)
    with held inv assms(3) show False by (auto simp: lock_inv_def image_iff)
  qed
  then have none: "fs_holder fs (file_inode f) = None"
    and fs': "fs' = fs\<lparr>fs_holder := (fs_holder fs)(file_inode f \<mapsto> file_handle f)\<rparr>"
    using locked_result[OF assms(1)] by auto
  then have "file_inode f \<notin> file_inode ` set live"
    using inv by (auto simp: lock_inv_def)
  with inv assms(4) none show ?thesis
    by (auto simp: lock_inv_def fs' split: if_splits)
qed

lemma drop_live:
  assumes "lock_inv (fs, live)" and "l \<in> set live"
  shows "lock_inv (process_lock_drop l fs, remove1 l live)"
proof -
  have "fs_holder fs (file_inode l) = Some (file_handle l)" and dist: "distinct (map file_inode live)"
    using assms by (auto simp: lock_inv_def)
  then have drop: "process_lock_drop l fs = fs\<lparr>fs_holder := (fs_holder fs)(file_inode l := None)\<rparr>"
    by (simp add: process_lock_drop_def file_unlock_def)
  have live: "set (remove1 l live) = set live - {l}" "distinct (map file_inode (remove1 l live))"
    using dist by (auto simp: distinct_map intro: inj_on_diff)
  have "m = l" if "m \<in> set live" "file_inode m = file_inode l" for m
    using dist that assms(2) by (auto simp: distinct_map inj_on_def)
  with assms live show ?thesis
    by (auto simp: drop lock_inv_def)
qed

lemma try_acquire_step:
  assumes "try_acquire p fs = (r, fs')" and "lock_inv (fs, live)"
  shows "case r of
      Inr (Some l) \<Rightarrow> lock_inv (fs', l # live) \<and> fs_inode fs' p = Some (file_inode l)
    | _ \<Rightarrow> lock_inv (fs', live)"
proof (cases "open_options True p fs")
  case (Pair r1 fs1)
  show ?thesis
  proof (cases r1)
    case (Inl e)
    with Pair assms open_options_refused[of True p fs e fs1] show ?thesis
      by (auto simp: try_acquire_def open_or_create_def)
  next
    case (Inr f)
    note open1 = open_options_fresh[OF Pair[unfolded Inr] assms(2)]
    obtain r2 fs2 where lock: "locked f fs1 = (r2, fs2)" by (cases "locked f fs1")
    note res = locked_result[OF lock]
    have r: "(r, fs') = (case r2 of Inl e \<Rightarrow> (Err e, fs2) | Inr b \<Rightarrow> (Ok (if b then Some f else None), fs2))"
      using assms(1) Pair Inr lock
      by (auto simp: try_acquire_def open_or_create_def try_from_file_def split: sum.splits bool.splits)
    show ?thesis
    proof (cases "r2 = Ok True")
      case True
      then have "lock_inv (fs2, f # live)"
        using lock_fresh[of f fs1 fs2 live] lock open1 by simp
      with True res open1 r show ?thesis by simp
    next
      case False
      with res open1 r show ?thesis by (auto split: sum.splits if_splits)
    qed
  qed
qed

lemma is_held_step:
  assumes "is_held p fs = (r, fs')" and "lock_inv (fs, live)"
  shows "lock_inv (fs', live) \<and> (\<forall>b. r = Ok b \<longrightarrow> fs_refuse fs p = None \<longrightarrow>
    (b \<longleftrightarrow> (\<exists>l \<in> set live. fs_inode fs p = Some (file_inode l))))"
proof (cases "open_options False p fs")
  case (Pair r1 fs1)
  show ?thesis
  proof (cases r1)
    case (Inl e)
    have "fs1 = fs" using Pair Inl open_options_refused by blast
    with Inl Pair assms show ?thesis
      by (auto simp: is_held_def open_existing_def open_options_def split: if_splits option.splits)
  next
    case (Inr f)
    note open1 = open_options_fresh[OF Pair[unfolded Inr] assms(2)]
    have same: "fs_inode fs p = Some (file_inode f)" "fs_holder fs1 = fs_holder fs"
      using Pair Inr by (auto simp: open_options_def split: option.splits)
    obtain r2 fs2 where lock: "locked f fs1 = (r2, fs2)" by (cases "locked f fs1")
    note res = locked_result[OF lock]
    have held: "fs_holder fs (file_inode f) = None \<longleftrightarrow> (\<forall>l \<in> set live. file_inode f \<noteq> file_inode l)"
      using assms(2) by (force simp: lock_inv_def)
    have r: "(r, fs') = (case r2 of Inl e \<Rightarrow> (Err e, fs2)
        | Inr b \<Rightarrow> (Ok (\<not> b), if b then process_lock_drop f fs2 else fs2))"
      using assms(1) Pair Inr lock
      by (auto simp: is_held_def open_existing_def try_from_file_def split: sum.splits bool.splits)
    show ?thesis
    proof (cases "r2 = Ok True")
      case True
      then have new: "lock_inv (fs2, f # live)" "fs_holder fs (file_inode f) = None"
        using lock_fresh[of f fs1 fs2 live] lock open1 same by simp_all
      then have "lock_inv (process_lock_drop f fs2, live)"
        using drop_live[of fs2 "f # live" f] by simp
      with new held same True r show ?thesis by auto
    next
      case False
      with res open1 held same r show ?thesis by (auto split: sum.splits)
    qed
  qed
qed

lemma lock_step_inv: "lock_step h h' \<Longrightarrow> lock_inv h \<Longrightarrow> lock_inv h'"
proof (induction rule: lock_step.induct)
  case (acquired p fs l fs' live)
  with try_acquire_step[of p fs "Ok (Some l)" fs' live] show ?case by simp
next
  case (refused p fs r fs' live)
  with try_acquire_step[of p fs r fs' live] show ?case by (auto split: sum.splits option.splits)
next
  case (looked p fs r fs' live)
  with is_held_step show ?case by blast
next
  case (dropped l live fs)
  with drop_live show ?case by blast
qed

lemma reachable_lock_inv: "lock_step\<^sup>*\<^sup>* h h' \<Longrightarrow> idle_host h \<Longrightarrow> lock_inv h'"
proof (induction rule: rtranclp_induct)
  case base
  then show ?case by (auto simp: idle_host_def lock_inv_def)
next
  case (step h' h'')
  then show ?case using lock_step_inv by blast
qed

section \<open>Waiting for a lock\<close>

interpretation lock_wait: loop_contract "poll_round (lock_check others f) (Some deadline)" "\<lambda>_. True"
  "\<lambda>(r, fs, c). (r = Ok True \<longrightarrow> fs_holder fs (file_inode f) = Some (file_handle f))
     \<and> (r = Ok False \<longrightarrow> deadline \<le> time c)"
  for others f deadline
proof unfold_locales
  fix s and r :: "(io_error + bool) \<times> lock_fs \<times> clock"
  assume r: "poll_round (lock_check others f) (Some deadline) s = Break r"
  obtain pause fs c where s: "s = (pause, fs, c)" by (cases s)
  obtain r2 fs2 where lock: "locked f (others (time c) fs) = (r2, fs2)"
    by (cases "locked f (others (time c) fs)")
  from r s lock locked_result[OF lock] show "case r of (r, fs, c) \<Rightarrow>
      (r = Ok True \<longrightarrow> fs_holder fs (file_inode f) = Some (file_handle f))
    \<and> (r = Ok False \<longrightarrow> deadline \<le> time c)"
    by (auto simp: poll_round_def lock_check_def next_pause_def time_simps Let_def
        split: sum.splits bool.splits if_splits)
qed simp

lemma lock_until_post:
  assumes "lock_until others f deadline fs c = Some (Ok l, fs', c')"
  shows "case l of Some m \<Rightarrow> m = f \<and> fs_holder fs' (file_inode f) = Some (file_handle f)
    | None \<Rightarrow> deadline \<le> time c'"
proof -
  obtain b where "poll (lock_check others f) (Some deadline) fs c = Some (Ok b, fs', c')"
    and "l = (if b then Some f else None)"
    using assms by (auto simp: lock_until_def split: option.splits sum.splits)
  with lock_wait.sound[of others f deadline] show ?thesis
    unfolding poll_def by (cases b) fastforce+
qed

lemma lock_until_total: "\<exists>r fs' c'. lock_until others f deadline fs c = Some (r, fs', c')"
proof -
  obtain r fs' c' where "poll (lock_check others f) (Some deadline) fs c = Some (r, fs', c')"
    using poll_total[of "lock_check others f" deadline fs c] by auto
  then show ?thesis by (cases r) (simp_all add: lock_until_def)
qed

section \<open>Properties\<close>

text \<open>An empty host, the host after one process has taken a lock, and its lock, for the witnesses.\<close>

definition bare_fs :: lock_fs where
  "bare_fs = \<lparr>fs_inode = Map.empty, fs_holder = Map.empty, fs_fresh = 0,
     fs_refuse = Map.empty, fs_fault = Map.empty\<rparr>"

definition taken_fs :: lock_fs where
  "taken_fs = bare_fs\<lparr>fs_inode := [''daemon.lock'' \<mapsto> 0], fs_holder := [0 \<mapsto> 0], fs_fresh := 1\<rparr>"

definition first_lock :: process_lock where
  "first_lock = \<lparr>file_inode = 0, file_handle = 0\<rparr>"

lemma bare_idle: "idle_host (bare_fs, [])"
  by (simp add: idle_host_def bare_fs_def)

lemma first_acquired: "try_acquire ''daemon.lock'' bare_fs = (Ok (Some first_lock), taken_fs)"
  by (simp add: try_acquire_def open_or_create_def open_options_def try_from_file_def locked_def
      file_try_lock_def bare_fs_def taken_fs_def first_lock_def)



text \<open>Waiting for a lock always ends, whatever other processes do to the lock table in the
  meantime: with a lock the operating system records as held by this handle, without one only once
  the deadline has passed, or with the error of opening or locking the file.\<close>

theorem acquire_until_ends:
  "\<exists>r fs' c'. acquire_until others p deadline fs c = Some (r, fs', c')
    \<and> (case r of
        Inr (Some l) \<Rightarrow> fs_holder fs' (file_inode l) = Some (file_handle l)
      | Inr None \<Rightarrow> deadline \<le> time c'
      | Inl e \<Rightarrow> True)"
proof (cases "open_or_create p fs")
  case (Pair r1 fs1)
  show ?thesis
  proof (cases r1)
    case (Inl e)
    with Pair show ?thesis by (simp add: acquire_until_def)
  next
    case (Inr f)
    obtain r fs' c' where until: "lock_until others f deadline fs1 c = Some (r, fs', c')"
      using lock_until_total by blast
    with Pair Inr lock_until_post[of others f deadline fs1 c] show ?thesis
      by (cases r) (auto simp: acquire_until_def split: option.splits)
  qed
qed

end
