(* ===== verification/Upgrade.thy ===== *)
theory Upgrade
  imports Ownership
begin

text \<open>
  Obtaining a live daemon the caller accepts (\<^verbatim>\<open>src/src/upgrade.rs\<close>).  The application's probe and
  replacement are parameters, given as they run under the outer \<^verbatim>\<open>tokio::time::timeout_at\<close>:
  \<^const>\<open>None\<close> is an await that the timeout cancelled.  They may look at the lock table.
\<close>

datatype 'e upgrade_error =
    UpgradeError_Probe 'e | UpgradeError_Replace 'e | UpgradeError_Lock io_error | UpgradeError_Deadline

record ('s, 't, 'e) upgrade_app =
  app_probe :: "instant \<Rightarrow> instant \<Rightarrow> lock_fs \<Rightarrow> 's \<Rightarrow> ('e + 't option) option \<times> duration \<times> 's"
  app_replace :: "instant \<Rightarrow> instant \<Rightarrow> lock_fs \<Rightarrow> 's \<Rightarrow> ('e + unit) option \<times> duration \<times> 's"
  app_accepts :: "'t \<Rightarrow> bool"
  app_others :: "instant \<Rightarrow> lock_fs \<Rightarrow> lock_fs"

record 's upgrade_world =
  up_app :: 's
  up_fs :: lock_fs
  up_clock :: clock

text \<open>\<^verbatim>\<open>if let Some(current) = probe().await? && accepts(&current)\<close>: the answer, or nothing yet.\<close>

definition probe_accepted :: "('s, 't, 'e) upgrade_app \<Rightarrow> instant \<Rightarrow> 's upgrade_world
    \<Rightarrow> ('e upgrade_error + 't option) option \<times> 's upgrade_world" where
  "probe_accepted app limit w =
    (let (r, took, s) = app_probe app limit (time (up_clock w)) (up_fs w) (up_app w);
         w = w\<lparr>up_app := s, up_clock := elapse took (up_clock w)\<rparr> in
     case r of
       None \<Rightarrow> (None, w)
     | Some (Inl e) \<Rightarrow> (Some (Err (UpgradeError_Probe e)), w)
     | Some (Inr None) \<Rightarrow> (Some (Ok None), w)
     | Some (Inr (Some t)) \<Rightarrow> (Some (Ok (if app_accepts app t then Some t else None)), w))"

definition confirm_round :: "('s, 't, 'e) upgrade_app \<Rightarrow> instant \<Rightarrow> 's upgrade_world
    \<Rightarrow> (('e upgrade_error + 't) option \<times> 's upgrade_world, 's upgrade_world) control" where
  "confirm_round app limit w = (case probe_accepted app limit w of
     (None, w) \<Rightarrow> Break (None, w)
   | (Some (Inl e), w) \<Rightarrow> Break (Some (Err e), w)
   | (Some (Inr (Some t)), w) \<Rightarrow> Break (Some (Ok t), w)
   | (Some (Inr None), w) \<Rightarrow> (case sleep_under limit (from_millis 25) (up_clock w) of
       None \<Rightarrow> Break (None, w)
     | Some c \<Rightarrow> Continue (w\<lparr>up_clock := c\<rparr>)))"

text \<open>The block under the lock: probe again, replace, and wait for the replacement to answer.\<close>

definition replace_locked :: "('s, 't, 'e) upgrade_app \<Rightarrow> instant \<Rightarrow> 's upgrade_world
    \<Rightarrow> (('e upgrade_error + 't) option \<times> 's upgrade_world) option" where
  "replace_locked app limit w = (case probe_accepted app limit w of
     (None, w) \<Rightarrow> Some (None, w)
   | (Some (Inl e), w) \<Rightarrow> Some (Some (Err e), w)
   | (Some (Inr (Some t)), w) \<Rightarrow> Some (Some (Ok t), w)
   | (Some (Inr None), w) \<Rightarrow>
       let (r, took, s) = app_replace app limit (time (up_clock w)) (up_fs w) (up_app w);
           w = w\<lparr>up_app := s, up_clock := elapse took (up_clock w)\<rparr> in
       (case r of
         None \<Rightarrow> Some (None, w)
       | Some (Inl e) \<Rightarrow> Some (Some (Err (UpgradeError_Replace e)), w)
       | Some (Inr _) \<Rightarrow> iterate (confirm_round app limit) w))"

text \<open>The whole call; the upgrade lock is dropped however the block under it ends.\<close>

definition ensure_current :: "('s, 't, 'e) upgrade_app \<Rightarrow> path \<Rightarrow> instant \<Rightarrow> 's upgrade_world
    \<Rightarrow> (('e upgrade_error + 't) \<times> 's upgrade_world) option" where
  "ensure_current app upgrade_lock deadline w =
    (let (t, c) = instant_now (up_clock w); w = w\<lparr>up_clock := c\<rparr> in
     if deadline \<le> t then Some (Err UpgradeError_Deadline, w)
     else (case probe_accepted app deadline w of
       (None, w) \<Rightarrow> Some (Err UpgradeError_Deadline, w)
     | (Some (Inl e), w) \<Rightarrow> Some (Err e, w)
     | (Some (Inr (Some t)), w) \<Rightarrow> Some (Ok t, w)
     | (Some (Inr None), w) \<Rightarrow>
         (case acquire_async (app_others app) deadline upgrade_lock (up_fs w) (up_clock w) of
           None \<Rightarrow> None
         | Some (None, fs, c) \<Rightarrow> Some (Err UpgradeError_Deadline, w\<lparr>up_fs := fs, up_clock := c\<rparr>)
         | Some (Some (Inl e), fs, c) \<Rightarrow> Some (Err (UpgradeError_Lock e), w\<lparr>up_fs := fs, up_clock := c\<rparr>)
         | Some (Some (Inr lock), fs, c) \<Rightarrow>
             (case replace_locked app deadline (w\<lparr>up_fs := fs, up_clock := c\<rparr>) of
               None \<Rightarrow> None
             | Some (r, w) \<Rightarrow>
                 Some (case r of None \<Rightarrow> Err UpgradeError_Deadline | Some r \<Rightarrow> r,
                   w\<lparr>up_fs := process_lock_drop lock (up_fs w)\<rparr>)))))"

section \<open>What the application is asked\<close>

datatype ('t, 'e) app_event =
    AppProbed "('e + 't option) option" | AppReplaced lock_fs

definition watched_app :: "('s, 't, 'e) upgrade_app \<Rightarrow> ('s \<times> ('t, 'e) app_event list, 't, 'e) upgrade_app" where
  "watched_app app = \<lparr>
     app_probe = (\<lambda>limit t fs (s, log). let (r, took, s) = app_probe app limit t fs s in
       (r, took, s, log @ [AppProbed r])),
     app_replace = (\<lambda>limit t fs (s, log). let (r, took, s) = app_replace app limit t fs s in
       (r, took, s, log @ [AppReplaced fs])),
     app_accepts = app_accepts app,
     app_others = app_others app\<rparr>"

definition up_log :: "('s \<times> ('t, 'e) app_event list) upgrade_world \<Rightarrow> ('t, 'e) app_event list" where
  "up_log w = snd (up_app w)"

definition replacements :: "('t, 'e) app_event list \<Rightarrow> lock_fs list" where
  "replacements log = concat (map (\<lambda>e. case e of AppReplaced fs \<Rightarrow> [fs] | _ \<Rightarrow> []) log)"

definition answered :: "('t \<Rightarrow> bool) \<Rightarrow> 't \<Rightarrow> ('t, 'e) app_event list \<Rightarrow> bool" where
  "answered accepts t log \<longleftrightarrow> accepts t \<and> log \<noteq> [] \<and> last log = AppProbed (Some (Ok (Some t)))"

lemma replacements_simps [simp]:
  "replacements [] = []"
  "replacements (log @ [AppProbed r]) = replacements log"
  "replacements (log @ [AppReplaced fs]) = replacements log @ [fs]"
  by (simp_all add: replacements_def)

lemma up_log_simps [simp]:
  "up_log (w\<lparr>up_fs := fs\<rparr>) = up_log w"
  "up_log (w\<lparr>up_clock := c\<rparr>) = up_log w"
  by (simp_all add: up_log_def)

lemma watched_app_simps [simp]:
  "app_replace (watched_app app) limit t fs (s, log) = (case app_replace app limit t fs s of
     (r, took, s) \<Rightarrow> (r, took, s, log @ [AppReplaced fs]))"
  "app_accepts (watched_app app) = app_accepts app"
  "app_others (watched_app app) = app_others app"
  by (simp_all add: watched_app_def)

lemma probe_accepted_log:
  assumes "probe_accepted (watched_app app) limit w = (r, w')"
  shows "replacements (up_log w') = replacements (up_log w) \<and> up_fs w' = up_fs w
    \<and> time (up_clock w) \<le> time (up_clock w')
    \<and> (\<forall>t. r = Some (Ok (Some t)) \<longrightarrow> answered (app_accepts app) t (up_log w'))"
  using assms
  by (cases "up_app w")
     (auto simp: probe_accepted_def watched_app_def up_log_def answered_def Let_def
      split: prod.splits option.splits sum.splits if_splits)

section \<open>The two waits\<close>

interpretation acquire_async: ending_loop "acquire_async_round others limit f"
  "\<lambda>(pause, fs, c). pauses_ok pause"
  "\<lambda>(r, fs, c). \<forall>l. r = Some (Ok l) \<longrightarrow> l = f \<and> fs_holder fs (file_inode f) = Some (file_handle f)"
  "measure (\<lambda>(pause, fs, c). Suc limit - time c)"
  for others limit f
proof unfold_locales
  fix s s'
  assume inv: "case s of (pause, fs, c) \<Rightarrow> pauses_ok pause"
    and s': "acquire_async_round others limit f s = Continue s'"
  obtain pause fs c where s: "s = (pause, fs, c)" by (cases s)
  with s' inv obtain fs' where "s' = (min backoff_longest (pause * 2), fs', sleep pause c)"
    and "time c + pause \<le> limit"
    by (auto simp: acquire_async_round_def next_pause_def sleep_under_def
        split: prod.splits sum.splits bool.splits if_splits)
  moreover have "0 < pause" using inv s by (simp add: pauses_ok_def)
  ultimately show "case s' of (pause, fs, c) \<Rightarrow> pauses_ok pause"
    and "(s', s) \<in> measure (\<lambda>(pause, fs, c). Suc limit - time c)"
    using sleep_lasts[of c pause] s
    by (auto simp: pauses_ok_def backoff_longest_def from_millis_def)
next
  fix s r
  assume "acquire_async_round others limit f s = Break r"
  then show "case r of (r, fs, c) \<Rightarrow>
      \<forall>l. r = Some (Ok l) \<longrightarrow> l = f \<and> fs_holder fs (file_inode f) = Some (file_handle f)"
    by (cases s) (auto simp: acquire_async_round_def
        split: prod.splits sum.splits bool.splits option.splits dest!: locked_result)
qed simp

lemma probe_accepted_clock:
  "probe_accepted app limit w = (r, w') \<Longrightarrow> time (up_clock w) \<le> time (up_clock w')"
  by (auto simp: probe_accepted_def Let_def split: prod.splits option.splits sum.splits)

interpretation confirm_ends: ending_loop "confirm_round app limit" "\<lambda>_. True" "\<lambda>_. True"
  "measure (\<lambda>w. Suc limit - time (up_clock w))" for app limit
proof unfold_locales
  fix w w'
  assume "confirm_round app limit w = Continue w'"
  then obtain w1 where "probe_accepted app limit w = (Some (Ok None), w1)"
    and w': "w' = w1\<lparr>up_clock := sleep (from_millis 25) (up_clock w1)\<rparr>"
    and "time (up_clock w1) + from_millis 25 \<le> limit"
    by (auto simp: confirm_round_def sleep_under_def split: prod.splits option.splits sum.splits if_splits)
  with probe_accepted_clock[of app limit w] sleep_lasts[of "up_clock w1" "from_millis 25"]
  show "(w', w) \<in> measure (\<lambda>w. Suc limit - time (up_clock w))"
    by (fastforce simp: from_millis_def)
qed auto

interpretation confirm: loop_contract "confirm_round (watched_app app) limit"
  "\<lambda>w. replacements (up_log w) = rs"
  "\<lambda>(r, w). replacements (up_log w) = rs \<and> (\<forall>t. r = Some (Ok t) \<longrightarrow> answered (app_accepts app) t (up_log w))"
  for app limit rs
proof unfold_locales
  fix w w'
  assume "replacements (up_log w) = rs" "confirm_round (watched_app app) limit w = Continue w'"
  then show "replacements (up_log w') = rs"
    by (auto simp: confirm_round_def split: prod.splits option.splits sum.splits
        dest!: probe_accepted_log)
next
  fix w r
  assume "replacements (up_log w) = rs" "confirm_round (watched_app app) limit w = Break r"
  then show "case r of (r, w) \<Rightarrow> replacements (up_log w) = rs
      \<and> (\<forall>t. r = Some (Ok t) \<longrightarrow> answered (app_accepts app) t (up_log w))"
    by (auto simp: confirm_round_def split: prod.splits option.splits sum.splits
        dest!: probe_accepted_log)
qed

lemma replace_locked_log:
  assumes "replace_locked (watched_app app) limit w = Some (r, w')" and "replacements (up_log w) = []"
  shows "(replacements (up_log w') = [] \<or> replacements (up_log w') = [up_fs w])
    \<and> (\<forall>t. r = Some (Ok t) \<longrightarrow> answered (app_accepts app) t (up_log w'))"
proof -
  obtain r1 w1 where p: "probe_accepted (watched_app app) limit w = (r1, w1)" by force
  note log = probe_accepted_log[OF p]
  show ?thesis
  proof (cases "r1 = Some (Ok None)")
    case False
    with p log assms show ?thesis
      by (auto simp: replace_locked_def split: option.splits sum.splits)
  next
    case True
    obtain s lg where app1: "up_app w1 = (s, lg)" by force
    obtain r2 took s2 where rep: "app_replace app limit (time (up_clock w1)) (up_fs w1) s = (r2, took, s2)"
      by (cases "app_replace app limit (time (up_clock w1)) (up_fs w1) s")
    define w2 where "w2 = w1\<lparr>up_app := (s2, lg @ [AppReplaced (up_fs w1)]),
      up_clock := elapse took (up_clock w1)\<rparr>"
    have log2: "replacements (up_log w2) = [up_fs w]"
      using log assms(2) app1 by (simp add: w2_def up_log_def)
    have "replace_locked (watched_app app) limit w = (case r2 of
        None \<Rightarrow> Some (None, w2) | Some (Inl e) \<Rightarrow> Some (Some (Err (UpgradeError_Replace e)), w2)
      | Some (Inr _) \<Rightarrow> iterate (confirm_round (watched_app app) limit) w2)"
      using p True app1 rep unfolding w2_def by (simp add: replace_locked_def Let_def)
    with assms(1) log2 confirm.sound[of app limit w2 "(r, w')" "[up_fs w]"] show ?thesis
      by (auto split: option.splits sum.splits)
  qed
qed

lemma acquire_async_post:
  assumes "acquire_async others limit p fs c = Some (Some (Ok l), fs', c')"
  shows "\<exists>fs1. open_or_create p fs = (Ok l, fs1) \<and> fs_holder fs' (file_inode l) = Some (file_handle l)"
proof -
  obtain f fs1 where f: "open_or_create p fs = (Ok f, fs1)"
    and it: "iterate (acquire_async_round others limit f) (backoff_first, fs1, c) = Some (Some (Ok l), fs', c')"
    using assms by (auto simp: acquire_async_def split: prod.splits sum.splits)
  have "pauses_ok backoff_first"
    by (simp add: pauses_ok_def backoff_first_def backoff_longest_def from_millis_def)
  with acquire_async.sound[OF it] f show ?thesis by auto
qed

lemma acquire_async_total: "\<exists>r fs' c'. acquire_async others limit p fs c = Some (r, fs', c')"
proof (cases "open_or_create p fs")
  case (Pair r fs1)
  have "pauses_ok backoff_first"
    by (simp add: pauses_ok_def backoff_first_def backoff_longest_def from_millis_def)
  with Pair acquire_async.ends[of "(backoff_first, fs1, c)"] show ?thesis
    by (cases r) (auto simp: acquire_async_def)
qed

lemma replace_locked_total: "\<exists>r w'. replace_locked app limit w = Some (r, w')"
proof -
  have "\<exists>r w'. iterate (confirm_round app limit) w = Some (r, w')" for w
    using confirm_ends.ends[of app limit w] by auto
  then show ?thesis
    by (auto simp: replace_locked_def Let_def split: prod.splits option.splits sum.splits)
qed

lemma ensure_current_unfold:
  assumes "probe_accepted app deadline (w\<lparr>up_clock := tick (up_clock w)\<rparr>) = (r1, w1)"
    and "acquire_async (app_others app) deadline p (up_fs w1) (up_clock w1) = Some (ra, fs, c)"
    and "replace_locked app deadline (w1\<lparr>up_fs := fs, up_clock := c\<rparr>) = Some (r2, w2)"
  shows "ensure_current app p deadline w = Some
    (if deadline \<le> time (tick (up_clock w)) then (Err UpgradeError_Deadline, w\<lparr>up_clock := tick (up_clock w)\<rparr>)
     else case r1 of
       None \<Rightarrow> (Err UpgradeError_Deadline, w1)
     | Some (Inl e) \<Rightarrow> (Err e, w1)
     | Some (Inr (Some t)) \<Rightarrow> (Ok t, w1)
     | Some (Inr None) \<Rightarrow> (case ra of
         None \<Rightarrow> (Err UpgradeError_Deadline, w1\<lparr>up_fs := fs, up_clock := c\<rparr>)
       | Some (Inl e) \<Rightarrow> (Err (UpgradeError_Lock e), w1\<lparr>up_fs := fs, up_clock := c\<rparr>)
       | Some (Inr l) \<Rightarrow> (case r2 of None \<Rightarrow> Err UpgradeError_Deadline | Some r \<Rightarrow> r,
           w2\<lparr>up_fs := process_lock_drop l (up_fs w2)\<rparr>)))"
  using assms by (simp add: ensure_current_def time_simps Let_def split: option.split sum.split)

lemma ensure_current_parts:
  obtains r1 w1 ra fs c r2 w2 where
    "probe_accepted app deadline (w\<lparr>up_clock := tick (up_clock w)\<rparr>) = (r1, w1)"
    "acquire_async (app_others app) deadline p (up_fs w1) (up_clock w1) = Some (ra, fs, c)"
    "replace_locked app deadline (w1\<lparr>up_fs := fs, up_clock := c\<rparr>) = Some (r2, w2)"
  using acquire_async_total replace_locked_total by (metis surj_pair)

section \<open>Properties\<close>

text \<open>Obtaining a current daemon always ends, for every application, clock and behaviour of the
  other processes.\<close>

theorem ensure_current_ends: "\<exists>r w'. ensure_current app p deadline w = Some (r, w')"
  by (rule ensure_current_parts[of app deadline w p])
     (use ensure_current_unfold in \<open>metis surj_pair\<close>)

text \<open>C20: Success always comes from a fresh accepted probe: the daemon handed back is the answer to
  the last thing the application was asked, and the caller accepts it.  The application is told to
  replace its daemon at most once, and only while this call holds the upgrade lock it opened.\<close>

theorem ensure_current_is_fresh:
  assumes "ensure_current (watched_app app) p deadline w = Some (r, w')" and "up_log w = []"
  shows "(\<forall>t. r = Ok t \<longrightarrow> answered (app_accepts app) t (up_log w'))
    \<and> (replacements (up_log w') = [] \<or> (\<exists>fs l fs1. replacements (up_log w') = [fs]
        \<and> open_or_create p (up_fs w) = (Ok l, fs1) \<and> fs_holder fs (file_inode l) = Some (file_handle l)))"
proof -
  obtain r1 w1 ra fs c r2 w2 where
    p1: "probe_accepted (watched_app app) deadline (w\<lparr>up_clock := tick (up_clock w)\<rparr>) = (r1, w1)"
    and acq: "acquire_async (app_others app) deadline p (up_fs w1) (up_clock w1) = Some (ra, fs, c)"
    and rep: "replace_locked (watched_app app) deadline (w1\<lparr>up_fs := fs, up_clock := c\<rparr>) = Some (r2, w2)"
    by (rule ensure_current_parts[of "watched_app app" deadline w p]) simp
  note log1 = probe_accepted_log[OF p1] and log2 = replace_locked_log[OF rep]
  have post: "ra = Some (Ok l) \<Longrightarrow> \<exists>fs1. open_or_create p (up_fs w) = (Ok l, fs1)
      \<and> fs_holder fs (file_inode l) = Some (file_handle l)" for l
    using acquire_async_post[of "app_others app" deadline p "up_fs w1" "up_clock w1" l fs c] acq log1 by simp
  have "ensure_current (watched_app app) p deadline w = Some (r, w')" by (fact assms(1))
  then show ?thesis
    using log1 log2 post assms(2) ensure_current_unfold[OF p1 _ rep, of p] acq
    by (auto split: if_splits option.splits sum.splits)
qed

text \<open>An application whose daemon answers once it was replaced: its state is whether it was.\<close>

definition stale_app :: "(bool, nat, unit) upgrade_app" where
  "stale_app = \<lparr>app_probe = (\<lambda>limit t fs new. (Some (Ok (if new then Some 7 else None)), 1, new)),
     app_replace = (\<lambda>limit t fs new. (Some (Ok ()), 1, True)),
     app_accepts = (\<lambda>t. t = 7), app_others = (\<lambda>t fs. fs)\<rparr>"

definition stale_world :: "(bool \<times> (nat, unit) app_event list) upgrade_world" where
  "stale_world = \<lparr>up_app = (False, []), up_fs = bare_fs, up_clock = \<lparr>time = 0, delays = []\<rparr>\<rparr>"

theorem ensure_current_is_fresh_witness:
  "\<exists>w'. ensure_current (watched_app stale_app) ''upgrade.lock'' 1000 stale_world = Some (Ok 7, w')
    \<and> answered (app_accepts stale_app) 7 (up_log w')"
proof -
  have "map_option fst (ensure_current (watched_app stale_app) ''upgrade.lock'' 1000 stale_world) = Some (Ok 7)"
    by code_simp
  then obtain w' where "ensure_current (watched_app stale_app) ''upgrade.lock'' 1000 stale_world = Some (Ok 7, w')"
    by auto
  with ensure_current_is_fresh[OF this] show ?thesis
    by (simp add: stale_world_def up_log_def)
qed

end
