(* ===== verification/Observation.thy ===== *)
theory Observation
  imports Rust_Prelude
begin

text \<open>
  Local observations (\<^verbatim>\<open>src/src/observation.rs\<close>): a bounded event queue whose producers never wait,
  transfer counters, and the blocking and asynchronous adapters that feed them.  The wrapped
  transport is a parameter: what its calls answer is arbitrary.  Each operation also gets the clock
  and, for each attempt on the event lock, whether a reader holds it at that moment.
\<close>

section \<open>Data\<close>

datatype direction = Direction_Read | Direction_Write

datatype event =
    Event_Connected | Event_Disconnected | Event_ReadClosed
  | Event_IoFailed direction error_kind
  | Event_Rejected | Event_DrainStarted | Event_DrainCompleted | Event_DrainTimedOut
  | Event_HandoffStarted | Event_HandoffCompleted | Event_HandoffAborted

record timed_event =
  event_elapsed :: duration
  event_event :: event

record obs_progress =
  prog_bytes :: u64
  prog_pending :: nat
  prog_busy_since :: u64
  prog_last_progress :: u64
  prog_errors :: u64

record progress_snapshot =
  psnap_bytes :: u64
  psnap_pending :: nat
  psnap_busy_for :: "duration option"
  psnap_since_progress :: "duration option"
  psnap_errors :: u64

record obs_snapshot =
  osnap_connections :: nat
  osnap_read :: progress_snapshot
  osnap_write :: progress_snapshot
  osnap_lost_events :: u64

record observations =
  obs_started :: instant
  obs_read :: obs_progress
  obs_write :: obs_progress
  obs_connections :: nat
  obs_events :: "timed_event list"
  obs_event_capacity :: nat
  obs_lost_events :: u64

record obs_world =
  ow_obs :: observations
  ow_clock :: clock
  ow_contended :: "bool list"

section \<open>Operations\<close>

definition progress_default :: obs_progress where
  "progress_default = \<lparr>prog_bytes = 0, prog_pending = 0, prog_busy_since = 0,
     prog_last_progress = 0, prog_errors = 0\<rparr>"

definition observations_new :: "nat \<Rightarrow> clock \<Rightarrow> observations \<times> clock" where
  "observations_new capacity c = (let (t, c) = instant_now c in
    (\<lparr>obs_started = t, obs_read = progress_default, obs_write = progress_default,
      obs_connections = 0, obs_events = [], obs_event_capacity = capacity, obs_lost_events = 0\<rparr>, c))"

text \<open>\<^verbatim>\<open>self.started.elapsed()\<close>, and the outcome of the next \<^verbatim>\<open>try_lock\<close> on the event queue.\<close>

definition obs_elapsed :: "obs_world \<Rightarrow> duration \<times> obs_world" where
  "obs_elapsed w = (let (t, c) = instant_now (ow_clock w) in
    (t - obs_started (ow_obs w), w\<lparr>ow_clock := c\<rparr>))"

definition obs_try_lock :: "obs_world \<Rightarrow> bool \<times> obs_world" where
  "obs_try_lock w = (case ow_contended w of
     [] \<Rightarrow> (True, w) | busy # later \<Rightarrow> (\<not> busy, w\<lparr>ow_contended := later\<rparr>))"

definition observations_record :: "event \<Rightarrow> obs_world \<Rightarrow> obs_world" where
  "observations_record event w =
    (if obs_event_capacity (ow_obs w) = 0 then w
     else
       let (got, w) = obs_try_lock w in
       if got \<and> length (obs_events (ow_obs w)) < obs_event_capacity (ow_obs w) then
         let (t, w) = obs_elapsed w in
         w\<lparr>ow_obs := (ow_obs w)\<lparr>obs_events := obs_events (ow_obs w) @ [\<lparr>event_elapsed = t, event_event = event\<rparr>]\<rparr>\<rparr>
       else w\<lparr>ow_obs := (ow_obs w)\<lparr>obs_lost_events := obs_lost_events (ow_obs w) + 1\<rparr>\<rparr>)"

definition take_events :: "obs_world \<Rightarrow> timed_event list \<times> obs_world" where
  "take_events w = (obs_events (ow_obs w), w\<lparr>ow_obs := (ow_obs w)\<lparr>obs_events := []\<rparr>\<rparr>)"

definition obs_get :: "direction \<Rightarrow> obs_world \<Rightarrow> obs_progress" where
  "obs_get d w = (case d of Direction_Read \<Rightarrow> obs_read (ow_obs w) | Direction_Write \<Rightarrow> obs_write (ow_obs w))"

definition obs_put :: "direction \<Rightarrow> obs_progress \<Rightarrow> obs_world \<Rightarrow> obs_world" where
  "obs_put d p w = (case d of
     Direction_Read \<Rightarrow> w\<lparr>ow_obs := (ow_obs w)\<lparr>obs_read := p\<rparr>\<rparr>
   | Direction_Write \<Rightarrow> w\<lparr>ow_obs := (ow_obs w)\<lparr>obs_write := p\<rparr>\<rparr>)"

definition snapshot_progress :: "obs_progress \<Rightarrow> obs_world \<Rightarrow> progress_snapshot \<times> obs_world" where
  "snapshot_progress p w =
    (let (busy, w) = (if prog_pending p \<noteq> 0
           then (let (e, w) = obs_elapsed w in (Some (e - unat (prog_busy_since p)), w)) else (None, w));
         (since, w) = (if prog_last_progress p \<noteq> 0
           then (let (e, w) = obs_elapsed w in (Some (e - unat (prog_last_progress p - 1)), w)) else (None, w)) in
     (\<lparr>psnap_bytes = prog_bytes p, psnap_pending = prog_pending p, psnap_busy_for = busy,
       psnap_since_progress = since, psnap_errors = prog_errors p\<rparr>, w))"

definition observations_snapshot :: "obs_world \<Rightarrow> obs_snapshot \<times> obs_world" where
  "observations_snapshot w =
    (let (r, w1) = snapshot_progress (obs_read (ow_obs w)) w;
         (s, w2) = snapshot_progress (obs_write (ow_obs w)) w1 in
     (\<lparr>osnap_connections = obs_connections (ow_obs w), osnap_read = r, osnap_write = s,
       osnap_lost_events = obs_lost_events (ow_obs w)\<rparr>, w2))"

definition observations_start :: "direction \<Rightarrow> obs_world \<Rightarrow> obs_world" where
  "observations_start d w =
    (let p = obs_get d w;
         w1 = obs_put d (p\<lparr>prog_pending := prog_pending p + 1\<rparr>) w in
     if prog_pending p = 0 then
       let (e, w2) = obs_elapsed w1 in
       obs_put d ((obs_get d w2)\<lparr>prog_busy_since := of_nat (min e (2 ^ 64 - 1))\<rparr>) w2
     else w1)"

definition pending_drop :: "direction \<Rightarrow> obs_world \<Rightarrow> obs_world" where
  "pending_drop d w = obs_put d ((obs_get d w)\<lparr>prog_pending := prog_pending (obs_get d w) - 1\<rparr>) w"

definition transferred :: "direction \<Rightarrow> nat \<Rightarrow> obs_world \<Rightarrow> obs_world" where
  "transferred d bytes w =
    (if bytes = 0 then w
     else
       let w1 = obs_put d ((obs_get d w)\<lparr>prog_bytes := prog_bytes (obs_get d w) + of_nat bytes\<rparr>) w;
           (e, w2) = obs_elapsed w1;
           stamp = of_nat (min e (2 ^ 64 - 2)) + 1 in
       obs_put d ((obs_get d w2)\<lparr>prog_last_progress := max (prog_last_progress (obs_get d w2)) stamp\<rparr>) w2)"

definition failed :: "direction \<Rightarrow> io_error \<Rightarrow> obs_world \<Rightarrow> obs_world" where
  "failed d e w =
    (if io_kind e = ErrorKind_Interrupted \<or> io_kind e = ErrorKind_WouldBlock then w
     else observations_record (Event_IoFailed d (io_kind e))
       (obs_put d ((obs_get d w)\<lparr>prog_errors := prog_errors (obs_get d w) + 1\<rparr>) w))"

section \<open>The blocking adapter\<close>

text \<open>The wrapped transport: a read or write of so many bytes, and a flush, on its state.\<close>

record 's transport_ops =
  tr_read :: "nat \<Rightarrow> 's \<Rightarrow> (io_error + nat) \<times> 's"
  tr_write :: "nat \<Rightarrow> 's \<Rightarrow> (io_error + nat) \<times> 's"
  tr_flush :: "'s \<Rightarrow> (io_error + unit) \<times> 's"

record 's observed_io =
  oio_inner :: 's
  oio_read_closed :: bool

definition set_connections :: "(nat \<Rightarrow> nat) \<Rightarrow> obs_world \<Rightarrow> obs_world" where
  "set_connections f w = w\<lparr>ow_obs := (ow_obs w)\<lparr>obs_connections := f (obs_connections (ow_obs w))\<rparr>\<rparr>"

definition observed_new :: "'s \<Rightarrow> obs_world \<Rightarrow> 's observed_io \<times> obs_world" where
  "observed_new inner w = (\<lparr>oio_inner = inner, oio_read_closed = False\<rparr>,
     observations_record Event_Connected (set_connections (\<lambda>n. n + 1) w))"

definition observed_drop :: "'s observed_io \<Rightarrow> obs_world \<Rightarrow> obs_world" where
  "observed_drop io w = observations_record Event_Disconnected (set_connections (\<lambda>n. n - 1) w)"

definition observed_read :: "'s transport_ops \<Rightarrow> nat \<Rightarrow> 's observed_io \<Rightarrow> obs_world
    \<Rightarrow> (io_error + nat) \<times> 's observed_io \<times> obs_world" where
  "observed_read ops len io w =
    (let w = observations_start Direction_Read w;
         (result, inner) = tr_read ops len (oio_inner io);
         io = io\<lparr>oio_inner := inner\<rparr>;
         (io, w) = (case result of
           Inr n \<Rightarrow>
             if n = 0 \<and> len \<noteq> 0 \<and> \<not> oio_read_closed io
             then (io\<lparr>oio_read_closed := True\<rparr>, observations_record Event_ReadClosed w)
             else (io, transferred Direction_Read n w)
         | Inl e \<Rightarrow> (io, failed Direction_Read e w)) in
     (result, io, pending_drop Direction_Read w))"

definition observed_write :: "'s transport_ops \<Rightarrow> nat \<Rightarrow> 's observed_io \<Rightarrow> obs_world
    \<Rightarrow> (io_error + nat) \<times> 's observed_io \<times> obs_world" where
  "observed_write ops len io w =
    (let w = observations_start Direction_Write w;
         (result, inner) = tr_write ops len (oio_inner io);
         w = (case result of
           Inr n \<Rightarrow> transferred Direction_Write n w | Inl e \<Rightarrow> failed Direction_Write e w) in
     (result, io\<lparr>oio_inner := inner\<rparr>, pending_drop Direction_Write w))"

definition observed_flush :: "'s transport_ops \<Rightarrow> 's observed_io \<Rightarrow> obs_world
    \<Rightarrow> (io_error + unit) \<times> 's observed_io \<times> obs_world" where
  "observed_flush ops io w =
    (let w = observations_start Direction_Write w;
         (result, inner) = tr_flush ops (oio_inner io);
         w = (case result of Inr _ \<Rightarrow> w | Inl e \<Rightarrow> failed Direction_Write e w) in
     (result, io\<lparr>oio_inner := inner\<rparr>, pending_drop Direction_Write w))"

section \<open>The asynchronous adapter\<close>

text \<open>The wrapped transport when polled: \<^const>\<open>None\<close> is \<^verbatim>\<open>Poll::Pending\<close>.\<close>

record 's poll_ops =
  tr_poll_read :: "nat \<Rightarrow> 's \<Rightarrow> (io_error + nat) option \<times> 's"
  tr_poll_write :: "nat \<Rightarrow> 's \<Rightarrow> (io_error + nat) option \<times> 's"
  tr_poll_flush :: "'s \<Rightarrow> (io_error + unit) option \<times> 's"
  tr_poll_shutdown :: "'s \<Rightarrow> (io_error + unit) option \<times> 's"

record 's async_io =
  aio_io :: "'s observed_io"
  aio_read_pending :: bool
  aio_write_pending :: bool

definition async_new :: "'s \<Rightarrow> obs_world \<Rightarrow> 's async_io \<times> obs_world" where
  "async_new inner w = (let (io, w) = observed_new inner w in
    (\<lparr>aio_io = io, aio_read_pending = False, aio_write_pending = False\<rparr>, w))"

definition aio_pending :: "direction \<Rightarrow> 's async_io \<Rightarrow> bool" where
  "aio_pending d a = (case d of Direction_Read \<Rightarrow> aio_read_pending a | Direction_Write \<Rightarrow> aio_write_pending a)"

definition aio_set_pending :: "direction \<Rightarrow> bool \<Rightarrow> 's async_io \<Rightarrow> 's async_io" where
  "aio_set_pending d b a = (case d of
     Direction_Read \<Rightarrow> a\<lparr>aio_read_pending := b\<rparr> | Direction_Write \<Rightarrow> a\<lparr>aio_write_pending := b\<rparr>)"

definition async_begin :: "direction \<Rightarrow> 's async_io \<Rightarrow> obs_world \<Rightarrow> 's async_io \<times> obs_world" where
  "async_begin d a w =
    (if aio_pending d a then (a, w) else (aio_set_pending d True a, observations_start d w))"

definition async_end :: "direction \<Rightarrow> 's async_io \<Rightarrow> obs_world \<Rightarrow> 's async_io \<times> obs_world" where
  "async_end d a w =
    (if aio_pending d a then (aio_set_pending d False a, pending_drop d w) else (a, w))"

definition async_drop :: "'s async_io \<Rightarrow> obs_world \<Rightarrow> obs_world" where
  "async_drop a w =
    (let (a, w) = async_end Direction_Read a w;
         (a, w) = async_end Direction_Write a w in
     observed_drop (aio_io a) w)"

definition aio_inner :: "'s async_io \<Rightarrow> 's" where
  "aio_inner a = oio_inner (aio_io a)"

definition aio_set_inner :: "'s \<Rightarrow> 's async_io \<Rightarrow> 's async_io" where
  "aio_set_inner s a = a\<lparr>aio_io := (aio_io a)\<lparr>oio_inner := s\<rparr>\<rparr>"

definition async_poll_read :: "'s poll_ops \<Rightarrow> nat \<Rightarrow> 's async_io \<Rightarrow> obs_world
    \<Rightarrow> (io_error + nat) option \<times> 's async_io \<times> obs_world" where
  "async_poll_read ops capacity a w =
    (let (a, w) = async_begin Direction_Read a w;
         (result, inner) = tr_poll_read ops capacity (aio_inner a);
         a = aio_set_inner inner a in
     case result of
       None \<Rightarrow> (None, a, w)
     | Some r \<Rightarrow>
         let (a, w) = async_end Direction_Read a w in
         (case r of
           Inr bytes \<Rightarrow>
             let w = transferred Direction_Read bytes w in
             if bytes = 0 \<and> capacity \<noteq> 0 \<and> \<not> oio_read_closed (aio_io a)
             then (Some r, a\<lparr>aio_io := (aio_io a)\<lparr>oio_read_closed := True\<rparr>\<rparr>,
               observations_record Event_ReadClosed w)
             else (Some r, a, w)
         | Inl e \<Rightarrow> (Some r, a, failed Direction_Read e w)))"

definition async_poll_write :: "'s poll_ops \<Rightarrow> nat \<Rightarrow> 's async_io \<Rightarrow> obs_world
    \<Rightarrow> (io_error + nat) option \<times> 's async_io \<times> obs_world" where
  "async_poll_write ops len a w =
    (let (a, w) = async_begin Direction_Write a w;
         (result, inner) = tr_poll_write ops len (aio_inner a);
         a = aio_set_inner inner a in
     case result of
       None \<Rightarrow> (None, a, w)
     | Some r \<Rightarrow>
         let (a, w) = async_end Direction_Write a w in
         (Some r, a, case r of
           Inr bytes \<Rightarrow> transferred Direction_Write bytes w
         | Inl e \<Rightarrow> failed Direction_Write e w))"

text \<open>\<^verbatim>\<open>poll_flush\<close> and \<^verbatim>\<open>poll_shutdown\<close> differ only in the inner call.\<close>

definition async_poll_unit :: "('s \<Rightarrow> (io_error + unit) option \<times> 's) \<Rightarrow> 's async_io \<Rightarrow> obs_world
    \<Rightarrow> (io_error + unit) option \<times> 's async_io \<times> obs_world" where
  "async_poll_unit call a w =
    (let (a, w) = async_begin Direction_Write a w;
         (result, inner) = call (aio_inner a);
         a = aio_set_inner inner a in
     case result of
       None \<Rightarrow> (None, a, w)
     | Some r \<Rightarrow>
         let (a, w) = async_end Direction_Write a w in
         (Some r, a, case r of Inr _ \<Rightarrow> w | Inl e \<Rightarrow> failed Direction_Write e w))"

definition async_poll_flush :: "'s poll_ops \<Rightarrow> 's async_io \<Rightarrow> obs_world
    \<Rightarrow> (io_error + unit) option \<times> 's async_io \<times> obs_world" where
  "async_poll_flush ops = async_poll_unit (tr_poll_flush ops)"

definition async_poll_shutdown :: "'s poll_ops \<Rightarrow> 's async_io \<Rightarrow> obs_world
    \<Rightarrow> (io_error + unit) option \<times> 's async_io \<times> obs_world" where
  "async_poll_shutdown ops = async_poll_unit (tr_poll_shutdown ops)"

section \<open>Effects of the operations\<close>

named_theorems obs_simps \<open>what each operation leaves in the counters and the event queue\<close>

abbreviation pending :: "direction \<Rightarrow> obs_world \<Rightarrow> nat" where
  "pending d w \<equiv> prog_pending (obs_get d w)"

abbreviation bytes :: "direction \<Rightarrow> obs_world \<Rightarrow> u64" where
  "bytes d w \<equiv> prog_bytes (obs_get d w)"

lemma get_put [obs_simps]:
  "obs_get d (obs_put d' p w) = (if d = d' then p else obs_get d w)"
  "ow_clock (obs_put d' p w) = ow_clock w"
  by (auto simp: obs_get_def obs_put_def split: direction.splits)

lemma get_elapsed [obs_simps]: "obs_elapsed w = (e, w') \<Longrightarrow> obs_get d w' = obs_get d w"
  by (auto simp: obs_elapsed_def time_simps obs_get_def split: direction.splits)

lemma get_record [obs_simps]:
  "obs_get d (observations_record e w) = obs_get d w"
  "obs_connections (ow_obs (observations_record e w)) = obs_connections (ow_obs w)"
  by (auto simp: observations_record_def obs_try_lock_def obs_elapsed_def time_simps obs_get_def Let_def
      split: direction.splits list.splits prod.splits)

lemma get_connections [obs_simps]: "obs_get d (set_connections f w) = obs_get d w"
  by (auto simp: set_connections_def obs_get_def split: direction.splits)

lemma start_pending [obs_simps]:
  "pending d' (observations_start d w) = pending d' w + (if d = d' then 1 else 0)"
  "bytes d' (observations_start d w) = bytes d' w"
  by (auto simp: observations_start_def Let_def obs_simps split: prod.splits)

lemma drop_pending [obs_simps]:
  "pending d' (pending_drop d w) = pending d' w - (if d = d' then 1 else 0)"
  "bytes d' (pending_drop d w) = bytes d' w"
  by (auto simp: pending_drop_def obs_simps)

lemma transferred_counts [obs_simps]:
  "pending d' (transferred d n w) = pending d' w"
  "bytes d' (transferred d n w) = bytes d' w + (if d = d' then of_nat n else 0)"
  by (auto simp: transferred_def Let_def obs_simps split: prod.splits)

lemma failed_counts [obs_simps]:
  "pending d' (failed d e w) = pending d' w"
  "bytes d' (failed d e w) = bytes d' w"
  by (auto simp: failed_def obs_simps)

section \<open>Sequences of calls\<close>

text \<open>Producers and consumers of events, in any order; the consumers keep what they take.\<close>

datatype queue_call = Record event | Take

fun queue_run :: "queue_call list \<Rightarrow> timed_event list \<times> obs_world \<Rightarrow> timed_event list \<times> obs_world" where
  "queue_run [] x = x"
| "queue_run (Record e # calls) (taken, w) = queue_run calls (taken, observations_record e w)"
| "queue_run (Take # calls) (taken, w) = (case take_events w of
     (es, w') \<Rightarrow> queue_run calls (taken @ es, w'))"

definition queue_inv :: "nat \<Rightarrow> u64 \<Rightarrow> timed_event list \<times> obs_world \<Rightarrow> bool" where
  "queue_inv capacity calls_made = (\<lambda>(taken, w). obs_event_capacity (ow_obs w) = capacity
     \<and> length (obs_events (ow_obs w)) \<le> capacity
     \<and> (capacity \<noteq> 0 \<longrightarrow>
         of_nat (length taken + length (obs_events (ow_obs w))) + obs_lost_events (ow_obs w) = calls_made))"

lemma record_capacity [obs_simps]:
  "obs_event_capacity (ow_obs (observations_record e w)) = obs_event_capacity (ow_obs w)"
  by (auto simp: observations_record_def obs_try_lock_def obs_elapsed_def time_simps Let_def
      split: list.splits prod.splits)

lemma record_inv: "queue_inv capacity calls_made (taken, w) \<Longrightarrow> queue_inv capacity (calls_made + 1) (taken, observations_record e w)"
  by (auto simp: queue_inv_def observations_record_def obs_try_lock_def obs_elapsed_def time_simps Let_def
      split: list.splits prod.splits)

lemma queue_run_inv:
  "queue_inv capacity calls_made x \<Longrightarrow> queue_inv capacity (calls_made + of_nat (length (filter (\<lambda>c. c \<noteq> Take) calls))) (queue_run calls x)"
proof (induction calls x arbitrary: calls_made rule: queue_run.induct)
  case (2 e calls taken w)
  from 2(1)[OF record_inv[OF 2(2)]] show ?case by (simp add: add.assoc)
next
  case (3 calls taken w)
  then have "queue_inv capacity calls_made (case take_events w of (es, w') \<Rightarrow> (taken @ es, w'))"
    by (simp add: take_events_def queue_inv_def)
  with 3 show ?case by (simp add: take_events_def)
qed simp

text \<open>Polls of one asynchronous adapter, in any order.\<close>

datatype poll_call = Poll_Read nat | Poll_Write nat | Poll_Flush | Poll_Shutdown

fun async_call :: "'s poll_ops \<Rightarrow> poll_call \<Rightarrow> 's async_io \<times> obs_world \<Rightarrow> 's async_io \<times> obs_world" where
  "async_call ops (Poll_Read n) (a, w) = snd (async_poll_read ops n a w)"
| "async_call ops (Poll_Write n) (a, w) = snd (async_poll_write ops n a w)"
| "async_call ops Poll_Flush (a, w) = snd (async_poll_flush ops a w)"
| "async_call ops Poll_Shutdown (a, w) = snd (async_poll_shutdown ops a w)"

definition gauge_ok :: "(direction \<Rightarrow> nat) \<Rightarrow> 's async_io \<times> obs_world \<Rightarrow> bool" where
  "gauge_ok others = (\<lambda>(a, w). \<forall>d. pending d w = others d + (if aio_pending d a then 1 else 0))"

lemma aio_simps [simp]:
  "aio_pending d (aio_set_pending d' b a) = (if d = d' then b else aio_pending d a)"
  "aio_pending d (aio_set_inner s a) = aio_pending d a"
  "aio_pending d (a\<lparr>aio_io := io\<rparr>) = aio_pending d a"
  by (auto simp: aio_pending_def aio_set_pending_def aio_set_inner_def split: direction.splits)

lemma begin_gauge: "async_begin d a w = (a', w') \<Longrightarrow> gauge_ok others (a, w) \<Longrightarrow> gauge_ok others (a', w')"
  by (auto simp: gauge_ok_def async_begin_def obs_simps split: if_splits)

lemma end_gauge:
  "async_end d a w = (a', w') \<Longrightarrow> gauge_ok others (a, w) \<Longrightarrow>
    gauge_ok others (a', w') \<and> (\<forall>d'. aio_pending d' a' \<longleftrightarrow> d' \<noteq> d \<and> aio_pending d' a)"
  by (auto simp: gauge_ok_def async_end_def obs_simps split: if_splits)

lemma gauge_effects [obs_simps]:
  "gauge_ok others (aio_set_inner s a, w) = gauge_ok others (a, w)"
  "gauge_ok others (a\<lparr>aio_io := io\<rparr>, w) = gauge_ok others (a, w)"
  "gauge_ok others (a, transferred d n w) = gauge_ok others (a, w)"
  "gauge_ok others (a, failed d e w) = gauge_ok others (a, w)"
  "gauge_ok others (a, observations_record ev w) = gauge_ok others (a, w)"
  by (simp_all add: gauge_ok_def obs_simps)

lemma async_poll_gauge:
  assumes "gauge_ok others (a, w)"
  shows "gauge_ok others (snd (async_poll_unit call a w))"
    and "gauge_ok others (snd (async_poll_read ops n a w))"
    and "gauge_ok others (snd (async_poll_write ops n a w))"
  using assms
  by (auto simp: async_poll_unit_def async_poll_read_def async_poll_write_def Let_def obs_simps
      split: prod.splits option.splits sum.splits dest!: begin_gauge[of _ a w] end_gauge)

lemma async_call_gauge: "gauge_ok others x \<Longrightarrow> gauge_ok others (async_call ops call x)"
  by (cases x; cases call)
     (simp_all add: async_poll_gauge async_poll_flush_def async_poll_shutdown_def)

lemma async_calls_gauge: "gauge_ok others x \<Longrightarrow> gauge_ok others (fold (async_call ops) calls x)"
  by (induction calls arbitrary: x) (simp_all add: async_call_gauge)

lemma async_drop_gauge:
  assumes "gauge_ok others (a, w)"
  shows "pending d (async_drop a w) = others d"
proof -
  obtain a1 w1 where e1: "async_end Direction_Read a w = (a1, w1)" by force
  obtain a2 w2 where e2: "async_end Direction_Write a1 w1 = (a2, w2)" by force
  note g1 = end_gauge[OF e1 assms]
  note g2 = end_gauge[OF e2 conjunct1[OF g1]]
  then have "\<not> aio_pending d a2" using g1 by (cases d) auto
  with g2 e1 e2 show ?thesis
    by (simp add: async_drop_def observed_drop_def obs_simps gauge_ok_def)
qed

section \<open>Properties\<close>

text \<open>The event queue is bounded and honest.  However producers and consumers interleave, with or
  without contention, the queue never exceeds its capacity, and every event a producer recorded was
  taken, is still queued, or is counted as lost.\<close>

theorem events_are_accounted_for:
  assumes "0 < capacity"
    and "queue_run calls ([], \<lparr>ow_obs = fst (observations_new capacity c), ow_clock = c', ow_contended = busy\<rparr>)
      = (taken, w')"
  shows "length (obs_events (ow_obs w')) \<le> capacity
    \<and> of_nat (length taken + length (obs_events (ow_obs w'))) + obs_lost_events (ow_obs w')
        = of_nat (length (filter (\<lambda>c. c \<noteq> Take) calls))"
proof -
  have "queue_inv capacity 0 ([], \<lparr>ow_obs = fst (observations_new capacity c), ow_clock = c', ow_contended = busy\<rparr>)"
    by (simp add: queue_inv_def observations_new_def time_simps)
  from queue_run_inv[OF this, of calls] assms show ?thesis
    by (simp add: queue_inv_def)
qed

text \<open>Capacity one, two events of which a busy reader makes the first one lost, and a consumer.\<close>

definition small_queue :: obs_world where
  "small_queue = \<lparr>ow_obs = fst (observations_new 1 \<lparr>time = 3, delays = []\<rparr>),
     ow_clock = \<lparr>time = 4, delays = [2]\<rparr>, ow_contended = [True]\<rparr>"

theorem events_are_accounted_for_witness:
  "of_nat (length (fst (queue_run [Record Event_Rejected, Record Event_DrainStarted, Take] ([], small_queue)))
      + length (obs_events (ow_obs (snd (queue_run [Record Event_Rejected, Record Event_DrainStarted, Take] ([], small_queue))))))
    + obs_lost_events (ow_obs (snd (queue_run [Record Event_Rejected, Record Event_DrainStarted, Take] ([], small_queue))))
    = (2 :: u64)"
  using events_are_accounted_for[OF _ prod.collapse[symmetric],
      of 1 "[Record Event_Rejected, Record Event_DrainStarted, Take]" "\<lparr>time = 3, delays = []\<rparr>"
        "\<lparr>time = 4, delays = [2]\<rparr>" "[True]"]
  by (simp add: small_queue_def)

text \<open>C38: The blocking adapter is transparent: a read, write or flush through it answers exactly
  what the transport answers and leaves it in the same state.  The call no longer counts as pending
  when it returns, in either direction, and the bytes counted are the bytes transferred.\<close>

theorem observed_io_is_transparent:
  "(case observed_read ops n io w of (r, io', w') \<Rightarrow>
      tr_read ops n (oio_inner io) = (r, oio_inner io') \<and> pending d w' = pending d w
      \<and> bytes d w' = bytes d w + (case r of Inr k \<Rightarrow> if d = Direction_Read then of_nat k else 0 | Inl _ \<Rightarrow> 0))
   \<and> (case observed_write ops n io w of (r, io', w') \<Rightarrow>
      tr_write ops n (oio_inner io) = (r, oio_inner io') \<and> pending d w' = pending d w
      \<and> bytes d w' = bytes d w + (case r of Inr k \<Rightarrow> if d = Direction_Write then of_nat k else 0 | Inl _ \<Rightarrow> 0))
   \<and> (case observed_flush ops io w of (r, io', w') \<Rightarrow>
      tr_flush ops (oio_inner io) = (r, oio_inner io') \<and> pending d w' = pending d w \<and> bytes d w' = bytes d w)"
  by (auto simp: observed_read_def observed_write_def observed_flush_def Let_def obs_simps
      split: prod.splits sum.splits)

lemma async_new_gauge: "gauge_ok (\<lambda>d. pending d w) (async_new inner w)"
  by (auto simp: gauge_ok_def async_new_def observed_new_def aio_pending_def obs_simps split: direction.split)

text \<open>Pending calls of an asynchronous adapter are counted exactly: after any sequence of polls,
  completed or not, the gauge of each direction is what it was before the adapter was made plus one
  while the adapter has an unfinished call there; and dropping the adapter takes its share away.\<close>

theorem async_pending_is_exact:
  "case fold (async_call ops) calls (async_new inner w) of (a', w') \<Rightarrow>
     pending d w' = pending d w + (if aio_pending d a' then 1 else 0)
     \<and> pending d (async_drop a' w') = pending d w"
proof (cases "fold (async_call ops) calls (async_new inner w)")
  case (Pair a' w')
  with async_calls_gauge[OF async_new_gauge[of w inner], of ops calls] async_drop_gauge[of "\<lambda>d. pending d w" a' w' d]
  show ?thesis by (auto simp: gauge_ok_def)
qed

end
