(* ===== verification/Gate.thy ===== *)
theory Gate
  imports Rust_Prelude
begin

text \<open>
  The contract shared by everything in the crate that admits work and counts it until a guard is
  dropped: the request gate of \<^verbatim>\<open>lifecycle.rs\<close>, the session leases of \<^verbatim>\<open>generation.rs\<close> and the
  permits of \<^verbatim>\<open>admission.rs\<close>.  Its lemmas are about all interleavings of entering and leaving.
\<close>

datatype gate_op = Enter | Leave

text \<open>Clients of a gate: how many guards they hold, and the gate.  Only a held guard is dropped.\<close>

fun gate_run :: "('s \<Rightarrow> bool \<times> 's) \<Rightarrow> ('s \<Rightarrow> 's) \<Rightarrow> gate_op list \<Rightarrow> nat \<times> 's \<Rightarrow> nat \<times> 's" where
  "gate_run admit release [] x = x"
| "gate_run admit release (Enter # ops) (n, s) = (case admit s of
     (True, s') \<Rightarrow> gate_run admit release ops (Suc n, s')
   | (False, s') \<Rightarrow> gate_run admit release ops (n, s'))"
| "gate_run admit release (Leave # ops) (n, s) =
    (if n = 0 then gate_run admit release ops (n, s)
     else gate_run admit release ops (n - 1, release s))"

text \<open>\<^verbatim>\<open>admit\<close> says whether it handed out a guard; a refusal may leave a trace, but no guard.\<close>

locale counted_gate =
  fixes invar :: "'s \<Rightarrow> bool"
    and admit :: "'s \<Rightarrow> bool \<times> 's"
    and release :: "'s \<Rightarrow> 's"
    and active :: "'s \<Rightarrow> nat"
  assumes admit_counts: "invar s \<Longrightarrow> admit s = (True, s') \<Longrightarrow> invar s' \<and> active s' = active s + 1"
    and refuse_counts: "invar s \<Longrightarrow> admit s = (False, s') \<Longrightarrow> invar s' \<and> active s' = active s"
    and release_counts: "invar s \<Longrightarrow> 0 < active s \<Longrightarrow> invar (release s) \<and> active (release s) + 1 = active s"
begin

lemma run_counts:
  "invar s \<Longrightarrow> active s = n + others \<Longrightarrow> gate_run admit release ops (n, s) = (n', s') \<Longrightarrow>
    invar s' \<and> active s' = n' + others"
proof (induction ops arbitrary: n s)
  case (Cons op ops)
  show ?case
  proof (cases op)
    case Enter
    obtain ok s1 where admit: "admit s = (ok, s1)" by force
    then have "invar s1 \<and> active s1 = (if ok then Suc n else n) + others"
      using Cons.prems admit_counts[of s s1] refuse_counts[of s s1] by (cases ok) auto
    with Enter admit Cons.IH[of s1 "if ok then Suc n else n"] Cons.prems(3) show ?thesis
      by (cases ok) auto
  next
    case Leave
    show ?thesis
    proof (cases "n = 0")
      case False
      with Cons.prems release_counts[of s] have "invar (release s)" "active (release s) = n - 1 + others"
        by auto
      with False Leave Cons.IH[of "release s" "n - 1"] Cons.prems(3) show ?thesis by simp
    qed (use Leave Cons in simp)
  qed
qed simp

end

text \<open>A gate that can be closed, for good: nothing enters any more, but everything inside may leave.\<close>

locale closing_gate = counted_gate +
  fixes closed :: "'s \<Rightarrow> bool"
  assumes closed_refuses: "invar s \<Longrightarrow> closed s \<Longrightarrow> \<not> fst (admit s) \<and> closed (snd (admit s))"
    and open_admits: "invar s \<Longrightarrow> \<not> closed s \<Longrightarrow> fst (admit s)"
    and stays_closed: "invar s \<Longrightarrow> closed s \<Longrightarrow> 0 < active s \<Longrightarrow> closed (release s)"
begin

lemma closed_run:
  "invar s \<Longrightarrow> closed s \<Longrightarrow> active s = n + others \<Longrightarrow> gate_run admit release ops (n, s) = (n', s') \<Longrightarrow>
    closed s' \<and> n' = n - length (filter (\<lambda>op. op = Leave) ops)"
proof (induction ops arbitrary: n s)
  case (Cons op ops)
  consider "op = Leave" "n \<noteq> 0" | "op = Leave" "n = 0" | "op = Enter" by (cases op) auto
  then show ?case
  proof cases
    case 1
    then have "0 < active s" using Cons.prems by simp
    with Cons.prems 1 release_counts[of s] stays_closed[of s]
    have "invar (release s)" "closed (release s)" "active (release s) = n - 1 + others"
      by auto
    with 1 Cons.IH[of "release s" "n - 1"] Cons.prems(4) show ?thesis by auto
  next
    case 2
    with Cons.IH[of s n] Cons.prems show ?thesis by auto
  next
    case 3
    obtain ok s1 where admit: "admit s = (ok, s1)" by force
    with Cons.prems closed_refuses[of s] refuse_counts[of s s1]
    have "\<not> ok" "closed s1" "invar s1" "active s1 = n + others" by force+
    with 3 admit Cons.IH[of s1 n] Cons.prems(4) show ?thesis by auto
  qed
qed simp

text \<open>Closing drains: once as many guards were dropped as were held, none is left.\<close>

lemma closed_drains:
  assumes "invar s" "closed s" "active s = n"
    and "n \<le> length (filter (\<lambda>op. op = Leave) ops)"
    and "gate_run admit release ops (n, s) = (n', s')"
  shows "active s' = 0"
  using closed_run[of s n 0 ops n' s'] run_counts[of s n 0 ops n' s'] assms by simp

end

end
