(* ===== verification/Lifecycle.thy ===== *)
theory Lifecycle
  imports Gate Observation
begin

text \<open>
  The request admission gate (\<^verbatim>\<open>src/src/lifecycle.rs\<close>).  Every method locks the state, so each is
  one atomic step.  \<^verbatim>\<open>lc_changes\<close> counts the notifications sent on the watch channel; when a task
  waiting on that channel is polled again is up to the runtime, and a hypothesis where it matters.
\<close>

section \<open>State and operations\<close>

record lifecycle =
  lc_draining :: bool
  lc_active :: nat
  lc_drain_started :: "instant option"
  lc_changes :: nat
  lc_observations :: "obs_world option"
  lc_clock :: clock

record lifecycle_snapshot =
  lsnap_active :: nat
  lsnap_draining :: bool
  lsnap_draining_for :: "duration option"

datatype drain_outcome = DrainOutcome_Complete | DrainOutcome_TimedOut nat

definition lifecycle_default :: "clock \<Rightarrow> lifecycle" where
  "lifecycle_default c = \<lparr>lc_draining = False, lc_active = 0, lc_drain_started = None,
     lc_changes = 0, lc_observations = None, lc_clock = c\<rparr>"

definition lifecycle_observed :: "obs_world \<Rightarrow> clock \<Rightarrow> lifecycle" where
  "lifecycle_observed w c = (lifecycle_default c)\<lparr>lc_observations := Some w\<rparr>"

definition lifecycle_snapshot_of :: "lifecycle \<Rightarrow> lifecycle_snapshot \<times> lifecycle" where
  "lifecycle_snapshot_of l = (case lc_drain_started l of
     None \<Rightarrow> (\<lparr>lsnap_active = lc_active l, lsnap_draining = lc_draining l, lsnap_draining_for = None\<rparr>, l)
   | Some started \<Rightarrow>
       let (t, c) = instant_now (lc_clock l) in
       (\<lparr>lsnap_active = lc_active l, lsnap_draining = lc_draining l,
         lsnap_draining_for = Some (t - started)\<rparr>, l\<lparr>lc_clock := c\<rparr>))"

definition lifecycle_record :: "event \<Rightarrow> lifecycle \<Rightarrow> lifecycle" where
  "lifecycle_record e l = (case lc_observations l of
     None \<Rightarrow> l | Some w \<Rightarrow> l\<lparr>lc_observations := Some (observations_record e w)\<rparr>)"

definition send_replace :: "lifecycle \<Rightarrow> lifecycle" where
  "send_replace l = l\<lparr>lc_changes := lc_changes l + 1\<rparr>"

text \<open>\<^verbatim>\<open>begin\<close> says whether it handed out a guard.\<close>

definition lifecycle_begin :: "lifecycle \<Rightarrow> bool \<times> lifecycle" where
  "lifecycle_begin l = (if lc_draining l then (False, l) else (True, l\<lparr>lc_active := lc_active l + 1\<rparr>))"

definition start_drain :: "lifecycle \<Rightarrow> bool \<times> lifecycle" where
  "start_drain l =
    (if lc_draining l then (False, l)
     else
       let (t, c) = instant_now (lc_clock l);
           l = l\<lparr>lc_draining := True, lc_drain_started := Some t, lc_clock := c\<rparr>;
           l = lifecycle_record Event_DrainStarted l;
           l = (if lc_active l = 0 then lifecycle_record Event_DrainCompleted l else l) in
       (True, send_replace l))"

definition accepting_calls :: "lifecycle \<Rightarrow> bool" where
  "accepting_calls l \<longleftrightarrow> \<not> lc_draining l"

definition guard_drop :: "lifecycle \<Rightarrow> lifecycle" where
  "guard_drop l =
    (let l = l\<lparr>lc_active := lc_active l - 1\<rparr> in
     if lc_draining l \<and> lc_active l = 0
     then send_replace (lifecycle_record Event_DrainCompleted l) else l)"

text \<open>
  What \<^verbatim>\<open>draining\<close> and \<^verbatim>\<open>drain\<close> look at each time their task is polled, what \<^verbatim>\<open>unless_draining\<close>
  answers when polled (\<^const>\<open>None\<close> is \<^verbatim>\<open>Poll::Pending\<close>), and what \<^verbatim>\<open>drain_until\<close> reports, told
  whether \<^verbatim>\<open>drain\<close> finished before the deadline.
\<close>

definition draining_ready :: "lifecycle \<Rightarrow> bool" where
  "draining_ready l \<longleftrightarrow> lc_draining l"

definition drain_ready :: "lifecycle \<Rightarrow> bool" where
  "drain_ready l \<longleftrightarrow> lc_active l = 0"

definition unless_draining :: "lifecycle \<Rightarrow> 'a option \<Rightarrow> 'a option option" where
  "unless_draining l operation = (if draining_ready l then Some None else map_option Some operation)"

definition drain_until_outcome :: "bool \<Rightarrow> lifecycle \<Rightarrow> drain_outcome \<times> lifecycle" where
  "drain_until_outcome finished l =
    (if finished then (DrainOutcome_Complete, l)
     else if lc_active l = 0 then (DrainOutcome_Complete, l)
     else (DrainOutcome_TimedOut (lc_active l), lifecycle_record Event_DrainTimedOut l))"

section \<open>The gate\<close>

lemma record_simps [simp]:
  "lc_active (lifecycle_record e l) = lc_active l"
  "lc_draining (lifecycle_record e l) = lc_draining l"
  "lc_changes (lifecycle_record e l) = lc_changes l"
  by (simp_all add: lifecycle_record_def split: option.split)

lemma send_simps [simp]:
  "lc_active (send_replace l) = lc_active l"
  "lc_draining (send_replace l) = lc_draining l"
  "lc_changes (send_replace l) = lc_changes l + 1"
  by (simp_all add: send_replace_def)

lemma start_drain_simps [simp]:
  "lc_active (snd (start_drain l)) = lc_active l"
  "lc_draining (snd (start_drain l))"
  "lc_changes (snd (start_drain l)) = lc_changes l + (if lc_draining l then 0 else 1)"
  by (auto simp: start_drain_def Let_def time_simps)

lemma guard_drop_simps [simp]:
  "lc_active (guard_drop l) = lc_active l - 1"
  "lc_draining (guard_drop l) = lc_draining l"
  by (auto simp: guard_drop_def Let_def)

interpretation requests: closing_gate "\<lambda>_. True" lifecycle_begin guard_drop lc_active lc_draining
  by unfold_locales (auto simp: lifecycle_begin_def split: if_splits)

section \<open>A task waiting for the drain\<close>

text \<open>
  Requests beginning and ending, other callers draining, and the polls of one task inside
  \<^verbatim>\<open>drain\<close>, in any order: the guards held, the gate, and whether that task has returned.
\<close>

datatype drain_event = Begin | Drop | Drain_Elsewhere | Poll

fun drain_step :: "drain_event \<Rightarrow> nat \<times> lifecycle \<times> bool \<Rightarrow> nat \<times> lifecycle \<times> bool" where
  "drain_step Begin (n, l, ret) = (case lifecycle_begin l of (ok, l') \<Rightarrow> (if ok then n + 1 else n, l', ret))"
| "drain_step Drop (n, l, ret) = (if n = 0 then (n, l, ret) else (n - 1, guard_drop l, ret))"
| "drain_step Drain_Elsewhere (n, l, ret) = (n, snd (start_drain l), ret)"
| "drain_step Poll (n, l, ret) = (n, l, ret \<or> drain_ready l)"

text \<open>The runtime polls a waiting task after every notification sent on its channel.\<close>

fun polled_after_send :: "drain_event list \<Rightarrow> nat \<times> lifecycle \<times> bool \<Rightarrow> bool" where
  "polled_after_send [] s = True"
| "polled_after_send (e # es) s =
    ((lc_changes (fst (snd (drain_step e s))) \<noteq> lc_changes (fst (snd s)) \<longrightarrow> Poll \<in> set es)
     \<and> polled_after_send es (drain_step e s))"

lemma drained_stays:
  "lc_draining l \<Longrightarrow> lc_active l = 0 \<Longrightarrow> fold drain_step es (0, l, ret) = (n', l', ret') \<Longrightarrow>
    (Poll \<in> set es \<or> ret) \<longrightarrow> ret'"
proof (induction es arbitrary: l ret)
  case (Cons e es)
  then show ?case
    by (cases e) (auto simp: lifecycle_begin_def drain_ready_def start_drain_def)
qed simp

lemma drain_run_inv:
  "lc_draining l \<Longrightarrow> lc_active l = n \<Longrightarrow> fold drain_step es (n, l, ret) = (n', l', ret') \<Longrightarrow>
    lc_draining l' \<and> lc_active l' = n'"
proof (induction es arbitrary: n l ret)
  case (Cons e es)
  show ?case
  proof (cases "drain_step e (n, l, ret)")
    case (fields n1 l1 ret1)
    with Cons.prems have "lc_draining l1 \<and> lc_active l1 = n1"
      by (cases e) (auto simp: lifecycle_begin_def split: if_splits)
    with Cons.IH[of l1 n1 ret1] Cons.prems(3) fields show ?thesis by simp
  qed
qed simp

lemma waiter_returns:
  assumes "lc_draining l" and "lc_active l = n" and "lc_active l = 0 \<longrightarrow> ret"
    and "polled_after_send es (n, l, ret)"
    and "fold drain_step es (n, l, ret) = (n', l', ret')"
  shows "n' = 0 \<longrightarrow> ret'"
  using assms
proof (induction es arbitrary: n l ret)
  case (Cons e es)
  show ?case
  proof (cases "e = Drop \<and> n = 1")
    case True
    with Cons.prems have "drain_step e (n, l, ret) = (0, guard_drop l, ret)" "Poll \<in> set es"
      by (auto simp: guard_drop_def Let_def)
    with drained_stays[of "guard_drop l" es ret n' l' ret'] Cons.prems True show ?thesis by simp
  next
    case False
    show ?thesis
    proof (cases "drain_step e (n, l, ret)")
      case (fields n1 l1 ret1)
      with Cons.prems False have "lc_draining l1 \<and> lc_active l1 = n1 \<and> (lc_active l1 = 0 \<longrightarrow> ret1)"
        by (cases e) (auto simp: lifecycle_begin_def drain_ready_def split: if_splits)
      with Cons.IH[of l1 n1 ret1] Cons.prems(4, 5) fields show ?thesis by simp
    qed
  qed
qed simp

section \<open>Properties\<close>

text \<open>The request gate counts exactly and closes for good.  However requests begin and end, the
  gate's count is the number of guards held.  Once draining has started nothing is admitted any
  more, and the count reaches zero when the guards held at that moment have been dropped.\<close>

theorem request_gate_drains:
  assumes "gate_run lifecycle_begin guard_drop ops (0, lifecycle_default c) = (n, l)"
    and "gate_run lifecycle_begin guard_drop later (n, snd (start_drain l)) = (n', l')"
  shows "lc_active l = n \<and> lc_active l' = n' \<and> \<not> fst (lifecycle_begin l')
    \<and> n' = n - length (filter (\<lambda>op. op = Leave) later)"
proof -
  have "lc_active l = n"
    using requests.run_counts[of "lifecycle_default c" 0 0 ops n l] assms(1)
    by (simp add: lifecycle_default_def)
  then show ?thesis
    using requests.run_counts[of "snd (start_drain l)" n 0 later n' l']
      requests.closed_run[of "snd (start_drain l)" n 0 later n' l'] requests.closed_refuses[of l'] assms(2)
    by simp
qed

theorem request_gate_drains_witness:
  "case gate_run lifecycle_begin guard_drop [Leave, Enter, Leave]
      (2, snd (start_drain (snd (gate_run lifecycle_begin guard_drop [Enter, Enter]
        (0, lifecycle_default \<lparr>time = 0, delays = []\<rparr>))))) of (n', l') \<Rightarrow>
    lc_active l' = 0 \<and> \<not> fst (lifecycle_begin l')"
proof -
  have two: "gate_run lifecycle_begin guard_drop [Enter, Enter] (0, lifecycle_default \<lparr>time = 0, delays = []\<rparr>)
      = (2, (lifecycle_default \<lparr>time = 0, delays = []\<rparr>)\<lparr>lc_active := 2\<rparr>)"
    by (simp add: lifecycle_begin_def lifecycle_default_def)
  from request_gate_drains[OF two prod.collapse[symmetric], of "[Leave, Enter, Leave]"] two
  show ?thesis by (auto simp: case_prod_unfold)
qed

text \<open>C21: A drain misses no wakeup.  If the runtime polls a task inside the drain after every
  notification on its channel, then the task has returned by the time the last guard is gone,
  however requests end and other callers drain meanwhile, and whether or not work was active when
  the drain started.\<close>

theorem drain_returns:
  assumes "lc_active l = n"
    and "polled_after_send es (drain_step Poll (n, snd (start_drain l), False))"
    and "fold drain_step es (drain_step Poll (n, snd (start_drain l), False)) = (n', l', ret')"
    and "lc_active l' = 0"
  shows "ret'"
  using waiter_returns[of "snd (start_drain l)" n "drain_ready (snd (start_drain l))" es n' l' ret']
    drain_run_inv[of "snd (start_drain l)" n es "drain_ready (snd (start_drain l))" n' l' ret'] assms
  by (simp add: drain_ready_def)

theorem drain_returns_witness:
  "snd (snd (fold drain_step [Drop, Begin, Drop, Poll] (drain_step Poll
     (2, snd (start_drain ((lifecycle_default \<lparr>time = 0, delays = []\<rparr>)\<lparr>lc_active := 2\<rparr>)), False))))"
proof -
  let ?l = "(lifecycle_default \<lparr>time = 0, delays = []\<rparr>)\<lparr>lc_active := 2\<rparr>"
  obtain n' l' ret' where run: "fold drain_step [Drop, Begin, Drop, Poll]
      (drain_step Poll (2, snd (start_drain ?l), False)) = (n', l', ret')"
    using prod_cases3 by blast
  have "polled_after_send [Drop, Begin, Drop, Poll] (drain_step Poll (2, snd (start_drain ?l), False))"
    by code_simp
  moreover have "lc_active (fst (snd (fold drain_step [Drop, Begin, Drop, Poll]
      (drain_step Poll (2, snd (start_drain ?l), False))))) = 0"
    by code_simp
  ultimately show ?thesis
    using drain_returns[of ?l 2 "[Drop, Begin, Drop, Poll]" n' l' ret'] run by simp
qed

end
