(* ===== verification/Admission.thy ===== *)
theory Admission
  imports Gate
begin

text \<open>
  Independent, bounded capacity for handshakes, application and control traffic
  (\<^verbatim>\<open>src/src/admission.rs\<close>).  Each counter is one atomic, so each update is one step; occupancy and
  limits are machine words.
\<close>

datatype pool = Pool_Handshake | Pool_Application | Pool_Control

record limits =
  limits_handshakes :: usize
  limits_application :: usize
  limits_control :: usize

record pool_snapshot =
  pool_limit :: usize
  pool_active :: usize
  pool_rejected :: u64

record capacity =
  cap_limit :: usize
  cap_active :: usize
  cap_rejected :: u64

record permit =
  permit_pool :: pool

type_synonym admission = "capacity list"

definition limits_default :: limits where
  "limits_default = \<lparr>limits_handshakes = 32, limits_application = 256, limits_control = 32\<rparr>"

definition pool_index :: "pool \<Rightarrow> nat" where
  "pool_index p = (case p of Pool_Handshake \<Rightarrow> 0 | Pool_Application \<Rightarrow> 1 | Pool_Control \<Rightarrow> 2)"

definition admission_new :: "limits \<Rightarrow> admission" where
  "admission_new l = map (\<lambda>limit. \<lparr>cap_limit = limit, cap_active = 0, cap_rejected = 0\<rparr>)
     [limits_handshakes l, limits_application l, limits_control l]"

definition admission_try_acquire :: "pool \<Rightarrow> admission \<Rightarrow> permit option \<times> admission" where
  "admission_try_acquire p a =
    (let c = a ! pool_index p in
     if cap_active c < cap_limit c
     then (Some \<lparr>permit_pool = p\<rparr>, a[pool_index p := c\<lparr>cap_active := cap_active c + 1\<rparr>])
     else (None, a[pool_index p := c\<lparr>cap_rejected := cap_rejected c + 1\<rparr>]))"

definition admission_snapshot :: "pool \<Rightarrow> admission \<Rightarrow> pool_snapshot" where
  "admission_snapshot p a =
    (let c = a ! pool_index p in
     \<lparr>pool_limit = cap_limit c, pool_active = cap_active c, pool_rejected = cap_rejected c\<rparr>)"

definition permit_drop :: "permit \<Rightarrow> admission \<Rightarrow> admission" where
  "permit_drop permit a =
    (let i = pool_index (permit_pool permit); c = a ! i in a[i := c\<lparr>cap_active := cap_active c - 1\<rparr>])"

section \<open>The gates\<close>

instantiation pool :: "{finite, linorder}"
begin

definition less_eq_pool :: "pool \<Rightarrow> pool \<Rightarrow> bool" where
  "less_eq_pool p q \<longleftrightarrow> pool_index p \<le> pool_index q"

definition less_pool :: "pool \<Rightarrow> pool \<Rightarrow> bool" where
  "less_pool p q \<longleftrightarrow> pool_index p < pool_index q"

instance
proof
  show "finite (UNIV :: pool set)"
    by (rule finite_subset[of _ "{Pool_Handshake, Pool_Application, Pool_Control}"])
       (auto intro: pool.exhaust)
qed (auto simp: less_eq_pool_def less_pool_def pool_index_def split: pool.splits)

end

lemma pool_index_simps [simp]:
  "pool_index p = pool_index q \<longleftrightarrow> p = q" "pool_index p < 3"
  by (auto simp: pool_index_def split: pool.splits)

definition within_limits :: "admission \<Rightarrow> bool" where
  "within_limits a \<longleftrightarrow> length a = 3 \<and> (\<forall>p. cap_active (a ! pool_index p) \<le> cap_limit (a ! pool_index p))"

definition occupancy :: "pool \<Rightarrow> admission \<Rightarrow> nat" where
  "occupancy p a = unat (cap_active (a ! pool_index p))"

definition enter_pool :: "pool \<Rightarrow> admission \<Rightarrow> bool \<times> admission" where
  "enter_pool p a = (case admission_try_acquire p a of (permit, a') \<Rightarrow> (permit \<noteq> None, a'))"

definition leave_pool :: "pool \<Rightarrow> admission \<Rightarrow> admission" where
  "leave_pool p = permit_drop \<lparr>permit_pool = p\<rparr>"

lemma enter_pool_cases:
  assumes "enter_pool p a = (ok, a')" and "within_limits a"
  shows "within_limits a' \<and> (\<forall>q. occupancy q a' = occupancy q a + (if ok \<and> q = p then 1 else 0))
    \<and> (\<forall>q. cap_limit (a' ! pool_index q) = cap_limit (a ! pool_index q))
    \<and> (ok \<longleftrightarrow> occupancy p a < unat (cap_limit (a ! pool_index p)))"
  using assms word_inc[of "cap_active (a ! pool_index p)" "cap_limit (a ! pool_index p)"]
  by (auto simp: enter_pool_def admission_try_acquire_def Let_def within_limits_def occupancy_def
      nth_list_update word_less_nat_alt split: if_splits)

lemma leave_pool_cases:
  assumes "within_limits a" and "0 < occupancy p a"
  shows "within_limits (leave_pool p a)
    \<and> (\<forall>q. occupancy q (leave_pool p a) + (if q = p then 1 else 0) = occupancy q a)
    \<and> (\<forall>q. cap_limit (leave_pool p a ! pool_index q) = cap_limit (a ! pool_index q))"
  using assms word_dec[of "cap_active (a ! pool_index p)"]
  by (auto simp: leave_pool_def permit_drop_def Let_def within_limits_def occupancy_def
      nth_list_update intro: order_trans)

interpretation permits: counted_gate within_limits "enter_pool p" "leave_pool p" "occupancy p" for p
proof unfold_locales
  fix a a'
  assume "within_limits a" "enter_pool p a = (True, a')"
  then show "within_limits a' \<and> occupancy p a' = occupancy p a + 1"
    using enter_pool_cases[of p a True a'] by simp
next
  fix a a'
  assume "within_limits a" "enter_pool p a = (False, a')"
  then show "within_limits a' \<and> occupancy p a' = occupancy p a"
    using enter_pool_cases[of p a False a'] by simp
next
  fix a
  assume "within_limits a" "0 < occupancy p a"
  then show "within_limits (leave_pool p a) \<and> occupancy p (leave_pool p a) + 1 = occupancy p a"
    using leave_pool_cases[of a p] by metis
qed

section \<open>All pools together\<close>

text \<open>Sessions of every class coming and going: the permits held of each pool, and the counters.\<close>

fun pool_step :: "pool \<times> gate_op \<Rightarrow> (pool \<Rightarrow> nat) \<times> admission \<Rightarrow> (pool \<Rightarrow> nat) \<times> admission" where
  "pool_step (p, Enter) (held, a) = (case enter_pool p a of (ok, a') \<Rightarrow>
     (if ok then held(p := held p + 1) else held, a'))"
| "pool_step (p, Leave) (held, a) =
    (if held p = 0 then (held, a) else (held(p := held p - 1), leave_pool p a))"

definition limit_of :: "limits \<Rightarrow> pool \<Rightarrow> usize" where
  "limit_of l p = (case p of
     Pool_Handshake \<Rightarrow> limits_handshakes l | Pool_Application \<Rightarrow> limits_application l
   | Pool_Control \<Rightarrow> limits_control l)"

definition pools_ok :: "limits \<Rightarrow> (pool \<Rightarrow> nat) \<times> admission \<Rightarrow> bool" where
  "pools_ok l = (\<lambda>(held, a). within_limits a
     \<and> (\<forall>p. occupancy p a = held p \<and> cap_limit (a ! pool_index p) = limit_of l p))"

lemma pools_ok_new: "pools_ok l (\<lambda>_. 0, admission_new l)"
  by (auto simp: pools_ok_def within_limits_def admission_new_def occupancy_def limit_of_def pool_index_def
      split: pool.split)

lemma pool_step_ok: "pools_ok l s \<Longrightarrow> pools_ok l (pool_step op s)"
proof -
  assume ok: "pools_ok l s"
  obtain held a where s: "s = (held, a)" by (cases s)
  obtain p g where op: "op = (p, g)" by (cases op)
  show ?thesis
  proof (cases g)
    case Enter
    obtain entered a' where e: "enter_pool p a = (entered, a')" by force
    with enter_pool_cases[OF e] ok s op Enter show ?thesis by (auto simp: pools_ok_def)
  next
    case Leave
    have "occupancy q (leave_pool p a) = (held(p := held p - 1)) q" if "held p \<noteq> 0" for q
      using leave_pool_cases[of a p] ok that unfolding s pools_ok_def
      by (auto split: if_splits; metis add_diff_cancel_right')
    with leave_pool_cases[of a p] ok s op Leave show ?thesis
      by (auto simp: pools_ok_def)
  qed
qed

lemma pool_steps_ok: "pools_ok l s \<Longrightarrow> pools_ok l (fold pool_step ops s)"
  by (induction ops arbitrary: s) (simp_all add: pool_step_ok)

text \<open>The pools are bounded and independent.  However sessions of the three classes come and go,
  each pool's count is the number of permits held of it and never exceeds its limit, and a new
  permit is handed out exactly when that pool itself has room: exhausting application capacity
  never refuses control traffic.\<close>

theorem pools_are_independent:
  "case fold pool_step ops (\<lambda>_. 0, admission_new l) of (held, a) \<Rightarrow>
     unat (pool_active (admission_snapshot p a)) = held p \<and> held p \<le> unat (limit_of l p)
     \<and> (fst (admission_try_acquire p a) \<noteq> None \<longleftrightarrow> held p < unat (limit_of l p))"
proof (cases "fold pool_step ops (\<lambda>_. 0, admission_new l)")
  case (Pair held a)
  with pool_steps_ok[OF pools_ok_new, of l ops] have ok: "pools_ok l (held, a)" by simp
  then have "unat (cap_active (a ! pool_index p)) \<le> unat (cap_limit (a ! pool_index p))"
    by (auto simp: pools_ok_def within_limits_def simp flip: word_le_nat_alt)
  with ok have "held p \<le> unat (limit_of l p)"
    by (simp add: pools_ok_def occupancy_def)
  moreover have "fst (admission_try_acquire p a) \<noteq> None \<longleftrightarrow> held p < unat (limit_of l p)"
    using ok by (auto simp: admission_try_acquire_def Let_def pools_ok_def occupancy_def word_less_nat_alt)
  ultimately show ?thesis
    using Pair ok by (simp add: admission_snapshot_def Let_def pools_ok_def occupancy_def)
qed

end
