(* ===== verification/Generation.thy ===== *)
theory Generation
  imports Gate
begin

text \<open>
  Generation selection and session retirement (\<^verbatim>\<open>src/src/generation.rs\<close>, without the allocation of
  a new number, which is in the theory of the published records).  Every method holds the session
  lock, so each is one atomic step.  \<^verbatim>\<open>gen_changes\<close> counts the notifications sent.
\<close>

section \<open>State and operations\<close>

record generation =
  gen_own :: u64
  gen_selected :: u64
  gen_active :: nat
  gen_legacy :: nat
  gen_retired :: bool
  gen_superseded_since :: "instant option"
  gen_changes :: nat
  gen_started :: instant
  gen_staged :: bool
  gen_drain_limit :: "duration option"
  gen_clock :: clock

datatype retirement = Retirement_Idle | Retirement_DrainExpired nat nat

record generation_snapshot =
  gsnap_own :: u64
  gsnap_selected :: u64
  gsnap_active :: nat
  gsnap_legacy :: nat
  gsnap_retired :: bool
  gsnap_superseded_for :: "duration option"

record lease =
  lease_legacy :: bool

definition generation_new :: "u64 \<Rightarrow> u64 \<Rightarrow> bool \<Rightarrow> clock \<Rightarrow> generation" where
  "generation_new own selected staged c = (let (started, c) = instant_now c in
    \<lparr>gen_own = own, gen_selected = selected, gen_active = 0, gen_legacy = 0, gen_retired = False,
     gen_superseded_since = (if own < selected then Some started else None), gen_changes = 0,
     gen_started = started, gen_staged = staged, gen_drain_limit = None, gen_clock = c\<rparr>)"

definition with_drain_limit :: "duration \<Rightarrow> generation \<Rightarrow> generation" where
  "with_drain_limit limit g = g\<lparr>gen_drain_limit := Some limit\<rparr>"

definition gen_send :: "generation \<Rightarrow> generation" where
  "gen_send g = g\<lparr>gen_changes := gen_changes g + 1\<rparr>"

text \<open>\<^verbatim>\<open>since.elapsed()\<close>.\<close>

definition gen_elapsed :: "instant \<Rightarrow> generation \<Rightarrow> duration \<times> generation" where
  "gen_elapsed since g = (let (t, c) = instant_now (gen_clock g) in (t - since, g\<lparr>gen_clock := c\<rparr>))"

definition generation_select :: "u64 \<Rightarrow> generation \<Rightarrow> (io_error + unit) \<times> generation" where
  "generation_select selected g =
    (if gen_selected g \<le> selected then
       let previous = gen_selected g; g = g\<lparr>gen_selected := selected\<rparr> in
       if previous \<noteq> selected then
         let g = (if gen_own g < selected \<and> gen_superseded_since g = None
               then (let (t, c) = instant_now (gen_clock g) in
                 g\<lparr>gen_superseded_since := Some t, gen_clock := c\<rparr>)
               else g) in
         (Ok (), gen_send g)
       else (Ok (), g)
     else (Err (io_error_other ''generation selection moved backwards''), g))"

definition generation_admit :: "generation \<Rightarrow> lease option \<times> generation" where
  "generation_admit g =
    (if gen_retired g then (None, g)
     else (Some \<lparr>lease_legacy = False\<rparr>, g\<lparr>gen_active := gen_active g + 1\<rparr>))"

definition mark_legacy :: "lease \<Rightarrow> generation \<Rightarrow> lease \<times> generation" where
  "mark_legacy l g =
    (if lease_legacy l then (l, g)
     else (l\<lparr>lease_legacy := True\<rparr>, g\<lparr>gen_legacy := gen_legacy g + 1\<rparr>))"

definition lease_drop :: "lease \<Rightarrow> generation \<Rightarrow> generation" where
  "lease_drop l g = gen_send (g\<lparr>gen_active := gen_active g - 1,
     gen_legacy := (if lease_legacy l then gen_legacy g - 1 else gen_legacy g)\<rparr>)"

text \<open>The first guard of \<^verbatim>\<open>try_retire\<close>: a newer generation is selected, or this staged candidate
  was never selected and outlived its staging; the clock is read only for the latter.\<close>

definition retirable :: "duration \<Rightarrow> generation \<Rightarrow> bool \<times> generation" where
  "retirable staging_lifetime g =
    (if gen_own g < gen_selected g then (True, g)
     else if gen_staged g \<and> gen_selected g < gen_own g then
       let (e, g) = gen_elapsed (gen_started g) g in (staging_lifetime < e, g)
     else (False, g))"

definition drain_expired :: "generation \<Rightarrow> bool \<times> generation" where
  "drain_expired g = (case (gen_drain_limit g, gen_superseded_since g) of
     (Some limit, Some since) \<Rightarrow> (let (e, g) = gen_elapsed since g in (limit \<le> e, g))
   | _ \<Rightarrow> (False, g))"

definition try_retire :: "duration \<Rightarrow> bool \<Rightarrow> bool \<Rightarrow> generation \<Rightarrow> retirement option \<times> generation" where
  "try_retire staging_lifetime idle drain g =
    (let (eligible, g) = retirable staging_lifetime g in
     if \<not> eligible then (None, g)
     else
       let (expired, g) = (if drain then drain_expired g else (False, g));
           idle = (idle \<and> gen_active g = 0) in
       if \<not> (expired \<or> idle) then (None, g)
       else (Some (if gen_active g = 0 then Retirement_Idle
             else Retirement_DrainExpired (gen_active g) (gen_legacy g)), g\<lparr>gen_retired := True\<rparr>))"

definition retire_if_idle :: "duration \<Rightarrow> generation \<Rightarrow> bool \<times> generation" where
  "retire_if_idle staging_lifetime g =
    (let (r, g) = try_retire staging_lifetime True False g in (r \<noteq> None, g))"

definition retire :: "duration \<Rightarrow> generation \<Rightarrow> retirement option \<times> generation" where
  "retire staging_lifetime g = try_retire staging_lifetime True True g"

definition drain_remaining :: "generation \<Rightarrow> duration option \<times> generation" where
  "drain_remaining g = (case (gen_drain_limit g, gen_superseded_since g) of
     (Some limit, Some since) \<Rightarrow> (let (e, g) = gen_elapsed since g in (Some (limit - e), g))
   | _ \<Rightarrow> (None, g))"

definition generation_snapshot_of :: "generation \<Rightarrow> generation_snapshot \<times> generation" where
  "generation_snapshot_of g =
    (let (e, g) = (case gen_superseded_since g of
           None \<Rightarrow> (None, g)
         | Some since \<Rightarrow> (let (e, g) = gen_elapsed since g in (Some e, g))) in
     (\<lparr>gsnap_own = gen_own g, gsnap_selected = gen_selected g, gsnap_active = gen_active g,
       gsnap_legacy = gen_legacy g, gsnap_retired = gen_retired g, gsnap_superseded_for = e\<rparr>, g))"

text \<open>
  \<^verbatim>\<open>run_until_retired\<close>: one iteration.  \<^verbatim>\<open>refresh\<close> is the application's callback and \<^verbatim>\<open>sleep\<close> the
  wait for the given time or a notification; both act on the generation through whatever else runs
  meanwhile.
\<close>

definition retire_round :: "duration \<Rightarrow> duration \<Rightarrow> ('x \<times> generation \<Rightarrow> 'x \<times> generation)
    \<Rightarrow> (duration \<Rightarrow> 'x \<times> generation \<Rightarrow> 'x \<times> generation)
    \<Rightarrow> 'x \<times> generation \<Rightarrow> (retirement \<times> 'x \<times> generation, 'x \<times> generation) control" where
  "retire_round interval staging_lifetime refresh wait = (\<lambda>(x, g).
    case try_retire staging_lifetime False True g of
      (Some r, g) \<Rightarrow> Break (r, x, g)
    | (None, g) \<Rightarrow>
        let (x, g) = refresh (x, g) in
        (case retire staging_lifetime g of
          (Some r, g) \<Rightarrow> Break (r, x, g)
        | (None, g) \<Rightarrow>
            let (left, g) = drain_remaining g in
            Continue (wait (case left of None \<Rightarrow> interval | Some left \<Rightarrow> min left interval) (x, g))))"

definition run_until_retired :: "duration \<Rightarrow> duration \<Rightarrow> ('x \<times> generation \<Rightarrow> 'x \<times> generation)
    \<Rightarrow> (duration \<Rightarrow> 'x \<times> generation \<Rightarrow> 'x \<times> generation) \<Rightarrow> 'x \<times> generation
    \<Rightarrow> (retirement \<times> 'x \<times> generation) option" where
  "run_until_retired interval staging_lifetime refresh wait =
    iterate (retire_round interval staging_lifetime refresh wait)"

section \<open>Sessions, selections and retirement together\<close>

text \<open>Everything that happens to a generation, in any order, and the leases alive.  Time passes.\<close>

datatype gen_op =
    Select u64 | Admit | Mark_Legacy nat | Drop_Lease nat | Try_Retire duration bool bool | Wait duration

fun gen_step :: "gen_op \<Rightarrow> generation \<times> lease list \<Rightarrow> generation \<times> lease list" where
  "gen_step (Select e) (g, ls) = (snd (generation_select e g), ls)"
| "gen_step Admit (g, ls) = (case generation_admit g of (None, g) \<Rightarrow> (g, ls) | (Some l, g) \<Rightarrow> (g, l # ls))"
| "gen_step (Mark_Legacy i) (g, ls) =
    (if i < length ls then (case mark_legacy (ls ! i) g of (l, g) \<Rightarrow> (g, ls[i := l])) else (g, ls))"
| "gen_step (Drop_Lease i) (g, ls) =
    (if i < length ls then (lease_drop (ls ! i) g, take i ls @ drop (Suc i) ls) else (g, ls))"
| "gen_step (Try_Retire staging idle drain) (g, ls) = (snd (try_retire staging idle drain g), ls)"
| "gen_step (Wait d) (g, ls) = (g\<lparr>gen_clock := elapse d (gen_clock g)\<rparr>, ls)"

definition legacy_count :: "lease list \<Rightarrow> nat" where
  "legacy_count ls = length (filter lease_legacy ls)"

definition gen_inv :: "generation \<times> lease list \<Rightarrow> bool" where
  "gen_inv = (\<lambda>(g, ls). gen_active g = length ls \<and> gen_legacy g = legacy_count ls
     \<and> (gen_superseded_since g \<noteq> None \<longleftrightarrow> gen_own g < gen_selected g)
     \<and> gen_started g \<le> time (gen_clock g)
     \<and> (\<forall>t. gen_superseded_since g = Some t \<longrightarrow> t \<le> time (gen_clock g)))"

lemma legacy_count_split:
  "i < length ls \<Longrightarrow> legacy_count ls =
    legacy_count (take i ls @ drop (Suc i) ls) + (if lease_legacy (ls ! i) then 1 else 0)"
proof -
  assume "i < length ls"
  then have "legacy_count ls = legacy_count (take i ls @ ls ! i # drop (Suc i) ls)"
    by (rule arg_cong[OF id_take_nth_drop])
  then show ?thesis by (simp add: legacy_count_def)
qed

lemma legacy_count_update:
  "i < length ls \<Longrightarrow> \<not> lease_legacy (ls ! i) \<Longrightarrow>
    legacy_count (ls[i := l]) = legacy_count ls + (if lease_legacy l then 1 else 0)"
  using legacy_count_split[of i ls] legacy_count_split[of i "ls[i := l]"] by simp

lemma gen_elapsed_eq [time_simps]:
  "gen_elapsed since g = (time (tick (gen_clock g)) - since, g\<lparr>gen_clock := tick (gen_clock g)\<rparr>)"
  by (simp add: gen_elapsed_def time_simps)

lemmas retire_defs = try_retire_def retirable_def drain_expired_def

lemma retirable_keeps [simp]:
  "gen_own (snd (retirable staging g)) = gen_own g"
  "gen_selected (snd (retirable staging g)) = gen_selected g"
  "gen_active (snd (retirable staging g)) = gen_active g"
  "gen_legacy (snd (retirable staging g)) = gen_legacy g"
  "gen_retired (snd (retirable staging g)) = gen_retired g"
  "gen_superseded_since (snd (retirable staging g)) = gen_superseded_since g"
  "gen_started (snd (retirable staging g)) = gen_started g"
  "gen_drain_limit (snd (retirable staging g)) = gen_drain_limit g"
  "time (gen_clock g) \<le> time (gen_clock (snd (retirable staging g)))"
  by (auto simp: retirable_def time_simps)

lemma drain_expired_keeps [simp]:
  "gen_own (snd (drain_expired g)) = gen_own g"
  "gen_selected (snd (drain_expired g)) = gen_selected g"
  "gen_active (snd (drain_expired g)) = gen_active g"
  "gen_legacy (snd (drain_expired g)) = gen_legacy g"
  "gen_retired (snd (drain_expired g)) = gen_retired g"
  "gen_superseded_since (snd (drain_expired g)) = gen_superseded_since g"
  "gen_started (snd (drain_expired g)) = gen_started g"
  "gen_drain_limit (snd (drain_expired g)) = gen_drain_limit g"
  "time (gen_clock g) \<le> time (gen_clock (snd (drain_expired g)))"
  by (auto simp: drain_expired_def time_simps split: option.split)

lemma try_retire_eq:
  "try_retire staging idle drain g =
    (let g1 = snd (retirable staging g); g2 = (if drain then snd (drain_expired g1) else g1) in
     if \<not> fst (retirable staging g) then (None, g1)
     else if drain \<and> fst (drain_expired g1) \<or> idle \<and> gen_active g = 0
     then (Some (if gen_active g = 0 then Retirement_Idle
           else Retirement_DrainExpired (gen_active g) (gen_legacy g)), g2\<lparr>gen_retired := True\<rparr>)
     else (None, g2))"
  by (auto simp: try_retire_def Let_def case_prod_unfold)

lemma try_retire_keeps [simp]:
  "gen_own (snd (try_retire staging idle drain g)) = gen_own g"
  "gen_selected (snd (try_retire staging idle drain g)) = gen_selected g"
  "gen_active (snd (try_retire staging idle drain g)) = gen_active g"
  "gen_legacy (snd (try_retire staging idle drain g)) = gen_legacy g"
  "gen_superseded_since (snd (try_retire staging idle drain g)) = gen_superseded_since g"
  "gen_started (snd (try_retire staging idle drain g)) = gen_started g"
  "gen_drain_limit (snd (try_retire staging idle drain g)) = gen_drain_limit g"
  "gen_retired (snd (try_retire staging idle drain g)) \<longleftrightarrow>
     gen_retired g \<or> fst (try_retire staging idle drain g) \<noteq> None"
  by (simp_all add: try_retire_eq Let_def)

lemma try_retire_clock: "time (gen_clock g) \<le> time (gen_clock (snd (try_retire staging idle drain g)))"
  using order_trans[OF retirable_keeps(9) drain_expired_keeps(9), of g staging]
  by (simp add: try_retire_eq Let_def)

lemma gen_step_inv: "gen_inv s \<Longrightarrow> gen_inv (gen_step op s)"
proof -
  assume inv: "gen_inv s"
  obtain g ls where s: "s = (g, ls)" by (cases s)
  show ?thesis
  proof (cases op)
    case (Select e)
    with inv s show ?thesis
      by (auto simp: gen_inv_def generation_select_def Let_def time_simps gen_send_def)
  next
    case Admit
    with inv s show ?thesis
      by (auto simp: gen_inv_def generation_admit_def legacy_count_def)
  next
    case (Mark_Legacy i)
    with inv s show ?thesis
      by (auto simp: gen_inv_def mark_legacy_def legacy_count_update)
  next
    case (Drop_Lease i)
    with inv s legacy_count_split[of i ls] show ?thesis
      by (auto simp: gen_inv_def lease_drop_def gen_send_def)
  next
    case (Try_Retire staging idle drain)
    with inv s show ?thesis
      by (auto simp: gen_inv_def intro: order_trans[OF _ try_retire_clock])
  next
    case (Wait d)
    with inv s show ?thesis by (auto simp: gen_inv_def trans_le_add1)
  qed
qed

lemma gen_steps_inv: "gen_inv s \<Longrightarrow> gen_inv (fold gen_step ops s)"
  by (induction ops arbitrary: s) (simp_all add: gen_step_inv)

lemma gen_new_inv: "gen_inv (generation_new own selected staged c, [])"
  by (simp add: gen_inv_def generation_new_def time_simps legacy_count_def)

lemma gen_step_mono:
  "gen_selected (fst s) \<le> gen_selected (fst (gen_step op s))
    \<and> gen_own (fst (gen_step op s)) = gen_own (fst s)
    \<and> (gen_retired (fst s) \<longrightarrow> gen_retired (fst (gen_step op s)))"
  by (cases s; cases op)
     (auto simp: generation_select_def generation_admit_def mark_legacy_def lease_drop_def gen_send_def
       Let_def time_simps)

lemma gen_steps_mono:
  "gen_selected (fst s) \<le> gen_selected (fst (fold gen_step ops s))
    \<and> gen_own (fst (fold gen_step ops s)) = gen_own (fst s)
    \<and> (gen_retired (fst s) \<longrightarrow> gen_retired (fst (fold gen_step ops s)))"
proof (induction ops arbitrary: s)
  case (Cons op ops)
  from Cons.IH[of "gen_step op s"] gen_step_mono[of s op] show ?case by fastforce
qed simp

interpretation leases: closing_gate "\<lambda>_. True" "\<lambda>g. case generation_admit g of (l, g) \<Rightarrow> (l \<noteq> None, g)"
  "lease_drop \<lparr>lease_legacy = False\<rparr>" gen_active gen_retired
  by unfold_locales (auto simp: generation_admit_def lease_drop_def gen_send_def split: if_splits)

section \<open>Retirement\<close>

lemma retirable_why:
  assumes "fst (retirable staging g)"
  shows "gen_own g < gen_selected g \<or> gen_staged g \<and> gen_selected g < gen_own g
    \<and> gen_started g + staging < time (gen_clock (snd (retirable staging g)))"
  using assms by (auto simp: retirable_def time_simps split: if_splits)

lemma drain_expired_why:
  assumes "fst (drain_expired g)" and "\<forall>t. gen_superseded_since g = Some t \<longrightarrow> t \<le> time (gen_clock g)"
  shows "\<exists>limit since. gen_drain_limit g = Some limit \<and> gen_superseded_since g = Some since
    \<and> since + limit \<le> time (gen_clock (snd (drain_expired g)))"
proof -
  obtain limit since where "gen_drain_limit g = Some limit" "gen_superseded_since g = Some since"
    "limit \<le> time (tick (gen_clock g)) - since"
    using assms(1) by (auto simp: drain_expired_def time_simps split: option.splits)
  moreover from this assms(2) have "since \<le> time (tick (gen_clock g))" by simp
  ultimately show ?thesis
    by (auto simp: drain_expired_def time_simps le_diff_conv2 add.commute)
qed

lemma try_retire_why:
  assumes "try_retire staging idle drain g = (Some r, g')" and "gen_inv (g, ls)"
  shows "(gen_own g < gen_selected g \<or>
      gen_staged g \<and> gen_selected g < gen_own g \<and> gen_started g + staging < time (gen_clock g'))
    \<and> gen_retired g'
    \<and> (case r of
        Retirement_Idle \<Rightarrow> ls = []
      | Retirement_DrainExpired active legacy \<Rightarrow> ls \<noteq> [] \<and> active = length ls \<and> legacy = legacy_count ls
          \<and> drain \<and> (\<exists>limit since. gen_drain_limit g = Some limit \<and> gen_superseded_since g = Some since
              \<and> since + limit \<le> time (gen_clock g')))"
proof -
  define g1 where "g1 = snd (retirable staging g)"
  have el: "fst (retirable staging g)" and ex: "drain \<and> fst (drain_expired g1) \<or> idle \<and> gen_active g = 0"
    and r: "r = (if gen_active g = 0 then Retirement_Idle
      else Retirement_DrainExpired (gen_active g) (gen_legacy g))"
    and g': "g' = (if drain then snd (drain_expired g1) else g1)\<lparr>gen_retired := True\<rparr>"
    using assms(1) by (auto simp: try_retire_eq Let_def g1_def split: if_splits)
  have inv: "gen_active g = length ls" "gen_legacy g = legacy_count ls"
    "\<forall>t. gen_superseded_since g1 = Some t \<longrightarrow> t \<le> time (gen_clock g1)"
    using assms(2) order_trans[OF _ retirable_keeps(9)] by (auto simp: gen_inv_def g1_def)
  have "time (gen_clock g1) \<le> time (gen_clock g')"
    using drain_expired_keeps(9)[of g1] g' by simp
  with retirable_why[OF el] g' have "gen_own g < gen_selected g \<or>
      gen_staged g \<and> gen_selected g < gen_own g \<and> gen_started g + staging < time (gen_clock g')"
    unfolding g1_def by linarith
  moreover have "\<exists>limit since. gen_drain_limit g = Some limit \<and> gen_superseded_since g = Some since
      \<and> since + limit \<le> time (gen_clock g')" if "drain" "fst (drain_expired g1)"
    using drain_expired_why[OF that(2) inv(3)] that(1) g' by (simp add: g1_def)
  ultimately show ?thesis
    using r inv g' ex by auto
qed

text \<open>
  What the other tasks of the process may do to a generation while the retirement loop is in the
  application's refresh or in its own wait: anything the operations above do.
\<close>

definition gen_env :: "generation \<Rightarrow> generation \<Rightarrow> bool" where
  "gen_env g g' \<longleftrightarrow> gen_own g' = gen_own g \<and> gen_selected g \<le> gen_selected g'
     \<and> gen_drain_limit g' = gen_drain_limit g
     \<and> (\<forall>t. gen_superseded_since g = Some t \<longrightarrow> gen_superseded_since g' = Some t)
     \<and> time (gen_clock g) \<le> time (gen_clock g')"

lemma gen_step_env: "gen_env (fst s) (fst (gen_step op s))"
  using try_retire_clock
  by (cases s; cases op)
     (auto simp: gen_env_def generation_select_def generation_admit_def mark_legacy_def lease_drop_def
       gen_send_def Let_def time_simps)

lemma gen_env_trans: "gen_env g1 g2 \<Longrightarrow> gen_env g2 g3 \<Longrightarrow> gen_env g1 g3"
  by (auto simp: gen_env_def)

lemma try_retire_env: "gen_env g (snd (try_retire staging idle drain g))"
  using gen_step_env[of "(g, [])" "Try_Retire staging idle drain"] by simp

lemma drain_remaining_env: "gen_env g (snd (drain_remaining g))"
  by (auto simp: drain_remaining_def gen_env_def time_simps split: option.split)

text \<open>A wait lasts the time asked for, or one of finitely many notifications cuts it short.\<close>

definition gen_host :: "('x \<Rightarrow> nat) \<Rightarrow> ('x \<times> generation \<Rightarrow> 'x \<times> generation)
    \<Rightarrow> (duration \<Rightarrow> 'x \<times> generation \<Rightarrow> 'x \<times> generation) \<Rightarrow> bool" where
  "gen_host notifications refresh wait \<longleftrightarrow>
    (\<forall>x g x' g'. refresh (x, g) = (x', g') \<longrightarrow> gen_env g g' \<and> notifications x' \<le> notifications x)
    \<and> (\<forall>d x g x' g'. wait d (x, g) = (x', g') \<longrightarrow> gen_env g g'
      \<and> (notifications x' < notifications x
        \<or> notifications x' = notifications x \<and> time (gen_clock g) + d \<le> time (gen_clock g')))"

definition superseded :: "instant \<Rightarrow> duration \<Rightarrow> generation \<Rightarrow> bool" where
  "superseded since limit g \<longleftrightarrow> gen_own g < gen_selected g \<and> gen_superseded_since g = Some since
     \<and> gen_drain_limit g = Some limit \<and> since \<le> time (gen_clock g)"

lemma superseded_env: "superseded since limit g \<Longrightarrow> gen_env g g' \<Longrightarrow> superseded since limit g'"
  by (auto simp: superseded_def gen_env_def)

text \<open>A superseded generation that is not retired by a check of its drain limit had time left.\<close>

lemma not_retired_time_left:
  assumes "superseded since limit g" and "try_retire staging idle True g = (None, g')"
  shows "time (gen_clock g') < since + limit"
  using assms by (auto simp: superseded_def try_retire_eq Let_def retirable_def drain_expired_def time_simps
      split: if_splits)

definition retire_order :: "('x \<Rightarrow> nat) \<Rightarrow> instant \<Rightarrow> (('x \<times> generation) \<times> ('x \<times> generation)) set" where
  "retire_order notifications end =
    inv_image (less_than <*lex*> less_than) (\<lambda>(x, g). (notifications x, end - time (gen_clock g)))"

lemma wf_retire_order: "wf (retire_order notifications end)"
  by (simp add: retire_order_def wf_lex_prod)

lemma retired_by: "try_retire staging idle drain g = (Some r, g') \<Longrightarrow> gen_retired g'"
  using try_retire_keeps(8)[of staging idle drain g] by simp

lemma retire_round_breaks:
  assumes "retire_round interval staging refresh wait s = Break (r, x, g)"
  shows "gen_retired g"
  using assms by (auto simp: retire_round_def retire_def Let_def split: prod.splits option.splits dest: retired_by)

lemma retire_round_descends:
  assumes host: "gen_host notifications refresh wait" and "0 < interval"
    and sup: "superseded since limit g"
    and round: "retire_round interval staging refresh wait (x, g) = Continue s'"
  shows "superseded since limit (snd s') \<and> (s', (x, g)) \<in> retire_order notifications (since + limit)"
proof -
  obtain g1 where g1: "try_retire staging False True g = (None, g1)"
    using round by (auto simp: retire_round_def split: prod.splits option.splits)
  obtain x2 g2 where g2: "refresh (x, g1) = (x2, g2)" by fastforce
  obtain g3 where g3: "try_retire staging True True g2 = (None, g3)"
    using round g1 g2 by (auto simp: retire_round_def retire_def split: prod.splits option.splits)
  obtain left g4 where g4: "drain_remaining g3 = (left, g4)" by fastforce
  obtain x5 g5 where s': "s' = (x5, g5)" by fastforce
  have g5: "wait (case left of None \<Rightarrow> interval | Some left \<Rightarrow> min left interval) (x2, g4) = (x5, g5)"
    using round g1 g2 g3 g4 s' by (simp add: retire_round_def retire_def)
  have env12: "gen_env g g1" "gen_env g1 g2" "notifications x2 \<le> notifications x"
    using try_retire_env[of g staging False True] g1 host g2 by (auto simp: gen_host_def)
  have env34: "gen_env g2 g3" "gen_env g3 g4"
    using try_retire_env[of g2 staging True True] g3 drain_remaining_env[of g3] g4 by simp_all
  have env5: "gen_env g4 g5" using g5 host by (auto simp: gen_host_def)
  have sup2: "superseded since limit g2" and sup3: "superseded since limit g3"
    using sup env12 env34 superseded_env by blast+
  from not_retired_time_left[OF sup2 g3] have early: "time (gen_clock g3) < since + limit" .
  have left: "left = Some (since + limit - time (gen_clock g4))"
    using g4 sup3 by (auto simp: drain_remaining_def superseded_def time_simps)
  have "notifications x5 < notifications x2 \<or>
      notifications x5 = notifications x2 \<and>
      time (gen_clock g4) + min (since + limit - time (gen_clock g4)) interval \<le> time (gen_clock g5)"
    using g5 left host unfolding gen_host_def by simp
  moreover have "time (gen_clock g) \<le> time (gen_clock g3)" "time (gen_clock g3) \<le> time (gen_clock g4)"
    "time (gen_clock g4) \<le> time (gen_clock g5)"
    using env12 env34 env5 by (auto simp: gen_env_def)
  ultimately have "notifications x5 < notifications x \<or> notifications x5 = notifications x
      \<and> since + limit - time (gen_clock g5) < since + limit - time (gen_clock g)"
    using early \<open>0 < interval\<close> env12(3) by linarith
  moreover have "superseded since limit g5"
    using sup3 env34 env5 superseded_env by blast
  ultimately show ?thesis using s' by (auto simp: retire_order_def)
qed

section \<open>Properties\<close>

text \<open>For every history of a generation (selections, sessions admitted, marked legacy and
  dropped, attempts to retire, time passing), the session counter is the number of leases alive and
  the legacy counter the number of those marked, so that neither ever underflows; the drain clock
  runs exactly while a newer generation is selected; and the selection never moved backwards.\<close>

theorem sessions_are_accounted_for:
  "case fold gen_step ops (generation_new own selected staged c, []) of (g, ls) \<Rightarrow>
     gen_active g = length ls \<and> gen_legacy g = length (filter lease_legacy ls)
     \<and> gen_own g = own \<and> selected \<le> gen_selected g
     \<and> (gen_superseded_since g \<noteq> None \<longleftrightarrow> own < gen_selected g)"
  using gen_steps_inv[OF gen_new_inv, of ops own selected staged c]
    gen_steps_mono[of "(generation_new own selected staged c, [])" ops]
  by (auto simp: gen_inv_def legacy_count_def generation_new_def time_simps Let_def split: prod.split)


text \<open>The retirement loop of a superseded generation with a drain limit returns, whatever
  leases are never dropped: the refreshes and waits may run any of the operations above, and only
  finitely many notifications may cut a wait short.  When it returns, admission is closed.\<close>

theorem run_until_retired_returns:
  assumes "gen_host notifications refresh wait" and "0 < interval"
    and "gen_own g < gen_selected g" and "gen_superseded_since g = Some since"
    and "gen_drain_limit g = Some limit" and "since \<le> time (gen_clock g)"
  shows "\<exists>r x' g'. run_until_retired interval staging refresh wait (x, g) = Some (r, x', g')
    \<and> gen_retired g' \<and> fst (generation_admit g') = None"
proof -
  let ?round = "retire_round interval staging refresh wait"
  have "superseded since limit (snd s') \<and> (s', s) \<in> retire_order notifications (since + limit)"
    if "superseded since limit (snd s)" "?round s = Continue s'" for s s'
    using retire_round_descends[OF assms(1, 2), of since limit "snd s" staging "fst s" s'] that by simp
  moreover have "superseded since limit (snd (x, g))" using assms(3-6) by (simp add: superseded_def)
  ultimately have "\<exists>r. iterate ?round (x, g) = Some r"
    by (rule iterate_total[OF wf_retire_order, rotated])
  then obtain r x' g' where res: "iterate ?round (x, g) = Some (r, x', g')"
    by auto
  have "gen_retired (snd (snd (r, x', g')))"
    by (rule iterate_partial[OF res, of "\<lambda>_. True"]) (auto dest: retire_round_breaks)
  with res show ?thesis by (auto simp: run_until_retired_def generation_admit_def)
qed

theorem run_until_retired_returns_witness:
  "\<exists>r x' g'. run_until_retired 5 100 (\<lambda>s. s)
      (\<lambda>d (x, g). (x, g\<lparr>gen_clock := elapse d (gen_clock g)\<rparr>))
      ((), (generation_new 1 2 False \<lparr>time = 0, delays = []\<rparr>)\<lparr>gen_drain_limit := Some 30, gen_active := 1\<rparr>)
    = Some (r, x', g') \<and> gen_retired g' \<and> fst (generation_admit g') = None"
  by (rule run_until_retired_returns[of "\<lambda>_. 0" _ _ _ _ 0 30])
     (auto simp: gen_host_def gen_env_def generation_new_def time_simps tick_def)

end
