(* ===== verification/Monitor.thy ===== *)
theory Monitor
  imports Rust_Prelude "HOL-Library.Multiset"
begin

text \<open>
  What the blocking primitives of \<^verbatim>\<open>src/src/transport.rs\<close> use of the standard library: a condition
  variable, and the ordered map.  Every critical section is one atomic step; \<^verbatim>\<open>Condvar::wait\<close> ends
  one and, once the thread was woken, by a notification or spuriously, starts another.  Two
  contracts are shared by the components: a simulation between an implementation and its
  specification, and a monitor that loses no wakeup.
\<close>

section \<open>Condition variables\<close>

text \<open>The threads asleep in \<^verbatim>\<open>wait\<close>.\<close>

type_synonym thread = nat
type_synonym condvar = "thread list"

definition notify_all :: "condvar \<Rightarrow> condvar" where
  "notify_all cv = []"

definition condvar_wait :: "thread \<Rightarrow> condvar \<Rightarrow> condvar" where
  "condvar_wait t cv = (if t \<in> set cv then cv else t # cv)"

text \<open>A thread leaves \<^verbatim>\<open>wait\<close>.\<close>

definition condvar_leave :: "thread \<Rightarrow> condvar \<Rightarrow> condvar" where
  "condvar_leave t cv = filter (\<lambda>u. u \<noteq> t) cv"

lemma set_condvar [simp]:
  "notify_all cv = []"
  "set (condvar_wait t cv) = insert t (set cv)"
  "set (condvar_leave t cv) = set cv - {t}"
  by (auto simp: notify_all_def condvar_wait_def condvar_leave_def)

section \<open>Contracts\<close>

text \<open>An implementation simulates its specification, operation by operation.\<close>

locale simulation =
  fixes inv :: "'s \<Rightarrow> bool"
    and abs :: "'s \<Rightarrow> 'a"
    and impl :: "'op \<Rightarrow> 's \<Rightarrow> 's"
    and spec :: "'op \<Rightarrow> 'a \<Rightarrow> 'a"
  assumes inv_step: "inv s \<Longrightarrow> inv (impl op s)"
    and abs_step: "inv s \<Longrightarrow> abs (impl op s) = spec op (abs s)"
begin

lemma runs_simulate: "inv s \<Longrightarrow> inv (fold impl ops s) \<and> abs (fold impl ops s) = fold spec ops (abs s)"
proof (induction ops arbitrary: s)
  case (Cons op ops)
  from Cons.IH[OF inv_step[OF Cons.prems]] abs_step[OF Cons.prems] show ?case by simp
qed simp

lemmas runs_inv = runs_simulate[THEN conjunct1]
lemmas runs_abs = runs_simulate[THEN conjunct2]

end

text \<open>
  A monitor: \<^verbatim>\<open>must_sleep t s\<close> is the condition of the loop around the \<^verbatim>\<open>wait\<close> of thread \<^verbatim>\<open>t\<close>.
  Whoever makes it false must have woken the thread.
\<close>

locale monitor =
  fixes inv :: "'s \<Rightarrow> bool"
    and step :: "'op \<Rightarrow> 's \<Rightarrow> 's"
    and asleep :: "'s \<Rightarrow> thread set"
    and must_sleep :: "thread \<Rightarrow> 's \<Rightarrow> bool"
  assumes inv_kept: "inv s \<Longrightarrow> inv (step op s)"
    and wakes: "inv s \<Longrightarrow> (\<And>u. u \<in> asleep s \<Longrightarrow> must_sleep u s) \<Longrightarrow> t \<in> asleep (step op s) \<Longrightarrow>
      must_sleep t (step op s)"
begin

lemma no_lost_wakeup:
  "inv s \<Longrightarrow> asleep s = {} \<Longrightarrow> t \<in> asleep (fold step ops s) \<Longrightarrow> must_sleep t (fold step ops s)"
proof -
  have "inv (fold step ops s) \<and> (\<forall>u \<in> asleep (fold step ops s). must_sleep u (fold step ops s))"
    if "inv s" "\<forall>u \<in> asleep s. must_sleep u s" for s
    using that
  proof (induction ops arbitrary: s)
    case (Cons op ops)
    then have "\<forall>u \<in> asleep (step op s). must_sleep u (step op s)" using wakes by blast
    with Cons.IH[OF inv_kept[OF Cons.prems(1)]] show ?case by simp
  qed simp
  then show "inv s \<Longrightarrow> asleep s = {} \<Longrightarrow> t \<in> asleep (fold step ops s) \<Longrightarrow> must_sleep t (fold step ops s)"
    by auto
qed

end

section \<open>The ordered map\<close>

text \<open>A \<^verbatim>\<open>BTreeMap\<close> as its entries in the order of the keys.\<close>

type_synonym ('k, 'v) btree = "('k \<times> 'v) list"

fun btree_insert :: "'k::linorder \<Rightarrow> 'v \<Rightarrow> ('k, 'v) btree \<Rightarrow> ('k, 'v) btree" where
  "btree_insert k v [] = [(k, v)]"
| "btree_insert k v ((k', v') # m) =
    (if k < k' then (k, v) # (k', v') # m
     else if k = k' then (k, v) # m
     else (k', v') # btree_insert k v m)"

definition btree_remove :: "'k \<Rightarrow> ('k, 'v) btree \<Rightarrow> ('k, 'v) btree" where
  "btree_remove k m = filter (\<lambda>e. fst e \<noteq> k) m"

abbreviation btree_get :: "'k \<Rightarrow> ('k, 'v) btree \<Rightarrow> 'v option" where
  "btree_get k m \<equiv> map_of m k"

definition btree_ok :: "('k::linorder, 'v) btree \<Rightarrow> bool" where
  "btree_ok m \<longleftrightarrow> sorted_wrt (<) (map fst m)"

lemma btree_ok_Nil [simp]: "btree_ok []"
  by (simp add: btree_ok_def)

lemma btree_ok_Cons: "btree_ok (e # m) \<longleftrightarrow> (\<forall>x \<in> set m. fst e < fst x) \<and> btree_ok m"
  by (auto simp: btree_ok_def)

lemma btree_insert_keys: "set (map fst (btree_insert k v m)) = insert k (set (map fst m))"
  by (induction k v m rule: btree_insert.induct) (simp_all, blast)

lemma btree_insert_nonempty [simp]: "btree_insert k v m \<noteq> []"
  by (induction k v m rule: btree_insert.induct) simp_all

lemma btree_insert_ok [simp]: "btree_ok m \<Longrightarrow> btree_ok (btree_insert k v m)"
proof (induction m)
  case (Cons e m)
  have "fst e < fst x" if "x \<in> set (btree_insert k v m)" "\<not> k < fst e" "k \<noteq> fst e" for x
  proof -
    have "fst x \<in> insert k (set (map fst m))"
      using that(1) btree_insert_keys[of k v m] by (metis image_eqI set_map)
    with Cons.prems that(2, 3) show ?thesis by (auto simp: btree_ok_Cons)
  qed
  with Cons show ?case by (cases e) (auto simp: btree_ok_Cons)
qed (simp add: btree_ok_Cons)

lemma btree_remove_ok [simp]: "btree_ok m \<Longrightarrow> btree_ok (btree_remove k m)"
  by (induction m) (auto simp: btree_ok_Cons btree_remove_def)

lemma btree_get_insert [simp]: "btree_get k' (btree_insert k v m) = ((map_of m)(k \<mapsto> v)) k'"
  by (induction m) auto

lemma btree_get_remove [simp]: "btree_get k' (btree_remove k m) = ((map_of m)(k := None)) k'"
  by (induction m) (auto simp: btree_remove_def)

lemma btree_remove_insert [simp]: "btree_ok m \<Longrightarrow> btree_remove k (btree_insert k v m) = btree_remove k m"
proof (induction m)
  case (Cons e m)
  then show ?case by (cases e) (auto simp: btree_remove_def btree_ok_Cons)
qed (simp add: btree_remove_def)

text \<open>Keys with a count, as the list of every key, once per count.\<close>

definition repeated :: "('k, nat) btree \<Rightarrow> 'k list" where
  "repeated m = concat (map (\<lambda>(k, n). replicate n k) m)"

lemma repeated_Nil [simp]: "repeated [] = []"
  and repeated_Cons [simp]: "repeated ((k, n) # m) = replicate n k @ repeated m"
  by (simp_all add: repeated_def)

lemma set_repeated: "set (repeated m) \<subseteq> fst ` set m"
  by (force simp: repeated_def)

lemma sorted_repeated: "btree_ok m \<Longrightarrow> sorted (repeated m)"
proof (induction m)
  case (Cons e m)
  obtain k n where e: "e = (k, n)" by (cases e)
  have "k \<le> x" if "x \<in> set (repeated m)" for x
    using that set_repeated[of m] Cons.prems e by (force simp: btree_ok_Cons)
  with Cons e show ?case by (auto simp: btree_ok_Cons sorted_append)
qed simp

lemma count_repeated:
  "btree_ok m \<Longrightarrow> count (mset (repeated m)) k = (case btree_get k m of None \<Rightarrow> 0 | Some n \<Rightarrow> n)"
proof (induction m)
  case (Cons e m)
  obtain k' n where e: "e = (k', n)" by (cases e)
  have "map_of m k' = None"
    using Cons.prems e by (force simp: btree_ok_Cons map_of_eq_None_iff)
  with Cons e show ?case by (auto simp: btree_ok_Cons)
qed simp

lemma repeated_insert:
  assumes "btree_ok m"
  shows "mset (repeated (btree_insert k (case btree_get k m of None \<Rightarrow> 1 | Some n \<Rightarrow> n + 1) m))
    = add_mset k (mset (repeated m))"
  by (rule multiset_eqI) (use assms in \<open>auto simp: count_repeated split: option.split\<close>)

lemma repeated_decrement:
  assumes "btree_ok m" and "btree_get k m = Some n" and "0 < n"
  shows "mset (repeated (btree_insert k (n - 1) m)) = mset (repeated m) - {#k#}"
    and "n = 1 \<Longrightarrow> mset (repeated (btree_remove k m)) = mset (repeated m) - {#k#}"
  by (rule multiset_eqI; use assms in \<open>auto simp: count_repeated split: option.split\<close>)+

lemma repeated_sorted_list: "btree_ok m \<Longrightarrow> repeated m = sorted_list_of_multiset (mset (repeated m))"
  by (simp add: sorted_repeated sorted_sort_id)

lemma repeated_empty: "btree_ok m \<Longrightarrow> \<forall>n \<in> snd ` set m. 0 < n \<Longrightarrow> repeated m = [] \<longleftrightarrow> m = []"
  by (cases m) auto

end
