(* ===== verification/Outstanding.thy ===== *)
theory Outstanding
  imports Monitor
begin

text \<open>
  The requests in flight of a relayed session (\<^verbatim>\<open>Outstanding\<close> in \<^verbatim>\<open>src/src/transport.rs\<close>): the
  counted keys, the epochs, and the threads blocked until everything is settled.  Its
  specification is a multiset of keys per epoch.
\<close>

section \<open>State and operations\<close>

text \<open>\<^verbatim>\<open>OutstandingState\<close>, with the capacity and the condition variable beside it.  The counters of
  guards and waiters count objects that exist; the epoch wraps at 64 bits.\<close>

record 'k outstanding =
  out_keys :: "('k, nat) btree"
  out_tracked :: nat
  out_epoch :: u64
  out_overflowed :: bool
  out_failing :: nat
  out_transitions :: nat
  out_waiters :: nat
  out_changed :: condvar
  out_capacity :: nat

definition outstanding_new :: "nat \<Rightarrow> 'k outstanding" where
  "outstanding_new capacity = \<lparr>out_keys = [], out_tracked = 0, out_epoch = 0, out_overflowed = False,
     out_failing = 0, out_transitions = 0, out_waiters = 0, out_changed = [], out_capacity = capacity\<rparr>"

definition settled :: "'k outstanding \<Rightarrow> bool" where
  "settled s \<longleftrightarrow> \<not> out_overflowed s \<and> out_failing s = 0 \<and> out_transitions s = 0 \<and> out_keys s = []"

definition must_wake :: "'k outstanding \<Rightarrow> bool" where
  "must_wake s \<longleftrightarrow> 0 < out_waiters s \<and> settled s"

definition wake_if_settled :: "'k outstanding \<Rightarrow> 'k outstanding" where
  "wake_if_settled s = (if must_wake s then s\<lparr>out_changed := notify_all (out_changed s)\<rparr> else s)"

definition begin_request :: "'k::linorder \<Rightarrow> 'k outstanding \<Rightarrow> 'k outstanding" where
  "begin_request key s =
    (if out_tracked s < out_capacity s then
       s\<lparr>out_keys := btree_insert key (case btree_get key (out_keys s) of None \<Rightarrow> 1 | Some n \<Rightarrow> n + 1) (out_keys s),
         out_tracked := out_tracked s + 1\<rparr>
     else s\<lparr>out_overflowed := True\<rparr>)"

text \<open>One request less of a key with \<^verbatim>\<open>n\<close> of them.\<close>

definition settle_one :: "'k::linorder \<Rightarrow> nat \<Rightarrow> ('k, nat) btree \<Rightarrow> ('k, nat) btree" where
  "settle_one key n keys = (let keys = btree_insert key (n - 1) keys in
    if n - 1 = 0 then btree_remove key keys else keys)"

definition settle :: "u64 \<Rightarrow> 'k::linorder \<Rightarrow> 'k outstanding \<Rightarrow> 'k outstanding" where
  "settle epoch key s =
    (if epoch \<noteq> out_epoch s then s
     else case btree_get key (out_keys s) of
       None \<Rightarrow> s
     | Some n \<Rightarrow>
         wake_if_settled (s\<lparr>out_keys := settle_one key n (out_keys s), out_tracked := out_tracked s - 1\<rparr>))"

definition clear :: "'k outstanding \<Rightarrow> 'k outstanding" where
  "clear s = wake_if_settled
    (s\<lparr>out_keys := [], out_tracked := 0, out_epoch := out_epoch s + 1, out_overflowed := False\<rparr>)"

text \<open>\<^verbatim>\<open>fail\<close> hands out a guard with the keys taken.\<close>

definition fail :: "'k outstanding \<Rightarrow> ('k, nat) btree \<times> 'k outstanding" where
  "fail s = (out_keys s, s\<lparr>out_failing := out_failing s + 1, out_overflowed := False, out_tracked := 0,
     out_epoch := out_epoch s + 1, out_keys := []\<rparr>)"

definition failing_keys :: "('k, nat) btree \<Rightarrow> 'k list" where
  "failing_keys keys = concat (map (\<lambda>(key, n). replicate n key) keys)"

definition failing_drop :: "'k outstanding \<Rightarrow> 'k outstanding" where
  "failing_drop s = wake_if_settled (s\<lparr>out_failing := out_failing s - 1\<rparr>)"

definition transition :: "'k outstanding \<Rightarrow> 'k outstanding" where
  "transition s = s\<lparr>out_transitions := out_transitions s + 1\<rparr>"

definition transition_drop :: "'k outstanding \<Rightarrow> 'k outstanding" where
  "transition_drop s = wake_if_settled (s\<lparr>out_transitions := out_transitions s - 1\<rparr>)"

text \<open>
  \<^verbatim>\<open>wait_settled\<close> of a thread: the critical section from its call, and the one each time it is
  woken.  Both end with the test of the loop; the result says whether the call returned.
\<close>

definition wait_check :: "thread \<Rightarrow> 'k outstanding \<Rightarrow> bool \<times> 'k outstanding" where
  "wait_check t s =
    (if \<not> settled s then (False, s\<lparr>out_changed := condvar_wait t (out_changed s)\<rparr>)
     else (True, s\<lparr>out_waiters := out_waiters s - 1\<rparr>))"

definition wait_settled :: "thread \<Rightarrow> 'k outstanding \<Rightarrow> bool \<times> 'k outstanding" where
  "wait_settled t s = wait_check t (s\<lparr>out_waiters := out_waiters s + 1\<rparr>)"

definition wait_woken :: "thread \<Rightarrow> 'k outstanding \<Rightarrow> bool \<times> 'k outstanding" where
  "wait_woken t s = wait_check t (s\<lparr>out_changed := condvar_leave t (out_changed s)\<rparr>)"

section \<open>Sessions\<close>

text \<open>
  Everything clients, peers and coordinators do, in any order: a guard is dropped only while one
  is alive, a thread inside \<^verbatim>\<open>wait_settled\<close> does not call it again, and any thread inside may be
  woken at any time.  Beside the state: the threads inside, and the reports of failed requests.
\<close>

datatype 'k out_op =
    Begin 'k | Settle u64 'k | Clear | Fail | Drop_Failing | Start_Transition | Drop_Transition
  | Call_Wait thread | Wake thread

record 'k session =
  ses_out :: "'k outstanding"
  ses_inside :: "thread list"
  ses_reports :: "'k list list"

definition session_new :: "nat \<Rightarrow> 'k session" where
  "session_new capacity = \<lparr>ses_out = outstanding_new capacity, ses_inside = [], ses_reports = []\<rparr>"

definition ses_leave :: "thread \<Rightarrow> bool \<times> 'k outstanding \<Rightarrow> 'k session \<Rightarrow> 'k session" where
  "ses_leave t r s = s\<lparr>ses_out := snd r,
     ses_inside := (if fst r then remove1 t (ses_inside s) else ses_inside s)\<rparr>"

fun session_step :: "'k::linorder out_op \<Rightarrow> 'k session \<Rightarrow> 'k session" where
  "session_step (Begin k) s = s\<lparr>ses_out := begin_request k (ses_out s)\<rparr>"
| "session_step (Settle e k) s = s\<lparr>ses_out := settle e k (ses_out s)\<rparr>"
| "session_step Clear s = s\<lparr>ses_out := clear (ses_out s)\<rparr>"
| "session_step Fail s = (let (keys, out) = fail (ses_out s) in
     s\<lparr>ses_out := out, ses_reports := failing_keys keys # ses_reports s\<rparr>)"
| "session_step Drop_Failing s =
    (if out_failing (ses_out s) = 0 then s else s\<lparr>ses_out := failing_drop (ses_out s)\<rparr>)"
| "session_step Start_Transition s = s\<lparr>ses_out := transition (ses_out s)\<rparr>"
| "session_step Drop_Transition s =
    (if out_transitions (ses_out s) = 0 then s else s\<lparr>ses_out := transition_drop (ses_out s)\<rparr>)"
| "session_step (Call_Wait t) s =
    (if t \<in> set (ses_inside s) then s
     else ses_leave t (wait_settled t (ses_out s)) (s\<lparr>ses_inside := t # ses_inside s\<rparr>))"
| "session_step (Wake t) s =
    (if t \<in> set (ses_inside s) then ses_leave t (wait_woken t (ses_out s)) s else s)"

text \<open>The specification: one multiset of requests for the current epoch.\<close>

record 'k ledger =
  led_epoch :: u64
  led_requests :: "'k multiset"
  led_overflowed :: bool
  led_failing :: nat
  led_transitions :: nat
  led_reports :: "'k list list"

fun ledger_step :: "nat \<Rightarrow> 'k::linorder out_op \<Rightarrow> 'k ledger \<Rightarrow> 'k ledger" where
  "ledger_step capacity (Begin k) l =
    (if size (led_requests l) < capacity then l\<lparr>led_requests := add_mset k (led_requests l)\<rparr>
     else l\<lparr>led_overflowed := True\<rparr>)"
| "ledger_step capacity (Settle e k) l =
    (if e = led_epoch l then l\<lparr>led_requests := led_requests l - {#k#}\<rparr> else l)"
| "ledger_step capacity Clear l =
    l\<lparr>led_requests := {#}, led_epoch := led_epoch l + 1, led_overflowed := False\<rparr>"
| "ledger_step capacity Fail l =
    l\<lparr>led_reports := sorted_list_of_multiset (led_requests l) # led_reports l, led_requests := {#},
      led_epoch := led_epoch l + 1, led_overflowed := False, led_failing := led_failing l + 1\<rparr>"
| "ledger_step capacity Drop_Failing l = l\<lparr>led_failing := led_failing l - 1\<rparr>"
| "ledger_step capacity Start_Transition l = l\<lparr>led_transitions := led_transitions l + 1\<rparr>"
| "ledger_step capacity Drop_Transition l = l\<lparr>led_transitions := led_transitions l - 1\<rparr>"
| "ledger_step capacity (Call_Wait t) l = l"
| "ledger_step capacity (Wake t) l = l"

definition ledger_settled :: "'k ledger \<Rightarrow> bool" where
  "ledger_settled l \<longleftrightarrow> \<not> led_overflowed l \<and> led_failing l = 0 \<and> led_transitions l = 0 \<and> led_requests l = {#}"

definition ledger_of :: "'k::linorder session \<Rightarrow> 'k ledger" where
  "ledger_of s = (let out = ses_out s in
    \<lparr>led_epoch = out_epoch out, led_requests = mset (repeated (out_keys out)),
     led_overflowed = out_overflowed out, led_failing = out_failing out,
     led_transitions = out_transitions out, led_reports = ses_reports s\<rparr>)"

section \<open>Invariant\<close>

definition keys_ok :: "'k::linorder outstanding \<Rightarrow> bool" where
  "keys_ok s \<longleftrightarrow> btree_ok (out_keys s) \<and> (\<forall>k n. btree_get k (out_keys s) = Some n \<longrightarrow> 0 < n)
     \<and> out_tracked s = length (repeated (out_keys s)) \<and> out_tracked s \<le> out_capacity s"

definition session_ok :: "nat \<Rightarrow> 'k::linorder session \<Rightarrow> bool" where
  "session_ok capacity s \<longleftrightarrow> keys_ok (ses_out s) \<and> out_capacity (ses_out s) = capacity
     \<and> distinct (ses_inside s) \<and> out_waiters (ses_out s) = length (ses_inside s)
     \<and> set (out_changed (ses_out s)) \<subseteq> set (ses_inside s)"

lemma wake_if_settled_keeps [simp]:
  "out_keys (wake_if_settled s) = out_keys s"
  "out_tracked (wake_if_settled s) = out_tracked s"
  "out_epoch (wake_if_settled s) = out_epoch s"
  "out_overflowed (wake_if_settled s) = out_overflowed s"
  "out_failing (wake_if_settled s) = out_failing s"
  "out_transitions (wake_if_settled s) = out_transitions s"
  "out_waiters (wake_if_settled s) = out_waiters s"
  "out_capacity (wake_if_settled s) = out_capacity s"
  "settled (wake_if_settled s) = settled s"
  "out_changed (wake_if_settled s) = (if 0 < out_waiters s \<and> settled s then [] else out_changed s)"
  by (auto simp: wake_if_settled_def must_wake_def settled_def)

lemma keys_empty: "keys_ok s \<Longrightarrow> repeated (out_keys s) = [] \<longleftrightarrow> out_keys s = []"
proof (cases "out_keys s")
  case (Cons e m)
  assume "keys_ok s"
  moreover have "btree_get (fst e) (out_keys s) = Some (snd e)" using Cons by (cases e) simp
  ultimately have "0 < snd e" unfolding keys_ok_def by blast
  with Cons show ?thesis by (cases e) simp
qed simp

lemma size_repeated: "length (repeated m) = size (mset (repeated m))"
  by simp

lemma begin_keys_ok: "keys_ok s \<Longrightarrow> keys_ok (begin_request k s)"
  by (auto simp: keys_ok_def begin_request_def size_repeated repeated_insert simp del: size_mset
      split: option.splits if_splits)

lemma settle_some:
  assumes "keys_ok s" and "btree_get k (out_keys s) = Some n"
  shows "btree_ok (settle_one k n (out_keys s))"
    and "mset (repeated (settle_one k n (out_keys s))) = mset (repeated (out_keys s)) - {#k#}"
    and "k \<in># mset (repeated (out_keys s))"
    and "\<forall>k' n'. btree_get k' (settle_one k n (out_keys s)) = Some n' \<longrightarrow> 0 < n'"
proof -
  have ok: "btree_ok (out_keys s)" and "0 < n" using assms by (auto simp: keys_ok_def)
  show "btree_ok (settle_one k n (out_keys s))" using ok by (simp add: settle_one_def Let_def)
  show "mset (repeated (settle_one k n (out_keys s))) = mset (repeated (out_keys s)) - {#k#}"
    using repeated_decrement[OF ok assms(2) \<open>0 < n\<close>] \<open>0 < n\<close> ok by (auto simp: settle_one_def Let_def)
  show "k \<in># mset (repeated (out_keys s))"
    unfolding count_greater_zero_iff[symmetric] count_repeated[OF ok] using assms(2) \<open>0 < n\<close> by simp
  show "\<forall>k' n'. btree_get k' (settle_one k n (out_keys s)) = Some n' \<longrightarrow> 0 < n'"
    using assms(1) by (auto simp: settle_one_def Let_def keys_ok_def split: if_splits)
qed

lemma settle_none: "keys_ok s \<Longrightarrow> btree_get k (out_keys s) = None \<Longrightarrow> k \<notin># mset (repeated (out_keys s))"
  using count_repeated[of "out_keys s" k] by (simp add: keys_ok_def not_in_iff del: count_mset)

lemma settle_keys_ok: "keys_ok s \<Longrightarrow> keys_ok (settle e k s)"
proof (cases "btree_get k (out_keys s)")
  case (Some n)
  assume ok: "keys_ok s"
  note new = settle_some[OF ok Some]
  have "length (repeated (settle_one k n (out_keys s))) = length (repeated (out_keys s)) - 1"
    unfolding size_repeated new(2) using new(3) by (simp only: size_Diff_singleton)
  with ok new(1, 4) Some show ?thesis
    by (auto simp: settle_def keys_ok_def)
qed (simp add: settle_def)

lemmas out_defs = begin_request_def clear_def fail_def failing_drop_def transition_def transition_drop_def
  wait_settled_def wait_woken_def wait_check_def

lemma session_step_ok:
  assumes "session_ok capacity s"
  shows "session_ok capacity (session_step op s)"
proof (cases op)
  case (Begin k)
  with assms begin_keys_ok[of "ses_out s" k] show ?thesis
    by (auto simp: session_ok_def begin_request_def)
next
  case (Settle e k)
  with assms settle_keys_ok[of "ses_out s" e k] show ?thesis
    by (auto simp: session_ok_def settle_def split: option.splits)
next
  case (Call_Wait t)
  with assms show ?thesis
    by (auto simp: session_ok_def keys_ok_def out_defs ses_leave_def)
next
  case (Wake t)
  with assms show ?thesis
    by (auto simp: session_ok_def keys_ok_def out_defs ses_leave_def length_remove1)
qed (use assms in \<open>auto simp: session_ok_def keys_ok_def out_defs\<close>)

lemma ledger_simps:
  assumes "session_ok capacity s"
  shows "ledger_of (session_step op s) = ledger_step capacity op (ledger_of s)"
proof (cases op)
  case (Begin k)
  with assms show ?thesis
    by (auto simp: ledger_of_def session_ok_def keys_ok_def begin_request_def Let_def repeated_insert)
next
  case (Settle e k)
  have ok: "keys_ok (ses_out s)" using assms by (simp add: session_ok_def)
  from Settle settle_some(2)[OF ok] settle_none[OF ok] show ?thesis
    by (auto simp: ledger_of_def settle_def Let_def diff_single_trivial split: option.split)
next
  case Fail
  with assms show ?thesis
    by (auto simp: ledger_of_def session_ok_def keys_ok_def fail_def Let_def failing_keys_def
        simp flip: repeated_def sorted_list_of_multiset_mset intro: repeated_sorted_list)
qed (auto simp: ledger_of_def out_defs ses_leave_def Let_def)

interpretation ledger: simulation "session_ok capacity" ledger_of session_step "ledger_step capacity"
  for capacity
  by unfold_locales (fact session_step_ok ledger_simps)+

lemma session_new_ok: "session_ok capacity (session_new capacity)"
  by (simp add: session_ok_def session_new_def outstanding_new_def keys_ok_def)

text \<open>A thread inside \<^verbatim>\<open>wait_settled\<close> must sleep exactly until everything is settled.\<close>

lemma settle_wakes:
  "set (out_changed (settle e k s)) \<subseteq> set (out_changed s)
    \<and> (settled (settle e k s) \<longrightarrow> settled s \<or> out_waiters s = 0 \<or> out_changed (settle e k s) = [])"
  by (auto simp: settle_def split: option.split)

interpretation waiters: monitor "session_ok capacity" session_step
  "\<lambda>s. set (out_changed (ses_out s))" "\<lambda>_ s. \<not> settled (ses_out s)" for capacity
proof unfold_locales
  fix s t op
  assume ok: "session_ok capacity s"
    and sleep: "\<And>u. u \<in> set (out_changed (ses_out s)) \<Longrightarrow> \<not> settled (ses_out s)"
    and t: "t \<in> set (out_changed (ses_out (session_step op s)))"
  have inside: "0 < out_waiters (ses_out s)" if "u \<in> set (out_changed (ses_out s))" for u
    using ok that by (auto simp: session_ok_def)
  show "\<not> settled (ses_out (session_step op s))"
  proof (cases op)
    case (Settle e k)
    with t settle_wakes[of e k "ses_out s"] sleep inside show ?thesis by fastforce
  qed (use t sleep[of t] inside[of t] in \<open>auto simp: out_defs ses_leave_def settled_def split: if_splits\<close>)
qed (fact session_step_ok)

text \<open>The epoch counts the failures and clearings, modulo its width.\<close>

definition turnovers :: "'k out_op list \<Rightarrow> nat" where
  "turnovers ops = length (filter (\<lambda>op. case op of Clear \<Rightarrow> True | Fail \<Rightarrow> True | _ \<Rightarrow> False) ops)"

lemma ledger_epoch: "led_epoch (fold (ledger_step capacity) ops l) = led_epoch l + of_nat (turnovers ops)"
proof (induction ops arbitrary: l)
  case (Cons op ops)
  have "led_epoch (ledger_step capacity op l) = led_epoch l + of_nat (turnovers [op])"
    by (cases op) (simp_all add: turnovers_def)
  moreover have "turnovers (op # ops) = turnovers [op] + turnovers ops" by (simp add: turnovers_def)
  ultimately show ?case using Cons.IH[of "ledger_step capacity op l"] by (simp add: add.assoc)
qed (simp add: turnovers_def)

lemma of_nat_small_nonzero: "0 < n \<Longrightarrow> n < 2 ^ LENGTH('a) \<Longrightarrow> (of_nat n :: 'a::len word) \<noteq> 0"
  by (metis of_nat_inverse unat_0 less_irrefl)

section \<open>Properties\<close>

text \<open>C5: The requests in flight are a multiset per epoch.  Whatever clients, peers and coordinators
  do, in any order and with keys reused while in flight, the counted map, the tracked total, the
  epoch, the overflow flag and the guards are those of the specification; a failure reports every
  request in flight exactly once, in the order of the keys; and the set says it is settled exactly
  when the specification is.\<close>

theorem outstanding_refines_multiset:
  "case fold session_step ops (session_new capacity) of s \<Rightarrow>
     ledger_of s = fold (ledger_step capacity) ops (ledger_of (session_new capacity))
     \<and> out_tracked (ses_out s) = size (led_requests (ledger_of s))
     \<and> (settled (ses_out s) \<longleftrightarrow> ledger_settled (ledger_of s))"
proof -
  define s where "s = fold session_step ops (session_new capacity)"
  have "session_ok capacity s"
    unfolding s_def by (rule ledger.runs_inv[OF session_new_ok])
  then have "keys_ok (ses_out s)" by (simp add: session_ok_def)
  with keys_empty[OF this] have "out_tracked (ses_out s) = size (led_requests (ledger_of s))"
    "settled (ses_out s) \<longleftrightarrow> ledger_settled (ledger_of s)"
    by (auto simp: ledger_of_def keys_ok_def settled_def ledger_settled_def Let_def)
  with ledger.runs_abs[OF session_new_ok, of ops capacity] show ?thesis
    unfolding s_def by blast
qed



text \<open>A late reply settles nothing.  A reply that carries the epoch of a connection which
  started before at least one failure or clearing, and fewer than \<^verbatim>\<open>2^64\<close> of them, leaves the set
  as it is, even when a newer request reuses its key.\<close>

theorem stale_replies_settle_nothing:
  assumes "0 < turnovers ops" and "turnovers ops < 2 ^ 64"
    and "s = fold session_step before (session_new capacity)"
    and "s' = fold session_step ops s"
  shows "session_step (Settle (out_epoch (ses_out s)) k) s' = s'"
proof -
  have ok: "session_ok capacity s" unfolding assms(3) by (rule ledger.runs_inv[OF session_new_ok])
  have "led_epoch (ledger_of s') = led_epoch (ledger_of s) + of_nat (turnovers ops)"
    unfolding assms(4) ledger.runs_abs[OF ok] ledger_epoch ..
  then have "out_epoch (ses_out s') \<noteq> out_epoch (ses_out s)"
    using of_nat_small_nonzero[of "turnovers ops", where 'a = 64] assms(1, 2)
    by (simp add: ledger_of_def Let_def)
  then show ?thesis by (simp add: settle_def)
qed

theorem stale_replies_settle_nothing_witness:
  "session_step (Settle 0 1) (fold session_step [Fail, Begin (1::nat)] (fold session_step [Begin 1] (session_new 4)))
    = fold session_step [Fail, Begin 1] (fold session_step [Begin 1] (session_new 4))"
  using stale_replies_settle_nothing[of "[Fail, Begin (1::nat)]" _ "[Begin 1]" 4 _ 1, OF _ _ refl refl]
  by (simp add: turnovers_def session_new_def outstanding_new_def begin_request_def)

end
