(* ===== verification/Writer_Slot.thy ===== *)
theory Writer_Slot
  imports Monitor
begin

text \<open>
  The replaceable peer writer of a relayed session (\<^verbatim>\<open>WriterSlot\<close> in \<^verbatim>\<open>src/src/transport.rs\<close>).  The
  transport's writer is a parameter.  A thread inside \<^verbatim>\<open>write_observed\<close> that waits on the condition
  variable is in one of the stages of \<^verbatim>\<open>write_stage\<close>.
\<close>

section \<open>State and operations\<close>

text \<open>\<^verbatim>\<open>Write\<close> and \<^verbatim>\<open>WriteHalf\<close> of the transport.\<close>

record 'w write_half =
  wh_write_all :: "u8 list \<Rightarrow> 'w \<Rightarrow> (io_error + unit) \<times> 'w"
  wh_flush :: "'w \<Rightarrow> (io_error + unit) \<times> 'w"
  wh_shutdown_write :: "'w \<Rightarrow> (io_error + unit) \<times> 'w"

record 'w writer_slot =
  slot_generation :: u64
  slot_writer :: 'w
  slot_paused :: bool
  slot_at_boundary :: bool
  slot_written :: u64
  slot_failed :: bool
  slot_ended :: bool
  slot_closed :: bool
  slot_changed :: condvar

definition slot_new :: "'w \<Rightarrow> 'w writer_slot" where
  "slot_new w = \<lparr>slot_generation = 0, slot_writer = w, slot_paused = False, slot_at_boundary = True,
     slot_written = 0, slot_failed = False, slot_ended = False, slot_closed = False, slot_changed = []\<rparr>"

text \<open>\<^verbatim>\<open>replace_paused\<close> also drops a writer: the new one of a closed slot, otherwise the old one.  It
  is returned after its half-close.\<close>

definition replace_paused :: "'w write_half \<Rightarrow> 'w \<Rightarrow> u64 \<Rightarrow> 'w writer_slot \<Rightarrow> 'w \<times> 'w writer_slot" where
  "replace_paused ops w written s =
    (if slot_closed s then (snd (wh_shutdown_write ops w), s)
     else
       let old = slot_writer s;
           s = s\<lparr>slot_writer := w, slot_generation := slot_generation s + 1, slot_written := written,
                 slot_at_boundary := True, slot_failed := False, slot_paused := True\<rparr>;
           s = (if slot_ended s then s\<lparr>slot_writer := snd (wh_shutdown_write ops (slot_writer s))\<rparr> else s);
           s = s\<lparr>slot_changed := notify_all (slot_changed s)\<rparr> in
       (snd (wh_shutdown_write ops old), s))"

text \<open>\<^verbatim>\<open>try_pause\<close> does not wait for the lock: \<^verbatim>\<open>busy\<close> says that another thread holds it.\<close>

definition try_pause :: "bool \<Rightarrow> 'w writer_slot \<Rightarrow> u64 option \<times> 'w writer_slot" where
  "try_pause busy s =
    (if busy then (None, s)
     else if slot_paused s \<or> slot_failed s \<or> slot_ended s \<or> slot_closed s \<or> \<not> slot_at_boundary s
     then (None, s)
     else (Some (slot_written s), s\<lparr>slot_paused := True\<rparr>))"

definition resume :: "'w writer_slot \<Rightarrow> 'w writer_slot" where
  "resume s = s\<lparr>slot_paused := False, slot_changed := notify_all (slot_changed s)\<rparr>"

definition replace_with_offset :: "'w write_half \<Rightarrow> 'w \<Rightarrow> u64 \<Rightarrow> 'w writer_slot \<Rightarrow> 'w \<times> 'w writer_slot" where
  "replace_with_offset ops w written s = (let (dropped, s) = replace_paused ops w written s in (dropped, resume s))"

definition replace_slot :: "'w write_half \<Rightarrow> 'w \<Rightarrow> 'w writer_slot \<Rightarrow> 'w \<times> 'w writer_slot" where
  "replace_slot ops w s = replace_with_offset ops w 0 s"

definition shutdown_slot :: "'w write_half \<Rightarrow> 'w writer_slot \<Rightarrow> (io_error + unit) \<times> 'w writer_slot" where
  "shutdown_slot ops s = (let s = s\<lparr>slot_ended := True\<rparr>; (r, w) = wh_shutdown_write ops (slot_writer s) in
    (r, s\<lparr>slot_writer := w\<rparr>))"

definition close_slot :: "'w write_half \<Rightarrow> 'w writer_slot \<Rightarrow> (io_error + unit) \<times> 'w writer_slot" where
  "close_slot ops s = (let s = s\<lparr>slot_closed := True\<rparr>; (r, w) = wh_shutdown_write ops (slot_writer s) in
    (r, s\<lparr>slot_writer := w, slot_changed := notify_all (slot_changed s)\<rparr>))"

text \<open>The stages of \<^verbatim>\<open>write_observed\<close>: before or in the first wait, with the window; in the second
  wait, after a failed write to the given generation; and returned.\<close>

datatype write_stage = Parked "u8 list" | Awaiting_Replacement u64 | Written

text \<open>\<^verbatim>\<open>writer.write_all(bytes).and_then(|()| writer.flush())\<close>.\<close>

definition write_flush :: "'w write_half \<Rightarrow> u8 list \<Rightarrow> 'w \<Rightarrow> (io_error + unit) \<times> 'w" where
  "write_flush ops bytes w = (case wh_write_all ops bytes w of
     (Inl e, w) \<Rightarrow> (Err e, w)
   | (Inr _, w) \<Rightarrow> wh_flush ops w)"

text \<open>The test of the second loop.\<close>

definition await_replacement :: "thread \<Rightarrow> u64 \<Rightarrow> 'w writer_slot \<Rightarrow> write_stage \<times> 'w writer_slot" where
  "await_replacement t generation s =
    (if slot_generation s = generation \<and> \<not> slot_closed s
     then (Awaiting_Replacement generation, s\<lparr>slot_changed := condvar_wait t (slot_changed s)\<rparr>)
     else (Written, s))"

text \<open>From the test of the first loop; \<^verbatim>\<open>observe\<close> acts on the caller's state.\<close>

definition write_window :: "'w write_half \<Rightarrow> ('o \<Rightarrow> 'o) \<Rightarrow> thread \<Rightarrow> u8 list \<Rightarrow> 'w writer_slot \<times> 'o
    \<Rightarrow> write_stage \<times> 'w writer_slot \<times> 'o" where
  "write_window ops observe t bytes = (\<lambda>(s, obs).
    if slot_paused s \<and> \<not> slot_closed s
    then (Parked bytes, s\<lparr>slot_changed := condvar_wait t (slot_changed s)\<rparr>, obs)
    else if slot_closed s then (Written, s, obs)
    else
      let obs = observe obs; (r, w) = write_flush ops bytes (slot_writer s); s = s\<lparr>slot_writer := w\<rparr> in
      case r of
        Inr _ \<Rightarrow>
          let s = (case checked_add (slot_written s) (of_nat (length bytes)) of
                Some written \<Rightarrow> s\<lparr>slot_written := written\<rparr>
              | None \<Rightarrow> s\<lparr>slot_failed := True\<rparr>) in
          (Written, s\<lparr>slot_at_boundary := (bytes = [] \<or> last bytes = 10)\<rparr>, obs)
      | Inl _ \<Rightarrow>
          let s = s\<lparr>slot_failed := True, slot_writer := snd (wh_shutdown_write ops (slot_writer s))\<rparr>;
              (stage, s) = await_replacement t (slot_generation s) s in
          (stage, s, obs))"

text \<open>What a thread does when it enters or re-enters the critical section.\<close>

fun write_continue :: "'w write_half \<Rightarrow> ('o \<Rightarrow> 'o) \<Rightarrow> thread \<Rightarrow> write_stage \<Rightarrow> 'w writer_slot \<times> 'o
    \<Rightarrow> write_stage \<times> 'w writer_slot \<times> 'o" where
  "write_continue ops observe t (Parked bytes) (s, obs) = write_window ops observe t bytes
    (s\<lparr>slot_changed := condvar_leave t (slot_changed s)\<rparr>, obs)"
| "write_continue ops observe t (Awaiting_Replacement generation) (s, obs) =
    (let (stage, s) = await_replacement t generation (s\<lparr>slot_changed := condvar_leave t (slot_changed s)\<rparr>) in
     (stage, s, obs))"
| "write_continue ops observe t Written so = (Written, so)"

section \<open>Sessions\<close>

text \<open>
  Threads write windows while coordinators pause, resume, replace, end and close, in any order.
  A thread calls \<^verbatim>\<open>write_observed\<close> again only after the last call returned, and may be woken at any
  time.  The state has the stage of every thread and what the observation closures did, here the
  windows observed, latest first.
\<close>

datatype 'w slot_op =
    Write_Window thread "u8 list" | Wake_Writer thread | Replace_Paused 'w u64 | Try_Pause bool | Resume
  | Shutdown | Close

record 'w relay =
  rel_slot :: "'w writer_slot"
  rel_stage :: "thread \<Rightarrow> write_stage"
  rel_observed :: "u8 list list"

definition relay_new :: "'w \<Rightarrow> 'w relay" where
  "relay_new w = \<lparr>rel_slot = slot_new w, rel_stage = (\<lambda>_. Written), rel_observed = []\<rparr>"

definition relay_write :: "thread \<Rightarrow> write_stage \<times> 'w writer_slot \<times> u8 list list \<Rightarrow> 'w relay \<Rightarrow> 'w relay" where
  "relay_write t r s = (case r of (stage, slot, obs) \<Rightarrow>
    s\<lparr>rel_slot := slot, rel_stage := (rel_stage s)(t := stage), rel_observed := obs\<rparr>)"

text \<open>The window a parked thread holds, for its observation.\<close>

fun stage_window :: "write_stage \<Rightarrow> u8 list" where
  "stage_window (Parked bytes) = bytes"
| "stage_window (Awaiting_Replacement _) = []"
| "stage_window Written = []"

fun relay_step :: "'w write_half \<Rightarrow> 'w slot_op \<Rightarrow> 'w relay \<Rightarrow> 'w relay" where
  "relay_step ops (Write_Window t bytes) s =
    (if rel_stage s t \<noteq> Written then s
     else relay_write t (write_window ops (\<lambda>obs. bytes # obs) t bytes (rel_slot s, rel_observed s)) s)"
| "relay_step ops (Wake_Writer t) s =
    relay_write t (write_continue ops (\<lambda>obs. stage_window (rel_stage s t) # obs) t (rel_stage s t)
      (rel_slot s, rel_observed s)) s"
| "relay_step ops (Replace_Paused w written) s = s\<lparr>rel_slot := snd (replace_paused ops w written (rel_slot s))\<rparr>"
| "relay_step ops (Try_Pause busy) s = s\<lparr>rel_slot := snd (try_pause busy (rel_slot s))\<rparr>"
| "relay_step ops Resume s = s\<lparr>rel_slot := resume (rel_slot s)\<rparr>"
| "relay_step ops Shutdown s = s\<lparr>rel_slot := snd (shutdown_slot ops (rel_slot s))\<rparr>"
| "relay_step ops Close s = s\<lparr>rel_slot := snd (close_slot ops (rel_slot s))\<rparr>"

text \<open>A writer that keeps the byte count it started with and the windows it took, latest first.\<close>

type_synonym 'w recorded = "'w \<times> u64 \<times> u8 list list"

definition record_writer :: "'w write_half \<Rightarrow> 'w recorded write_half" where
  "record_writer ops = \<lparr>
     wh_write_all = (\<lambda>bytes (w, offset, windows). case wh_write_all ops bytes w of
         (Inr u, w) \<Rightarrow> (Inr u, w, offset, bytes # windows) | (Inl e, w) \<Rightarrow> (Inl e, w, offset, windows)),
     wh_flush = (\<lambda>(w, log). case wh_flush ops w of (r, w) \<Rightarrow> (r, w, log)),
     wh_shutdown_write = (\<lambda>(w, log). case wh_shutdown_write ops w of (r, w) \<Rightarrow> (r, w, log))\<rparr>"

fun record_op :: "'w slot_op \<Rightarrow> 'w recorded slot_op" where
  "record_op (Replace_Paused w written) = Replace_Paused (w, written, []) written"
| "record_op (Write_Window t bytes) = Write_Window t bytes"
| "record_op (Wake_Writer t) = Wake_Writer t"
| "record_op (Try_Pause busy) = Try_Pause busy"
| "record_op Resume = Resume"
| "record_op Shutdown = Shutdown"
| "record_op Close = Close"

section \<open>No lost wakeup\<close>

text \<open>The condition of the loop a thread waits in.\<close>

fun stage_waits :: "write_stage \<Rightarrow> 'w writer_slot \<Rightarrow> bool" where
  "stage_waits (Parked _) s \<longleftrightarrow> slot_paused s \<and> \<not> slot_closed s"
| "stage_waits (Awaiting_Replacement g) s \<longleftrightarrow> slot_generation s = g \<and> \<not> slot_closed s"
| "stage_waits Written s \<longleftrightarrow> False"

definition must_park :: "thread \<Rightarrow> 'w relay \<Rightarrow> bool" where
  "must_park t s = stage_waits (rel_stage s t) (rel_slot s)"

text \<open>The parts of a slot the conditions read, and that entering \<^verbatim>\<open>write_observed\<close> leaves alone.\<close>

definition slot_signals :: "'w writer_slot \<Rightarrow> u64 \<times> bool \<times> bool" where
  "slot_signals s = (slot_generation s, slot_paused s, slot_closed s)"

lemma stage_waits_signals: "slot_signals s = slot_signals s' \<Longrightarrow> stage_waits st s = stage_waits st s'"
  by (cases st) (auto simp: slot_signals_def)

lemma write_window_effect:
  assumes "write_window ops observe t bytes (s, obs) = (stage, s', obs')"
  shows "slot_signals s' = slot_signals s"
    and "set (slot_changed s') = set (slot_changed s) \<union> (if stage_waits stage s then {t} else {})"
  using assms
  by (auto simp: write_window_def await_replacement_def Let_def slot_signals_def
      split: if_splits prod.splits sum.splits option.splits)

lemma write_continue_effect:
  assumes "write_continue ops observe t st (s, obs) = (stage, s', obs')" and "st \<noteq> Written"
  shows "slot_signals s' = slot_signals s"
    and "set (slot_changed s') = set (slot_changed s) - {t} \<union> (if stage_waits stage s then {t} else {})"
proof -
  let ?s = "s\<lparr>slot_changed := condvar_leave t (slot_changed s)\<rparr>"
  have same: "slot_signals ?s = slot_signals s" by (simp add: slot_signals_def)
  have "slot_signals s' = slot_signals ?s
      \<and> set (slot_changed s') = set (slot_changed ?s) \<union> (if stage_waits stage ?s then {t} else {})"
  proof (cases st)
    case (Parked bytes)
    with assms(1) write_window_effect[of ops observe t bytes ?s obs stage s' obs'] show ?thesis by simp
  next
    case (Awaiting_Replacement g)
    with assms(1) show ?thesis by (auto simp: await_replacement_def Let_def slot_signals_def split: if_splits)
  qed (use assms(2) in simp)
  then show "slot_signals s' = slot_signals s"
    and "set (slot_changed s') = set (slot_changed s) - {t} \<union> (if stage_waits stage s then {t} else {})"
    using same stage_waits_signals[OF same, of stage] by simp_all
qed

lemma relay_write_parks:
  assumes sleep: "\<And>u. u \<in> set (slot_changed (rel_slot s)) \<Longrightarrow> must_park u s"
    and slot: "slot_signals slot = slot_signals (rel_slot s)"
    and asleep: "set (slot_changed slot) \<subseteq>
      set (slot_changed (rel_slot s)) - {u} \<union> (if stage_waits stage (rel_slot s) then {u} else {})"
    and t: "t \<in> set (slot_changed (rel_slot (relay_write u (stage, slot, obs) s)))"
  shows "must_park t (relay_write u (stage, slot, obs) s)"
  using t asleep sleep[of t] stage_waits_signals[OF slot]
  by (auto simp: relay_write_def must_park_def split: if_splits)

lemma relay_write_cases:
  assumes "\<And>u. u \<in> set (slot_changed (rel_slot s)) \<Longrightarrow> must_park u s"
    and "t \<in> set (slot_changed (rel_slot (relay_step ops op s)))"
    and "op = Write_Window u bytes \<or> op = Wake_Writer u"
  shows "must_park t (relay_step ops op s)"
proof -
  have awake: "u \<notin> set (slot_changed (rel_slot s))" if "rel_stage s u = Written"
    using assms(1)[of u] that by (auto simp: must_park_def)
  consider (call) "op = Write_Window u bytes" "rel_stage s u = Written"
    | (woken) "op = Wake_Writer u" "rel_stage s u \<noteq> Written"
    | (none) "relay_step ops op s = s"
    using assms(3) by (cases "rel_stage s u") (auto simp: relay_write_def fun_upd_idem)
  then show ?thesis
  proof cases
    case call
    obtain st slot obs where w: "write_window ops (\<lambda>obs. bytes # obs) u bytes (rel_slot s, rel_observed s)
        = (st, slot, obs)" by (metis prod_cases3)
    show ?thesis
      using relay_write_parks[OF assms(1) write_window_effect(1)[OF w], of u st t obs]
        write_window_effect(2)[OF w] awake[OF call(2)] assms(2) call w by auto
  next
    case woken
    obtain st slot obs where w: "write_continue ops (\<lambda>obs. stage_window (rel_stage s u) # obs) u (rel_stage s u)
        (rel_slot s, rel_observed s) = (st, slot, obs)" by (metis prod_cases3)
    show ?thesis
      using relay_write_parks[OF assms(1) write_continue_effect(1)[OF w woken(2)], of u st t obs]
        write_continue_effect(2)[OF w woken(2)] assms(2) woken w by auto
  qed (use assms(1, 2) in auto)
qed

interpretation writers: monitor "\<lambda>_. True" "relay_step half" "\<lambda>s. set (slot_changed (rel_slot s))" must_park
  for half
proof unfold_locales
  fix s t op
  assume sleep: "\<And>u. u \<in> set (slot_changed (rel_slot s)) \<Longrightarrow> must_park u s"
    and t: "t \<in> set (slot_changed (rel_slot (relay_step half op s)))"
  note writes = relay_write_cases[OF sleep t]
  show "must_park t (relay_step half op s)"
  proof (cases op)
    case Shutdown
    have "slot_signals (snd (shutdown_slot half (rel_slot s))) = slot_signals (rel_slot s)"
      by (simp add: slot_signals_def shutdown_slot_def Let_def split: prod.split)
    from stage_waits_signals[OF this] Shutdown t sleep[of t] show ?thesis
      by (simp add: must_park_def shutdown_slot_def Let_def split: prod.splits)
  next
    case (Try_Pause busy)
    with t sleep[of t] show ?thesis
      by (cases "rel_stage s t") (auto simp: must_park_def try_pause_def split: if_splits)
  next
    case (Replace_Paused w n)
    with t sleep[of t] show ?thesis
      by (auto simp: must_park_def replace_paused_def Let_def split: if_splits)
  qed (use writes t in \<open>auto simp: resume_def close_slot_def Let_def split: prod.splits\<close>)
qed simp

section \<open>What the current writer took\<close>

definition newline_ended :: "u8 list list \<Rightarrow> bool" where
  "newline_ended windows \<longleftrightarrow> (case windows of [] \<Rightarrow> True | window # _ \<Rightarrow> window = [] \<or> last window = 10)"

definition window_bytes :: "u8 list list \<Rightarrow> nat" where
  "window_bytes windows = sum_list (map length windows)"

text \<open>A slot whose writer did not fail knows exactly what that writer took.\<close>

definition slot_ok :: "'w recorded writer_slot \<Rightarrow> bool" where
  "slot_ok s \<longleftrightarrow> (case slot_writer s of (w, offset, windows) \<Rightarrow> \<not> slot_failed s \<longrightarrow>
     unat (slot_written s) = unat offset + window_bytes windows
     \<and> slot_at_boundary s = newline_ended windows)"

lemma record_shutdown: "snd (snd (wh_shutdown_write (record_writer ops) w)) = snd w"
  by (cases w) (simp add: record_writer_def split: prod.split)

lemma slot_ok_writer: "snd (slot_writer s') = snd (slot_writer s) \<Longrightarrow> slot_failed s' = slot_failed s
    \<Longrightarrow> slot_written s' = slot_written s \<Longrightarrow> slot_at_boundary s' = slot_at_boundary s \<Longrightarrow> slot_ok s' = slot_ok s"
  by (cases "slot_writer s"; cases "slot_writer s'") (simp add: slot_ok_def)

lemma shutdown_slot_ok: "slot_ok (snd (shutdown_slot (record_writer ops) s)) = slot_ok s"
  and close_slot_ok: "slot_ok (snd (close_slot (record_writer ops) s)) = slot_ok s"
  by (rule slot_ok_writer; simp add: shutdown_slot_def close_slot_def Let_def record_shutdown case_prod_unfold)+

lemma write_flush_record:
  assumes "write_flush (record_writer ops) bytes (w, offset, windows) = (Ok u, w')"
  shows "snd w' = (offset, bytes # windows)"
  using assms by (auto simp: write_flush_def record_writer_def split: prod.splits sum.splits)

lemma write_window_ok:
  assumes "write_window (record_writer ops) observe t bytes (s, obs) = (stage, s', obs')" and "slot_ok s"
    and "length bytes < 2 ^ 64"
  shows "slot_ok s'"
proof -
  obtain w offset windows where w: "slot_writer s = (w, offset, windows)" by (cases "slot_writer s")
  obtain r w' where f: "write_flush (record_writer ops) bytes (slot_writer s) = (r, w')" by (metis surj_pair)
  show ?thesis
  proof (cases "slot_paused s \<or> slot_closed s")
    case True
    with assms show ?thesis by (auto simp: write_window_def slot_ok_def split: if_splits)
  next
    case ready: False
    show ?thesis
    proof (cases r)
      case (Inl e)
      with ready assms(1) f have "slot_failed s'"
        by (auto simp: write_window_def Let_def await_replacement_def split: if_splits)
      then show ?thesis by (simp add: slot_ok_def split: prod.split)
    next
      case (Inr u)
      with f w write_flush_record[of ops bytes w offset windows u w'] have "snd w' = (offset, bytes # windows)" by simp
      with ready assms f w Inr show ?thesis
        by (cases w') (auto simp: write_window_def Let_def slot_ok_def window_bytes_def newline_ended_def
            checked_add_Some unat_of_nat take_bit_nat_eq_self split: option.splits)
    qed
  qed
qed

text \<open>Windows are slices, whose length is a \<^verbatim>\<open>usize\<close>.\<close>

definition small :: "u8 list \<Rightarrow> bool" where
  "small bytes \<longleftrightarrow> length bytes < 2 ^ 64"

fun small_op :: "'w slot_op \<Rightarrow> bool" where
  "small_op (Write_Window t bytes) \<longleftrightarrow> small bytes"
| "small_op _ \<longleftrightarrow> True"

definition relay_ok :: "'w recorded relay \<Rightarrow> bool" where
  "relay_ok s \<longleftrightarrow> slot_ok (rel_slot s) \<and> (\<forall>t. small (stage_window (rel_stage s t)))"

lemma write_window_stage: "write_window ops observe t bytes so = (stage, so') \<Longrightarrow> small bytes \<Longrightarrow> small (stage_window stage)"
  by (cases so) (auto simp: write_window_def Let_def await_replacement_def small_def split: if_splits prod.splits sum.splits)

lemma write_continue_ok:
  assumes "write_continue (record_writer ops) observe t st (s, obs) = (stage, s', obs')" and "slot_ok s"
    and "small (stage_window st)"
  shows "slot_ok s' \<and> small (stage_window stage)"
proof (cases st)
  case (Parked bytes)
  let ?s = "s\<lparr>slot_changed := condvar_leave t (slot_changed s)\<rparr>"
  have "slot_ok ?s" using assms(2) by (simp add: slot_ok_def)
  with assms(1, 3) Parked write_window_ok[of ops observe t bytes ?s obs stage s' obs']
    write_window_stage[of "record_writer ops" observe t bytes "(?s, obs)" stage] show ?thesis
    by (simp add: small_def)
next
  case (Awaiting_Replacement g)
  with assms show ?thesis
    by (auto simp: await_replacement_def Let_def slot_ok_def small_def split: if_splits)
next
  case Written
  with assms show ?thesis by (simp add: small_def)
qed

lemma relay_write_ok:
  "relay_ok s \<Longrightarrow> slot_ok slot \<Longrightarrow> small (stage_window stage) \<Longrightarrow> relay_ok (relay_write t (stage, slot, obs) s)"
  by (simp add: relay_ok_def relay_write_def)

lemma relay_step_ok:
  assumes "relay_ok s" and "small_op op"
  shows "relay_ok (relay_step (record_writer ops) (record_op op) s)"
proof (cases op)
  case (Write_Window t bytes)
  obtain st slot obs where w: "write_window (record_writer ops) (\<lambda>obs. bytes # obs) t bytes
      (rel_slot s, rel_observed s) = (st, slot, obs)" by (metis prod_cases3)
  have "slot_ok slot" "small (stage_window st)"
    using write_window_ok[OF w] write_window_stage[OF w] assms Write_Window
    by (simp_all add: relay_ok_def small_def)
  with Write_Window w relay_write_ok[OF assms(1), of slot st t obs] assms(1) show ?thesis by simp
next
  case (Wake_Writer t)
  obtain st slot obs where w: "write_continue (record_writer ops) (\<lambda>obs. stage_window (rel_stage s t) # obs) t
      (rel_stage s t) (rel_slot s, rel_observed s) = (st, slot, obs)" by (metis prod_cases3)
  have "slot_ok slot \<and> small (stage_window st)"
    using write_continue_ok[OF w] assms(1) by (simp add: relay_ok_def)
  with Wake_Writer w relay_write_ok[OF assms(1), of slot st t obs] show ?thesis by simp
next
  case (Replace_Paused w n)
  have "snd (snd (wh_shutdown_write (record_writer ops) (w, n, []))) = (n, [])"
    by (simp add: record_shutdown)
  with Replace_Paused assms(1) show ?thesis
    by (cases "snd (wh_shutdown_write (record_writer ops) (w, n, []))")
       (auto simp: relay_ok_def replace_paused_def Let_def slot_ok_def window_bytes_def newline_ended_def)
next
  case (Try_Pause busy)
  with assms(1) show ?thesis by (auto simp: relay_ok_def try_pause_def slot_ok_def)
next
  case Resume
  with assms(1) show ?thesis by (auto simp: relay_ok_def resume_def slot_ok_def)
next
  case Shutdown
  with assms(1) show ?thesis by (simp add: relay_ok_def shutdown_slot_ok)
next
  case Close
  with assms(1) show ?thesis by (simp add: relay_ok_def close_slot_ok)
qed

lemma relay_steps_ok:
  "relay_ok s \<Longrightarrow> list_all small_op es \<Longrightarrow> relay_ok (fold (relay_step (record_writer ops)) (map record_op es) s)"
  by (induction es arbitrary: s) (simp_all add: relay_step_ok)

lemma relay_new_ok: "relay_ok (relay_new (w, 0, []))"
  by (simp add: relay_ok_def relay_new_def slot_new_def slot_ok_def window_bytes_def newline_ended_def small_def)

text \<open>While the slot is paused nothing reaches the writer and nothing is observed.\<close>

lemma paused_slot_parks:
  assumes "slot_paused (rel_slot s)"
  shows "slot_writer (rel_slot (relay_step ops (Write_Window t bytes) s)) = slot_writer (rel_slot s)
    \<and> rel_observed (relay_step ops (Write_Window t bytes) s) = rel_observed s
    \<and> slot_writer (rel_slot (relay_step ops (Wake_Writer t) s)) = slot_writer (rel_slot s)
    \<and> rel_observed (relay_step ops (Wake_Writer t) s) = rel_observed s"
  using assms
  by (cases "rel_stage s t") (auto simp: relay_write_def write_window_def await_replacement_def Let_def)

lemma closed_slot_releases:
  assumes "slot_closed (rel_slot s)"
  shows "rel_stage (relay_step ops (Wake_Writer t) s) t = Written
    \<and> slot_writer (rel_slot (relay_step ops (Wake_Writer t) s)) = slot_writer (rel_slot s)
    \<and> rel_observed (relay_step ops (Wake_Writer t) s) = rel_observed s"
  using assms
  by (cases "rel_stage s t") (auto simp: relay_write_def write_window_def await_replacement_def Let_def)

section \<open>Properties\<close>


text \<open>No writer sleeps past its cause.  At every moment a thread asleep in \<^verbatim>\<open>write_observed\<close>
  either holds a window while the slot is paused, or waits for the replacement of the generation
  its write failed on, and the slot is not closed.  After a close every thread returns the next
  time it runs, without writing or observing anything.\<close>

theorem writers_are_released:
  "case fold (relay_step ops) es (relay_new w) of s \<Rightarrow>
     (t \<in> set (slot_changed (rel_slot s)) \<longrightarrow> \<not> slot_closed (rel_slot s) \<and> (case rel_stage s t of
        Parked _ \<Rightarrow> slot_paused (rel_slot s)
      | Awaiting_Replacement g \<Rightarrow> slot_generation (rel_slot s) = g
      | Written \<Rightarrow> False))
     \<and> (case relay_step ops (Wake_Writer t) (relay_step ops Close s) of s' \<Rightarrow>
          rel_stage s' t = Written \<and> rel_observed s' = rel_observed s
          \<and> slot_writer (rel_slot s') = snd (wh_shutdown_write ops (slot_writer (rel_slot s))))"
proof -
  define s where "s = fold (relay_step ops) es (relay_new w)"
  have "must_park t s" if "t \<in> set (slot_changed (rel_slot s))"
    using writers.no_lost_wakeup[where half = ops and s = "relay_new w" and t = t and ops = es] that
    by (simp add: relay_new_def slot_new_def s_def)
  moreover have "rel_stage s' t = Written \<and> rel_observed s' = rel_observed s
      \<and> slot_writer (rel_slot s') = snd (wh_shutdown_write ops (slot_writer (rel_slot s)))"
    if "s' = relay_step ops (Wake_Writer t) (relay_step ops Close s)" for s'
    using closed_slot_releases[of "relay_step ops Close s" ops t] that
    by (auto simp: close_slot_def Let_def case_prod_unfold)
  ultimately show ?thesis
    unfolding s_def[symmetric] by (cases "rel_stage s t") (auto simp: must_park_def)
qed

text \<open>A transport that takes everything.\<close>

definition sink :: "unit write_half" where
  "sink = \<lparr>wh_write_all = (\<lambda>_ w. (Ok (), w)), wh_flush = (\<lambda>w. (Ok (), w)), wh_shutdown_write = (\<lambda>w. (Ok (), w))\<rparr>"


theorem writers_are_released_witness:
  "case fold (relay_step sink) [Try_Pause False, Write_Window 3 [65]] (relay_new ()) of s \<Rightarrow>
     3 \<in> set (slot_changed (rel_slot s)) \<and> slot_paused (rel_slot s)
     \<and> rel_stage (relay_step sink (Wake_Writer 3) (relay_step sink Close s)) 3 = Written"
  using writers_are_released[where ops = sink and es = "[Try_Pause False, Write_Window 3 [65]]" and w = "()" and t = 3]
  by (simp add: relay_new_def slot_new_def relay_write_def write_window_def sink_def try_pause_def)

text \<open>
  The boundary flag looks at the last window alone: an empty window after an unfinished line marks
  a boundary, although the line is still open.
\<close>

lemma empty_window_marks_a_boundary:
  "fst (try_pause False (rel_slot (fold (relay_step sink) [Write_Window 0 [65]] (relay_new ())))) = None
    \<and> fst (try_pause False (rel_slot (fold (relay_step sink) [Write_Window 0 [65], Write_Window 0 []]
        (relay_new ())))) = Some 1"
  by (simp add: relay_new_def slot_new_def relay_write_def write_window_def write_flush_def
      sink_def checked_add_def try_pause_def)

end
