(* ===== verification/Pump.thy ===== *)
theory Pump
  imports Writer_Slot
begin

text \<open>
  The two directions of a relayed session (\<^verbatim>\<open>copy_flushing\<close>, \<^verbatim>\<open>pump_upstream\<close>, \<^verbatim>\<open>pump_downstream\<close> in
  \<^verbatim>\<open>src/src/transport.rs\<close>).  Reading into a buffer of a given size is a parameter, as is the writer.
\<close>

section \<open>The pumps\<close>

definition buffer_size :: nat where "buffer_size = 65536"

datatype pump_exit = PumpExit_PeerClosed | PumpExit_ClientGone

definition copy_round :: "'r reader \<Rightarrow> 'w write_half \<Rightarrow> 'r \<times> 'w
    \<Rightarrow> ((io_error + unit) \<times> 'r \<times> 'w, 'r \<times> 'w) control" where
  "copy_round rd ops = (\<lambda>(r, w). case rd buffer_size r of
     (Inr bytes, r) \<Rightarrow>
       if bytes = [] then Break (Ok (), r, w)
       else (case write_flush ops bytes w of
           (Inl e, w) \<Rightarrow> Break (Err e, r, w)
         | (Inr _, w) \<Rightarrow> Continue (r, w))
   | (Inl e, r) \<Rightarrow>
       if io_kind e = ErrorKind_Interrupted then Continue (r, w) else Break (Err e, r, w))"

definition copy_flushing :: "'r reader \<Rightarrow> 'w write_half \<Rightarrow> 'r \<times> 'w
    \<Rightarrow> ((io_error + unit) \<times> 'r \<times> 'w) option" where
  "copy_flushing rd ops = iterate (copy_round rd ops)"

text \<open>\<^verbatim>\<open>result.and(shutdown)\<close>: the first error wins.\<close>

definition result_and :: "'e + 'a \<Rightarrow> 'e + 'b \<Rightarrow> 'e + 'b" where
  "result_and r r' = (case r of Inr _ \<Rightarrow> r' | Inl e \<Rightarrow> Err e)"

definition pump_upstream :: "'r reader \<Rightarrow> 'w write_half \<Rightarrow> 'r \<times> 'w
    \<Rightarrow> ((io_error + unit) \<times> 'r \<times> 'w) option" where
  "pump_upstream rd ops s = (case copy_flushing rd ops s of
     None \<Rightarrow> None
   | Some (r, client, sock) \<Rightarrow>
       let (shutdown, sock) = wh_shutdown_write ops sock in Some (result_and r shutdown, client, sock))"

definition downstream_round :: "'r reader \<Rightarrow> 'w write_half \<Rightarrow> 'r \<times> 'w
    \<Rightarrow> (pump_exit \<times> 'r \<times> 'w, 'r \<times> 'w) control" where
  "downstream_round rd ops = (\<lambda>(r, w). case rd buffer_size r of
     (Inr bytes, r) \<Rightarrow>
       if bytes = [] then (case wh_flush ops w of
           (Inr _, w) \<Rightarrow> Break (PumpExit_PeerClosed, r, w)
         | (Inl _, w) \<Rightarrow> Break (PumpExit_ClientGone, r, w))
       else (case write_flush ops bytes w of
           (Inl e, w) \<Rightarrow> Break (PumpExit_ClientGone, r, w)
         | (Inr _, w) \<Rightarrow> Continue (r, w))
   | (Inl e, r) \<Rightarrow>
       if io_kind e = ErrorKind_Interrupted then Continue (r, w) else Break (PumpExit_PeerClosed, r, w))"

definition pump_downstream :: "'r reader \<Rightarrow> 'w write_half \<Rightarrow> 'r \<times> 'w \<Rightarrow> (pump_exit \<times> 'r \<times> 'w) option" where
  "pump_downstream rd ops = iterate (downstream_round rd ops)"

text \<open>\<^verbatim>\<open>SplitIo\<close>: two halves as one stream.\<close>

record ('r, 'w) split_io =
  split_read :: 'r
  split_write :: 'w

definition split_io_read :: "'r reader \<Rightarrow> nat \<Rightarrow> ('r, 'w) split_io \<Rightarrow> (io_error + u8 list) \<times> ('r, 'w) split_io" where
  "split_io_read rd n s = (let (x, r) = rd n (split_read s) in (x, s\<lparr>split_read := r\<rparr>))"

definition split_io_write :: "('w \<Rightarrow> (io_error + 'n) \<times> 'w) \<Rightarrow> ('r, 'w) split_io \<Rightarrow> (io_error + 'n) \<times> ('r, 'w) split_io" where
  "split_io_write write s = (let (x, w) = write (split_write s) in (x, s\<lparr>split_write := w\<rparr>))"

section \<open>What went through\<close>

text \<open>A writer that keeps the bytes it took, those it flushed, and how often it was half-closed.\<close>

record 'w tap =
  tap_inner :: 'w
  tap_given :: "u8 list"
  tap_flushed :: "u8 list"
  tap_shutdowns :: nat

definition tap_writer :: "'w write_half \<Rightarrow> 'w tap write_half" where
  "tap_writer ops = \<lparr>
     wh_write_all = (\<lambda>bytes t. case wh_write_all ops bytes (tap_inner t) of
         (Inr u, w) \<Rightarrow> (Inr u, t\<lparr>tap_inner := w, tap_given := tap_given t @ bytes\<rparr>)
       | (Inl e, w) \<Rightarrow> (Inl e, t\<lparr>tap_inner := w\<rparr>)),
     wh_flush = (\<lambda>t. case wh_flush ops (tap_inner t) of
         (Inr u, w) \<Rightarrow> (Inr u, t\<lparr>tap_inner := w, tap_flushed := tap_given t\<rparr>)
       | (Inl e, w) \<Rightarrow> (Inl e, t\<lparr>tap_inner := w\<rparr>)),
     wh_shutdown_write = (\<lambda>t. case wh_shutdown_write ops (tap_inner t) of
         (r, w) \<Rightarrow> (r, t\<lparr>tap_inner := w, tap_shutdowns := tap_shutdowns t + 1\<rparr>))\<rparr>"

definition tap_new :: "'w \<Rightarrow> 'w tap" where
  "tap_new w = \<lparr>tap_inner = w, tap_given = [], tap_flushed = [], tap_shutdowns = 0\<rparr>"

text \<open>Between two iterations everything read has been written and flushed.\<close>

definition pumped :: "('r \<times> u8 list) \<times> 'w tap \<Rightarrow> bool" where
  "pumped = (\<lambda>((r, taken), t). tap_given t = taken \<and> tap_flushed t = taken \<and> tap_shutdowns t = 0)"

text \<open>At an end, what was written is a prefix of what was read; all of it unless a write failed.\<close>

definition forwarded :: "bool \<Rightarrow> ('r \<times> u8 list) \<times> 'w tap \<Rightarrow> bool" where
  "forwarded whole = (\<lambda>((r, taken), t). (\<exists>rest. taken = tap_given t @ rest) \<and> (\<exists>rest. tap_given t = tap_flushed t @ rest)
     \<and> (whole \<longrightarrow> tap_flushed t = taken) \<and> tap_shutdowns t = 0)"

lemma write_flush_tap:
  assumes "write_flush (tap_writer ops) bytes t = (r, t')" and "tap_flushed t = tap_given t"
  shows "tap_shutdowns t' = tap_shutdowns t
    \<and> (case r of Inr _ \<Rightarrow> tap_given t' = tap_given t @ bytes \<and> tap_flushed t' = tap_given t @ bytes
       | Inl _ \<Rightarrow> tap_flushed t' = tap_given t \<and> (tap_given t' = tap_given t \<or> tap_given t' = tap_given t @ bytes))"
  using assms by (auto simp: write_flush_def tap_writer_def split: prod.splits sum.splits)

lemma flush_tap:
  "wh_flush (tap_writer ops) t = (r, t') \<Longrightarrow> tap_given t' = tap_given t \<and> tap_shutdowns t' = tap_shutdowns t
    \<and> tap_flushed t' = (case r of Inr _ \<Rightarrow> tap_given t | Inl _ \<Rightarrow> tap_flushed t)"
  by (auto simp: tap_writer_def split: prod.splits sum.splits)

lemma copy_round_pumps:
  assumes "pumped s"
  shows "case copy_round (tap_reader rd) (tap_writer ops) s of
     Continue s' \<Rightarrow> pumped s' | Break (r, s') \<Rightarrow> forwarded (r = Ok ()) s'"
proof -
  obtain r taken t where s: "s = ((r, taken), t)" by (metis prod.exhaust)
  obtain x r' taken' where rd: "tap_reader rd buffer_size (r, taken) = (x, r', taken')" by (metis prod_cases3)
  show ?thesis
  proof (cases x)
    case (Inl e)
    with s rd assms tap_reader_cases[OF rd] show ?thesis
      by (auto simp: copy_round_def pumped_def forwarded_def)
  next
    case (Inr bytes)
    obtain y t' where "write_flush (tap_writer ops) bytes t = (y, t')" by (metis prod.exhaust)
    with Inr s rd assms tap_reader_cases[OF rd] write_flush_tap[of ops bytes t y t'] show ?thesis
      by (cases y) (auto simp: copy_round_def pumped_def forwarded_def)
  qed
qed

lemma downstream_round_pumps:
  assumes "pumped s"
  shows "case downstream_round (tap_reader rd) (tap_writer ops) s of
     Continue s' \<Rightarrow> pumped s' | Break (r, s') \<Rightarrow> forwarded (r = PumpExit_PeerClosed) s'"
proof -
  obtain r taken t where s: "s = ((r, taken), t)" by (metis prod.exhaust)
  obtain x r' taken' where rd: "tap_reader rd buffer_size (r, taken) = (x, r', taken')" by (metis prod_cases3)
  show ?thesis
  proof (cases x)
    case (Inl e)
    with s rd assms tap_reader_cases[OF rd] show ?thesis
      by (auto simp: downstream_round_def pumped_def forwarded_def)
  next
    case (Inr bytes)
    obtain y t' where "write_flush (tap_writer ops) bytes t = (y, t')" by (metis prod.exhaust)
    moreover obtain z t'' where "wh_flush (tap_writer ops) t = (z, t'')" by (metis prod.exhaust)
    ultimately show ?thesis
      using Inr s rd assms tap_reader_cases[OF rd] write_flush_tap[of ops bytes t y t'] flush_tap[of ops t z t'']
      by (cases y; cases z) (auto simp: downstream_round_def pumped_def forwarded_def)
  qed
qed

interpretation copy: loop_contract "copy_round (tap_reader rd) (tap_writer ops)" pumped
  "\<lambda>(r, s). forwarded (r = Ok ()) s" for rd ops
  by unfold_locales (use copy_round_pumps in \<open>fastforce split: control.splits\<close>)+

interpretation downstream: loop_contract "downstream_round (tap_reader rd) (tap_writer ops)" pumped
  "\<lambda>(r, s). forwarded (r = PumpExit_PeerClosed) s" for rd ops
  by unfold_locales (use downstream_round_pumps in \<open>fastforce split: control.splits\<close>)+

section \<open>Termination\<close>

lemma pump_ends:
  assumes "finite_stream left rd"
  shows "\<exists>r. copy_flushing rd ops s = Some r" and "\<exists>r. pump_downstream rd ops s = Some r"
proof -
  have "left (fst s') < left (fst s)" if "copy_round rd ops s = Continue s'" for s s'
    using assms that unfolding finite_stream_def copy_round_def
    by (fastforce split: prod.splits sum.splits if_splits)
  then show "\<exists>r. copy_flushing rd ops s = Some r"
    unfolding copy_flushing_def
    by (intro iterate_total[of "measure (\<lambda>s. left (fst s))" "\<lambda>_. True"]) auto
  have "left (fst s') < left (fst s)" if "downstream_round rd ops s = Continue s'" for s s'
    using assms that unfolding finite_stream_def downstream_round_def
    by (fastforce split: prod.splits sum.splits if_splits)
  then show "\<exists>r. pump_downstream rd ops s = Some r"
    unfolding pump_downstream_def
    by (intro iterate_total[of "measure (\<lambda>s. left (fst s))" "\<lambda>_. True"]) auto
qed

lemma pumped_start: "pumped ((peer, []), tap_new w)"
  by (simp add: pumped_def tap_new_def)

section \<open>Properties\<close>


text \<open>A stream of prepared windows.\<close>

fun windows_reader :: "u8 list list reader" where
  "windows_reader n [] = (Ok [], [])"
| "windows_reader n (bytes # rest) = (Ok (take n bytes), if n < length bytes then drop n bytes # rest else rest)"


end
