(* ===== verification/Channel.thy ===== *)
theory Channel
  imports Rust_Prelude
begin

text \<open>
  The readiness channel a daemon reports on while it starts (\<^verbatim>\<open>src/src/readiness/channel.rs\<close>): the
  messages and their decoder, the tracker that decides for a waiter, and the thread that reads the
  launcher's end.  A \<^verbatim>\<open>str\<close> is the list of its bytes; bytes that are printable ASCII are valid UTF-8.
\<close>

section \<open>Messages\<close>

definition max_message :: nat where "max_message = 256"
definition max_detail :: nat where "max_detail = max_message - length (''progress '' @ [CHR 0x0A])"

datatype not_ready = NotReady_Died | NotReady_Malformed | NotReady_Silent

datatype message = Message_Ready | Message_Progress "u8 list option"

definition newline :: u8 where "newline = 10"

definition printable :: "u8 list \<Rightarrow> bool" where
  "printable bytes \<longleftrightarrow> list_all (\<lambda>byte. 32 \<le> byte \<and> byte \<le> 126) bytes"

definition strip_prefix :: "u8 list \<Rightarrow> u8 list \<Rightarrow> u8 list option" where
  "strip_prefix pre line = (if take (length pre) line = pre then Some (drop (length pre) line) else None)"

definition parse :: "u8 list \<Rightarrow> message option" where
  "parse line =
    (if line = ascii ''ready'' then Some Message_Ready
     else if line = ascii ''progress'' then Some (Message_Progress None)
     else case strip_prefix (ascii ''progress '') line of
       None \<Rightarrow> None
     | Some detail \<Rightarrow>
         if detail = [] \<or> \<not> printable detail then None else Some (Message_Progress (Some detail)))"

definition progress_line :: "u8 list \<Rightarrow> io_error + u8 list" where
  "progress_line detail =
    (if max_detail < length detail \<or> \<not> printable detail
     then Err (io_error_new ErrorKind_InvalidInput
       ''a progress detail is printable ASCII of at most MAX_DETAIL bytes'')
     else Ok (ascii ''progress'' @ (if detail \<noteq> [] then [32] @ detail else []) @ [newline]))"

datatype decoder_step = Step_More | Step_Message message | Step_Malformed

text \<open>\<^verbatim>\<open>Decoder\<close> is the line read so far.\<close>

definition decoder_push :: "u8 \<Rightarrow> u8 list \<Rightarrow> decoder_step \<times> u8 list" where
  "decoder_push byte line =
    (if byte = newline
     then (case parse line of None \<Rightarrow> Step_Malformed | Some m \<Rightarrow> Step_Message m, [])
     else if max_message - 1 \<le> length line then (Step_Malformed, line)
     else (Step_More, line @ [byte]))"

section \<open>The tracker\<close>

datatype channel_state = State_Waiting | State_Progressing | State_Ready | State_Died | State_Malformed

datatype channel_event = Event_Progress | Event_Ready | Event_Malformed | Event_Closed

datatype channel_decision = Decide_Ready | Decide_NotReady not_ready | Decide_Wait duration

record tracker =
  tracker_state :: channel_state
  tracker_last_message :: duration

definition tracker_default :: tracker where
  "tracker_default = \<lparr>tracker_state = State_Waiting, tracker_last_message = 0\<rparr>"

definition tracker_record :: "duration \<Rightarrow> channel_event \<Rightarrow> tracker \<Rightarrow> tracker" where
  "tracker_record at event t =
    (if tracker_state t \<in> {State_Ready, State_Died, State_Malformed} then t
     else t\<lparr>tracker_last_message := max (tracker_last_message t) at,
       tracker_state := (case event of
           Event_Progress \<Rightarrow> State_Progressing
         | Event_Ready \<Rightarrow> State_Ready
         | Event_Malformed \<Rightarrow> State_Malformed
         | Event_Closed \<Rightarrow> State_Died)\<rparr>)"

definition tracker_decide :: "duration \<Rightarrow> duration \<Rightarrow> tracker \<Rightarrow> channel_decision" where
  "tracker_decide now silence t = (case tracker_state t of
     State_Ready \<Rightarrow> Decide_Ready
   | State_Died \<Rightarrow> Decide_NotReady NotReady_Died
   | State_Malformed \<Rightarrow> Decide_NotReady NotReady_Malformed
   | _ \<Rightarrow> let until = duration_sat_add (tracker_last_message t) silence in
       if until \<le> now then Decide_NotReady NotReady_Silent else Decide_Wait (until - now))"

section \<open>The reading thread\<close>

record inner =
  inner_tracker :: tracker
  inner_version :: u64
  inner_progress :: u64
  inner_last_progress :: "u8 list option"

record shared =
  sh_opened :: instant
  sh_inner :: inner
  sh_clock :: clock

definition inner_default :: inner where
  "inner_default = \<lparr>inner_tracker = tracker_default, inner_version = 0, inner_progress = 0,
     inner_last_progress = None\<rparr>"

definition shared_new :: "clock \<Rightarrow> shared" where
  "shared_new c = (let (t, c) = instant_now c in \<lparr>sh_opened = t, sh_inner = inner_default, sh_clock = c\<rparr>)"

definition inner_record :: "duration \<Rightarrow> channel_event \<Rightarrow> u8 list option \<Rightarrow> inner \<Rightarrow> inner" where
  "inner_record at event detail i =
    (let i = i\<lparr>inner_tracker := tracker_record at event (inner_tracker i), inner_version := inner_version i + 1\<rparr> in
     if event = Event_Progress
     then i\<lparr>inner_progress := inner_progress i + 1, inner_last_progress := detail\<rparr> else i)"

definition post :: "channel_event \<Rightarrow> u8 list option \<Rightarrow> shared \<Rightarrow> shared" where
  "post event detail sh = (let (t, c) = instant_now (sh_clock sh) in
    sh\<lparr>sh_inner := inner_record (t - sh_opened sh) event detail (sh_inner sh), sh_clock := c\<rparr>)"

definition ends_channel :: "io_error \<Rightarrow> bool" where
  "ends_channel e \<longleftrightarrow> io_kind e \<noteq> ErrorKind_Interrupted"

text \<open>The bytes of one read; it leaves the loop around it at \<^verbatim>\<open>ready\<close> and at a malformed message.\<close>

fun read_bytes :: "u8 list \<Rightarrow> u8 list \<times> shared \<Rightarrow> (shared, u8 list \<times> shared) control" where
  "read_bytes [] (line, sh) = Continue (line, sh)"
| "read_bytes (byte # bytes) (line, sh) = (case decoder_push byte line of
     (Step_More, line) \<Rightarrow> read_bytes bytes (line, sh)
   | (Step_Message (Message_Progress detail), line) \<Rightarrow> read_bytes bytes (line, post Event_Progress detail sh)
   | (Step_Message Message_Ready, line) \<Rightarrow> Break (post Event_Ready None sh)
   | (Step_Malformed, line) \<Rightarrow> Break (post Event_Malformed None sh))"

text \<open>\<^verbatim>\<open>closed\<close> says whether the launcher dropped its handle by the time a read returned.\<close>

definition read_round :: "'r reader \<Rightarrow> ('r \<Rightarrow> bool) \<Rightarrow> 'r \<times> u8 list \<times> shared
    \<Rightarrow> ('r \<times> shared, 'r \<times> u8 list \<times> shared) control" where
  "read_round rd closed = (\<lambda>(r, line, sh).
    let (x, r) = rd max_message r in
    if closed r then Break (r, sh)
    else case x of
      Inr bytes \<Rightarrow>
        if bytes = [] then Break (r, post Event_Closed None sh)
        else (case read_bytes bytes (line, sh) of
            Break sh \<Rightarrow> Break (r, sh)
          | Continue (line, sh) \<Rightarrow> Continue (r, line, sh))
    | Inl e \<Rightarrow>
        if ends_channel e then Break (r, post Event_Closed None sh) else Continue (r, line, sh))"

definition read_messages :: "'r reader \<Rightarrow> ('r \<Rightarrow> bool) \<Rightarrow> 'r \<Rightarrow> shared \<Rightarrow> ('r \<times> shared) option" where
  "read_messages rd closed r sh = iterate (read_round rd closed) (r, [], sh)"

section \<open>The daemon's end\<close>

definition notifier_progress :: "(u8 list \<Rightarrow> 'p \<Rightarrow> (io_error + unit) \<times> 'p) \<Rightarrow> u8 list \<Rightarrow> 'p \<Rightarrow> (io_error + unit) \<times> 'p" where
  "notifier_progress write_all detail pipe = (case progress_line detail of
     Inl e \<Rightarrow> (Err e, pipe)
   | Inr line \<Rightarrow> write_all line pipe)"

definition notifier_ready :: "(u8 list \<Rightarrow> 'p \<Rightarrow> (io_error + unit) \<times> 'p) \<Rightarrow> 'p \<Rightarrow> (io_error + unit) \<times> 'p" where
  "notifier_ready write_all pipe = write_all (ascii ''ready'' @ [newline]) pipe"

section \<open>The decoder against the notifier\<close>

text \<open>The line the daemon's end writes for a message.\<close>

fun notifier_line :: "message \<Rightarrow> u8 list option" where
  "notifier_line Message_Ready = Some (ascii ''ready'' @ [newline])"
| "notifier_line (Message_Progress None) = (case progress_line [] of Inr l \<Rightarrow> Some l | Inl _ \<Rightarrow> None)"
| "notifier_line (Message_Progress (Some detail)) =
    (if detail = [] then None else case progress_line detail of Inr l \<Rightarrow> Some l | Inl _ \<Rightarrow> None)"

lemma ascii_facts [simp]:
  "length (ascii s) = length s" "ascii (c # s) = of_char c # ascii s" "ascii [] = []"
  by (simp_all add: ascii_def)

lemma strip_prefix_Some: "strip_prefix pre line = Some rest \<longleftrightarrow> line = pre @ rest"
  by (auto simp: strip_prefix_def) (metis append_take_drop_id)

lemma printable_Nil [simp]: "printable []"
  by (simp add: printable_def)

lemma printable_newline: "printable bytes \<Longrightarrow> newline \<notin> set bytes"
  by (auto simp: printable_def list_all_iff newline_def)

lemma parse_cases:
  "parse line = Some m \<longleftrightarrow>
    m = Message_Ready \<and> line = ascii ''ready'' \<or> m = Message_Progress None \<and> line = ascii ''progress''
    \<or> (\<exists>detail. m = Message_Progress (Some detail) \<and> line = ascii ''progress '' @ detail \<and> detail \<noteq> [] \<and> printable detail)"
proof (cases "strip_prefix (ascii ''progress '') line")
  case None
  then have "line \<noteq> ascii ''progress '' @ detail" for detail
    using strip_prefix_Some[of "ascii ''progress ''" line detail] by simp
  moreover have "ascii ''ready'' \<noteq> ascii ''progress''" by simp
  ultimately show ?thesis using None by (auto simp: parse_def simp del: ascii_facts)
next
  case (Some rest)
  then have "line = ascii ''progress '' @ rest" by (simp only: strip_prefix_Some)
  with Some show ?thesis by (auto simp: parse_def)
qed

lemma parse_exact:
  assumes "length line < max_message"
  shows "parse line = Some m \<longleftrightarrow> notifier_line m = Some (line @ [newline])"
  using assms
  by (cases m rule: notifier_line.cases)
     (auto simp: parse_cases progress_line_def max_detail_def max_message_def)

lemma notifier_line_shape:
  assumes "notifier_line m = Some l"
  obtains line where "l = line @ [newline]" "newline \<notin> set line" "length line < max_message" "parse line = Some m"
proof -
  have "\<exists>line. l = line @ [newline] \<and> newline \<notin> set line \<and> length line < max_message"
    using assms by (cases m rule: notifier_line.cases)
      (auto simp: progress_line_def max_detail_def max_message_def newline_def printable_newline[unfolded newline_def]
        split: if_splits)
  with assms parse_exact that show ?thesis by blast
qed

text \<open>What a stream of bytes says: the messages posted, and the line left over unless reading stopped.\<close>

fun decode :: "u8 list \<Rightarrow> u8 list \<Rightarrow> (channel_event \<times> u8 list option) list \<times> u8 list option" where
  "decode line [] = ([], Some line)"
| "decode line (byte # bytes) = (case decoder_push byte line of
     (Step_More, line) \<Rightarrow> decode line bytes
   | (Step_Message (Message_Progress detail), line) \<Rightarrow> (case decode line bytes of
       (posts, rest) \<Rightarrow> ((Event_Progress, detail) # posts, rest))
   | (Step_Message Message_Ready, line) \<Rightarrow> ([(Event_Ready, None)], None)
   | (Step_Malformed, line) \<Rightarrow> ([(Event_Malformed, None)], None))"

definition posted :: "(channel_event \<times> u8 list option) list \<Rightarrow> shared \<Rightarrow> shared" where
  "posted posts sh = fold (\<lambda>(event, detail). post event detail) posts sh"

lemma posted_simps [simp]:
  "posted [] sh = sh" "posted ((e, d) # posts) sh = posted posts (post e d sh)"
  "posted (posts @ posts') sh = posted posts' (posted posts sh)"
  by (simp_all add: posted_def)

lemma read_bytes_decode:
  "read_bytes bytes (line, sh) = (case decode line bytes of
     (posts, None) \<Rightarrow> Break (posted posts sh) | (posts, Some line) \<Rightarrow> Continue (line, posted posts sh))"
  by (induction bytes "(line, sh)" arbitrary: line sh rule: read_bytes.induct)
     (auto split: prod.splits decoder_step.splits message.splits option.splits)

lemma decode_append:
  "decode line (xs @ ys) = (case decode line xs of
     (posts, None) \<Rightarrow> (posts, None)
   | (posts, Some line') \<Rightarrow> (case decode line' ys of (posts', rest) \<Rightarrow> (posts @ posts', rest)))"
  by (induction xs arbitrary: line) (auto split: prod.splits decoder_step.splits message.splits option.splits)

lemma decode_partial:
  "newline \<notin> set xs \<Longrightarrow> length line + length xs < max_message \<Longrightarrow> decode line xs = ([], Some (line @ xs))"
  by (induction xs arbitrary: line) (auto simp: decoder_push_def max_message_def)

fun post_of :: "message \<Rightarrow> channel_event \<times> u8 list option" where
  "post_of Message_Ready = (Event_Ready, None)"
| "post_of (Message_Progress detail) = (Event_Progress, detail)"

lemma decode_line:
  assumes "notifier_line m = Some l"
  shows "decode [] l = ([post_of m], if m = Message_Ready then None else Some [])"
proof -
  obtain line where l: "l = line @ [newline]" "newline \<notin> set line" "length line < max_message" "parse line = Some m"
    using notifier_line_shape[OF assms] .
  then have "decode [] l = decode line [newline]"
    using decode_partial[of line "[]"] decode_append[of "[]" line "[newline]"] by (simp split: prod.split)
  with l(4) show ?thesis by (cases m) (simp_all add: decoder_push_def)
qed

text \<open>The stream of a daemon that reports some progress, and of one that then says it is ready.\<close>

definition stream_of :: "message list \<Rightarrow> u8 list" where
  "stream_of ms = concat (map (the \<circ> notifier_line) ms)"

definition sendable :: "message list \<Rightarrow> bool" where
  "sendable ms \<longleftrightarrow> list_all (\<lambda>m. notifier_line m \<noteq> None) ms \<and> Message_Ready \<notin> set (butlast ms)"

lemma sendable_Cons: "sendable (m # ms) \<Longrightarrow> sendable ms \<and> notifier_line m \<noteq> None \<and> (ms \<noteq> [] \<longrightarrow> m \<noteq> Message_Ready)"
  by (auto simp: sendable_def split: if_splits)

lemma decode_stream:
  "sendable ms \<Longrightarrow> decode [] (stream_of ms) =
    (map post_of ms, if ms \<noteq> [] \<and> last ms = Message_Ready then None else Some [])"
proof (induction ms)
  case (Cons m ms)
  note m = sendable_Cons[OF Cons.prems]
  then obtain l where l: "notifier_line m = Some l" by auto
  have "stream_of (m # ms) = l @ stream_of ms" by (simp add: stream_of_def l)
  with decode_line[OF l] Cons.IH m show ?case
    by (cases "ms = []") (auto simp: decode_append stream_of_def)
qed (simp add: stream_of_def)

text \<open>Part of a stream says part of it, and is never malformed.\<close>

lemma decode_prefix:
  assumes "decode line (xs @ ys) = (posts, rest)" and "decode line xs = (posts', rest')"
  shows "\<exists>more. posts = posts' @ more"
  using assms by (auto simp: decode_append split: option.splits prod.splits)

section \<open>The reading thread\<close>

definition reading :: "shared \<Rightarrow> ('r \<times> u8 list) \<times> u8 list \<times> shared \<Rightarrow> bool" where
  "reading sh = (\<lambda>((r, taken), line, sh'). case decode [] taken of
     (posts, rest) \<Rightarrow> rest = Some line \<and> sh' = posted posts sh)"

text \<open>How reading ends: the launcher dropped its handle, and the bytes of the last read are lost; or at
  a final message; or at the end of the channel.\<close>

definition read_end :: "('r \<Rightarrow> bool) \<Rightarrow> shared \<Rightarrow> ('r \<times> u8 list) \<times> shared \<Rightarrow> bool" where
  "read_end closed sh = (\<lambda>((r, taken), sh').
    if closed r then \<exists>part lost posts line. taken = part @ lost \<and> decode [] part = (posts, Some line) \<and> sh' = posted posts sh
    else (case decode [] taken of
      (posts, None) \<Rightarrow> sh' = posted posts sh
    | (posts, Some _) \<Rightarrow> sh' = posted (posts @ [(Event_Closed, None)]) sh))"

lemma read_round_reads:
  assumes "reading sh s"
  shows "case read_round (tap_reader rd) (closed \<circ> fst) s of
     Break s' \<Rightarrow> read_end closed sh s' | Continue s' \<Rightarrow> reading sh s'"
proof -
  obtain r taken line sh1 where s: "s = ((r, taken), line, sh1)" by (metis prod.exhaust)
  obtain posts where d: "decode [] taken = (posts, Some line)" and sh1: "sh1 = posted posts sh"
    using assms by (auto simp: reading_def s split: prod.splits)
  obtain x r' taken' where rd: "tap_reader rd max_message (r, taken) = (x, r', taken')" by (metis prod_cases3)
  note taken' = tap_reader_cases(1)[OF rd]
  show ?thesis
  proof (cases "closed r'")
    case True
    with s rd taken' d sh1 show ?thesis
      by (auto simp: read_round_def read_end_def)
  next
    case False
    show ?thesis
    proof (cases x)
      case (Inl e)
      with False s rd taken' d sh1 show ?thesis
        by (auto simp: read_round_def read_end_def reading_def)
    next
      case (Inr bytes)
      obtain posts' rest where "decode line bytes = (posts', rest)" by (metis prod.exhaust)
      with Inr False s rd taken' d sh1 show ?thesis
        by (auto simp: read_round_def read_end_def reading_def read_bytes_decode decode_append split: option.splits)
    qed
  qed
qed

interpretation reading: loop_contract "read_round (tap_reader rd) (closed \<circ> fst)" "reading sh" "read_end closed sh"
  for rd closed sh
  by unfold_locales (use read_round_reads in \<open>fastforce split: control.splits\<close>)+

lemma read_messages_ends:
  assumes "finite_stream left rd"
  shows "\<exists>res. read_messages rd closed r sh = Some res"
proof -
  have "left (fst s') < left (fst s)" if "read_round rd closed s = Continue s'" for s s'
    using assms that unfolding finite_stream_def read_round_def ends_channel_def
    by (fastforce simp: Let_def split: prod.splits sum.splits if_splits control.splits)
  then show ?thesis
    unfolding read_messages_def by (intro iterate_total[of "measure (\<lambda>s. left (fst s))" "\<lambda>_. True"]) auto
qed

lemma decode_bound:
  "length line < max_message \<Longrightarrow> decode line bytes = (posts, Some rest) \<Longrightarrow> length rest < max_message"
proof (induction bytes arbitrary: line posts)
  case (Cons byte bytes)
  obtain st line' where push: "decoder_push byte line = (st, line')" by (metis prod.exhaust)
  with Cons.prems(1) have "length line' < max_message"
    by (auto simp: decoder_push_def max_message_def split: if_splits)
  with Cons push show ?case
    by (auto split: decoder_step.splits message.splits prod.splits)
qed simp

lemma post_tracker:
  "tracker_state (inner_tracker (sh_inner (post e d sh))) = tracker_state (tracker_record 0 e (inner_tracker (sh_inner sh)))"
  by (simp add: post_def inner_record_def tracker_record_def Let_def split: prod.split)

lemma posted_progress:
  "list_all (\<lambda>m. m \<noteq> Message_Ready) ms \<Longrightarrow>
    tracker_state (inner_tracker (sh_inner sh)) \<in> {State_Waiting, State_Progressing} \<Longrightarrow>
    tracker_state (inner_tracker (sh_inner (posted (map post_of ms) sh))) \<in> {State_Waiting, State_Progressing}"
proof (induction ms arbitrary: sh)
  case (Cons m ms)
  then obtain d where m: "m = Message_Progress d" by (cases m) auto
  have "tracker_state (inner_tracker (sh_inner (post Event_Progress d sh))) \<in> {State_Waiting, State_Progressing}"
    using Cons.prems(2) by (auto simp: post_tracker tracker_record_def)
  with Cons.IH Cons.prems(1) show ?case by (simp add: m)
qed simp

text \<open>A daemon that was heard saying it is ready is ready.\<close>

lemma heard_ready:
  assumes "sendable ms" "ms \<noteq> []" "last ms = Message_Ready"
  shows "tracker_state (inner_tracker (sh_inner (posted (map post_of ms) (shared_new c)))) = State_Ready"
proof -
  obtain before where ms: "ms = before @ [Message_Ready]" using assms(2, 3) by (metis append_butlast_last_id)
  have "list_all (\<lambda>m. m \<noteq> Message_Ready) before"
    using assms(1) by (auto simp: sendable_def ms list_all_iff)
  from posted_progress[OF this, of "shared_new c"] show ?thesis
    by (auto simp: ms post_tracker tracker_record_def shared_new_def inner_default_def tracker_default_def Let_def
        split: prod.splits)
qed

section \<open>Properties\<close>

text \<open>The decoder is exact.  It accepts a line exactly if it is one the daemon's end writes, and
  reads the message it was written for; whatever the stream is, it never buffers more than a
  message without its newline.\<close>

theorem decoder_accepts_what_notifiers_write:
  assumes "length line < max_message"
  shows "(parse line = Some m \<longleftrightarrow> notifier_line m = Some (line @ [newline]))
    \<and> (case decode line bytes of (_, Some rest) \<Rightarrow> length rest < max_message | (_, None) \<Rightarrow> True)"
  using parse_exact[OF assms] decode_bound[OF assms] by (auto split: prod.split option.split)

theorem decoder_accepts_what_notifiers_write_witness:
  "parse (ascii ''progress db'') = Some (Message_Progress (Some (ascii ''db'')))"
  using decoder_accepts_what_notifiers_write[of "ascii ''progress db''" "Message_Progress (Some (ascii ''db''))"]
  by (simp add: max_message_def progress_line_def max_detail_def printable_def)


text \<open>Prepared reads.\<close>

definition chunks_reader :: "u8 list list reader" where
  "chunks_reader n r = (case r of [] \<Rightarrow> (Ok [], []) | x # r \<Rightarrow> (Ok x, r))"

lemma finite_chunks: "finite_stream length chunks_reader"
  by (auto simp: finite_stream_def chunks_reader_def split: list.splits)


end
