(* ===== verification/Channel_Wait.thy ===== *)
theory Channel_Wait
  imports Channel
begin

text \<open>
  Waiting on a readiness channel (\<^verbatim>\<open>Channel\<close> and \<^verbatim>\<open>Signaled\<close> in \<^verbatim>\<open>src/src/readiness/channel.rs\<close>).
  While a caller sleeps or probes, the reading thread posts and time passes: such a stretch is a
  parameter that acts on the caller's world, the channel included.
\<close>

section \<open>Waiting for ready\<close>

type_synonym 'x world = "'x \<times> shared"

definition sh_elapsed :: "shared \<Rightarrow> duration \<times> shared" where
  "sh_elapsed sh = (let (t, c) = instant_now (sh_clock sh) in (t - sh_opened sh, sh\<lparr>sh_clock := c\<rparr>))"

abbreviation sh_tracker :: "shared \<Rightarrow> tracker" where
  "sh_tracker sh \<equiv> inner_tracker (sh_inner sh)"

text \<open>\<^verbatim>\<open>nap\<close> is \<^verbatim>\<open>Condvar::wait_timeout\<close>, or the timeout around the notification.\<close>

definition channel_wait_round :: "(duration \<Rightarrow> 'x world \<Rightarrow> 'x world) \<Rightarrow> duration \<Rightarrow> 'x world
    \<Rightarrow> ((not_ready + unit) \<times> 'x world, 'x world) control" where
  "channel_wait_round nap silence = (\<lambda>(x, sh).
    let (now, sh) = sh_elapsed sh in
    case tracker_decide now silence (sh_tracker sh) of
      Decide_Ready \<Rightarrow> Break (Ok (), x, sh)
    | Decide_NotReady reason \<Rightarrow> Break (Err reason, x, sh)
    | Decide_Wait left \<Rightarrow> Continue (nap left (x, sh)))"

definition channel_wait :: "(duration \<Rightarrow> 'x world \<Rightarrow> 'x world) \<Rightarrow> duration \<Rightarrow> 'x world
    \<Rightarrow> ((not_ready + unit) \<times> 'x world) option" where
  "channel_wait nap silence = iterate (channel_wait_round nap silence)"

definition channel_failure :: "duration \<Rightarrow> shared \<Rightarrow> not_ready option \<times> shared" where
  "channel_failure silence sh =
    (let (now, sh) = sh_elapsed sh in
     (case tracker_decide now silence (sh_tracker sh) of Decide_NotReady reason \<Rightarrow> Some reason | _ \<Rightarrow> None, sh))"

definition is_ready :: "shared \<Rightarrow> bool" where
  "is_ready sh \<longleftrightarrow> tracker_state (sh_tracker sh) = State_Ready"

section \<open>Waiting for news\<close>

definition quiet_for :: "inner \<Rightarrow> u64 \<Rightarrow> duration \<Rightarrow> duration \<Rightarrow> duration option" where
  "quiet_for i since now silence =
    (if inner_version i \<noteq> since then None
     else case tracker_decide now silence (inner_tracker i) of Decide_Wait left \<Rightarrow> Some left | _ \<Rightarrow> None)"

text \<open>How long to sleep next, if at all: the common part of both variants.\<close>

definition news_left :: "u64 \<Rightarrow> instant \<Rightarrow> duration \<Rightarrow> shared \<Rightarrow> duration option \<times> shared" where
  "news_left since until silence sh =
    (let (now, sh) = sh_elapsed sh in
     case quiet_for (sh_inner sh) since now silence of
       None \<Rightarrow> (None, sh)
     | Some quiet \<Rightarrow>
         let (left, c) = remaining until (sh_clock sh); left = min quiet left; sh = sh\<lparr>sh_clock := c\<rparr> in
         (if left = 0 then None else Some left, sh))"

definition news_round :: "(duration \<Rightarrow> 'x world \<Rightarrow> 'x world) \<Rightarrow> u64 \<Rightarrow> instant \<Rightarrow> duration \<Rightarrow> 'x world
    \<Rightarrow> ('x world, 'x world) control" where
  "news_round nap since until silence = (\<lambda>(x, sh). case news_left since until silence sh of
     (None, sh) \<Rightarrow> Break (x, sh)
   | (Some left, sh) \<Rightarrow> Continue (nap left (x, sh)))"

definition wait_for_news :: "(duration \<Rightarrow> 'x world \<Rightarrow> 'x world) \<Rightarrow> u64 \<Rightarrow> instant \<Rightarrow> duration \<Rightarrow> 'x world
    \<Rightarrow> 'x world option" where
  "wait_for_news nap since until silence = iterate (news_round nap since until silence)"

text \<open>The asynchronous variant also stops when its sleep timed out, which the \<^verbatim>\<open>bool\<close> says.\<close>

definition news_round_async :: "(duration \<Rightarrow> 'x world \<Rightarrow> bool \<times> 'x world) \<Rightarrow> u64 \<Rightarrow> instant \<Rightarrow> duration \<Rightarrow> 'x world
    \<Rightarrow> ('x world, 'x world) control" where
  "news_round_async nap since until silence = (\<lambda>(x, sh). case news_left since until silence sh of
     (None, sh) \<Rightarrow> Break (x, sh)
   | (Some left, sh) \<Rightarrow> (case nap left (x, sh) of
       (True, w) \<Rightarrow> Break w
     | (False, w) \<Rightarrow> Continue w))"

definition wait_for_news_async :: "(duration \<Rightarrow> 'x world \<Rightarrow> bool \<times> 'x world) \<Rightarrow> u64 \<Rightarrow> instant \<Rightarrow> duration \<Rightarrow> 'x world
    \<Rightarrow> 'x world option" where
  "wait_for_news_async nap since until silence = iterate (news_round_async nap since until silence)"

section \<open>Signaled evidence\<close>

text \<open>The version seen when the round began, and the world.\<close>

type_synonym 'x signaled = "u64 \<times> 'x world"

datatype 'e signaled_error = SignaledError_Evidence 'e | SignaledError_NotReady not_ready

definition signaled_new :: "'x world \<Rightarrow> 'x signaled" where
  "signaled_new w = (0, w)"

definition signaled_committed :: "('x world \<Rightarrow> ('e + bool) \<times> 'x world) \<Rightarrow> 'x signaled
    \<Rightarrow> ('e signaled_error + bool) \<times> 'x signaled" where
  "signaled_committed committed = (\<lambda>(seen, w). case committed w of
     (Inl e, w) \<Rightarrow> (Err (SignaledError_Evidence e), seen, w)
   | (Inr b, w) \<Rightarrow> (Ok b, seen, w))"

definition signaled_probe :: "('x world \<Rightarrow> ('e + 'p option) \<times> 'x world) \<Rightarrow> duration \<Rightarrow> 'x signaled
    \<Rightarrow> ('e signaled_error + 'p option) \<times> 'x signaled" where
  "signaled_probe probe silence = (\<lambda>(_, w).
    let seen = inner_version (sh_inner (snd w)) in
    case probe w of
      (Inl e, w) \<Rightarrow> (Err (SignaledError_Evidence e), seen, w)
    | (Inr (Some p), w) \<Rightarrow> (Ok (Some p), seen, w)
    | (Inr None, x, sh) \<Rightarrow> (case channel_failure silence sh of
        (Some reason, sh) \<Rightarrow> (Err (SignaledError_NotReady reason), seen, x, sh)
      | (None, sh) \<Rightarrow> (Ok None, seen, x, sh)))"

text \<open>\<^verbatim>\<open>wait\<close> and its asynchronous twin differ in the wait for news they are given.\<close>

definition signaled_wait :: "('x world \<Rightarrow> 'x world) \<Rightarrow> (u64 \<Rightarrow> 'x world \<Rightarrow> 'x world option) \<Rightarrow> 'x signaled
    \<Rightarrow> 'x signaled option" where
  "signaled_wait wait news = (\<lambda>(seen, w).
    if inner_version (sh_inner (snd w)) \<noteq> seen then Some (seen, w)
    else if is_ready (snd w) then Some (seen, wait w)
    else map_option (Pair seen) (news seen w))"

section \<open>Sleeping\<close>

text \<open>
  A sleep lasts the time asked for with nothing posted, or one of finitely many wakeups ends it:
  posts of the reading thread, or spurious ones.
\<close>

definition nap_ok :: "('x \<Rightarrow> nat) \<Rightarrow> (duration \<Rightarrow> 'x world \<Rightarrow> 'x world) \<Rightarrow> bool" where
  "nap_ok wakeups nap \<longleftrightarrow> (\<forall>d x sh x' sh'. nap d (x, sh) = (x', sh') \<longrightarrow>
     sh_opened sh' = sh_opened sh \<and> time (sh_clock sh) \<le> time (sh_clock sh')
     \<and> (wakeups x' < wakeups x \<or> wakeups x' = wakeups x \<and> sh_inner sh' = sh_inner sh
        \<and> time (sh_clock sh) + d \<le> time (sh_clock sh')))"

lemma sh_elapsed_eq [time_simps]:
  "sh_elapsed sh = (time (tick (sh_clock sh)) - sh_opened sh, sh\<lparr>sh_clock := tick (sh_clock sh)\<rparr>)"
  by (simp add: sh_elapsed_def time_simps)

definition silent_at :: "duration \<Rightarrow> shared \<Rightarrow> instant" where
  "silent_at silence sh = sh_opened sh + duration_sat_add (tracker_last_message (sh_tracker sh)) silence"

lemma decide_wait:
  assumes "tracker_decide (t - sh_opened sh) silence (sh_tracker sh) = Decide_Wait left" and "sh_opened sh \<le> t"
  shows "tracker_state (sh_tracker sh) \<in> {State_Waiting, State_Progressing} \<and> t + left = silent_at silence sh \<and> 0 < left"
  using assms by (auto simp: tracker_decide_def silent_at_def Let_def split: channel_state.splits if_splits)

lemma decide_reason:
  assumes "tracker_decide (t - sh_opened sh) silence (sh_tracker sh) = Decide_NotReady reason" and "sh_opened sh \<le> t"
  shows "case reason of
      NotReady_Died \<Rightarrow> tracker_state (sh_tracker sh) = State_Died
    | NotReady_Malformed \<Rightarrow> tracker_state (sh_tracker sh) = State_Malformed
    | NotReady_Silent \<Rightarrow> silent_at silence sh \<le> t"
  using assms by (auto simp: tracker_decide_def silent_at_def Let_def split: channel_state.splits if_splits)

lemma decide_ready:
  "tracker_decide now silence t = Decide_Ready \<longleftrightarrow> tracker_state t = State_Ready"
  by (auto simp: tracker_decide_def Let_def split: channel_state.splits)

text \<open>A loop that sleeps until a moment that only a wakeup moves.\<close>

definition nap_order :: "('x \<Rightarrow> nat) \<Rightarrow> (shared \<Rightarrow> instant) \<Rightarrow> ('x world \<times> 'x world) set" where
  "nap_order wakeups end = inv_image (less_than <*lex*> less_than)
     (\<lambda>(x, sh). (wakeups x, end sh - time (sh_clock sh)))"

lemma wf_nap_order: "wf (nap_order wakeups end)"
  by (simp add: nap_order_def wf_lex_prod)

lemma nap_descends:
  assumes "nap_ok wakeups nap" and "nap left (x, sh1) = (x', sh')"
    and "sh_inner sh1 = sh_inner sh" "sh_opened sh1 = sh_opened sh" "time (sh_clock sh) \<le> time (sh_clock sh1)"
    and "time (sh_clock sh1) < end sh" and "end sh \<le> time (sh_clock sh1) + left \<or> 0 < left"
    and "\<And>u. sh_inner u = sh_inner sh \<Longrightarrow> sh_opened u = sh_opened sh \<Longrightarrow> end u = end sh"
  shows "((x', sh'), (x, sh)) \<in> nap_order wakeups end"
proof -
  consider "wakeups x' < wakeups x" | "wakeups x' = wakeups x" "sh_inner sh' = sh_inner sh"
      "sh_opened sh' = sh_opened sh" "time (sh_clock sh1) + left \<le> time (sh_clock sh')"
    using assms(1-4) unfolding nap_ok_def by metis
  then show ?thesis
  proof cases
    case 2
    with assms(8)[of sh'] assms(5-7) have "end sh' - time (sh_clock sh') < end sh - time (sh_clock sh)"
      by auto
    with 2 show ?thesis by (simp add: nap_order_def)
  qed (simp add: nap_order_def)
qed

lemma nap_keeps: "nap_ok wakeups nap \<Longrightarrow> nap left (x, sh) = (x', sh') \<Longrightarrow> sh_opened sh \<le> time (sh_clock sh) \<Longrightarrow>
    sh_opened sh' \<le> time (sh_clock sh')"
  unfolding nap_ok_def by (metis order_trans)

lemma wait_round_descends:
  assumes "nap_ok wakeups nap" and "sh_opened sh \<le> time (sh_clock sh)"
    and "channel_wait_round nap silence (x, sh) = Continue (x', sh')"
  shows "sh_opened sh' \<le> time (sh_clock sh')" and "((x', sh'), (x, sh)) \<in> nap_order wakeups (silent_at silence)"
proof -
  let ?t = "time (tick (sh_clock sh))" and ?sh = "sh\<lparr>sh_clock := tick (sh_clock sh)\<rparr>"
  have t: "sh_opened sh \<le> ?t" "time (sh_clock sh) \<le> ?t" using assms(2) by auto
  obtain left where d: "tracker_decide (?t - sh_opened sh) silence (sh_tracker sh) = Decide_Wait left"
    and n: "nap left (x, ?sh) = (x', sh')"
    using assms(3) by (auto simp: channel_wait_round_def time_simps split: channel_decision.splits)
  note wait = decide_wait[OF d t(1)]
  show "sh_opened sh' \<le> time (sh_clock sh')"
    using nap_keeps[OF assms(1) n] t(1) by simp
  show "((x', sh'), (x, sh)) \<in> nap_order wakeups (silent_at silence)"
    by (rule nap_descends[OF assms(1) n]) (use wait t(2) in \<open>auto simp: silent_at_def\<close>)
qed

lemma news_left_eq:
  "news_left since until silence sh =
    (let c1 = tick (sh_clock sh); c2 = tick c1; now = time c1 - sh_opened sh in
     if inner_version (sh_inner sh) \<noteq> since then (None, sh\<lparr>sh_clock := c1\<rparr>)
     else case tracker_decide now silence (sh_tracker sh) of
       Decide_Wait quiet \<Rightarrow> let left = min quiet (until - time c2) in
         (if left = 0 then None else Some left, sh\<lparr>sh_clock := c2\<rparr>)
     | _ \<Rightarrow> (None, sh\<lparr>sh_clock := c1\<rparr>))"
  by (simp add: news_left_def quiet_for_def time_simps Let_def split: channel_decision.split)

lemma news_left_Some:
  assumes "news_left since until silence sh = (Some left, sh1)" and "sh_opened sh \<le> time (sh_clock sh)"
  shows "sh_inner sh1 = sh_inner sh \<and> sh_opened sh1 = sh_opened sh \<and> time (sh_clock sh) \<le> time (sh_clock sh1)
    \<and> time (sh_clock sh1) < until \<and> 0 < left"
proof -
  have "time (sh_clock sh) \<le> time (tick (tick (sh_clock sh)))" by simp
  with assms show ?thesis
    by (auto simp: news_left_eq Let_def split: if_splits channel_decision.splits)
qed

lemma news_left_None:
  assumes "news_left since until silence sh = (None, sh1)" and "sh_opened sh \<le> time (sh_clock sh)"
  shows "inner_version (sh_inner sh1) \<noteq> since \<or> tracker_state (sh_tracker sh1) \<notin> {State_Waiting, State_Progressing}
    \<or> silent_at silence sh1 \<le> time (sh_clock sh1) \<or> until \<le> time (sh_clock sh1)"
proof -
  have "sh_opened sh \<le> time (tick (sh_clock sh))" using assms(2) by simp
  with assms(1) decide_wait[OF _ this, of silence] decide_reason[OF _ this, of silence] show ?thesis
    by (auto simp: news_left_eq Let_def decide_ready silent_at_def min_def
        split: if_splits channel_decision.splits not_ready.splits)
qed

text \<open>There is something to do: news, an answer, too long a silence, or the end of the round.\<close>

definition worth_a_round :: "u64 \<Rightarrow> instant \<Rightarrow> duration \<Rightarrow> shared \<Rightarrow> bool" where
  "worth_a_round since until silence sh \<longleftrightarrow>
    inner_version (sh_inner sh) \<noteq> since \<or> tracker_state (sh_tracker sh) \<notin> {State_Waiting, State_Progressing}
    \<or> silent_at silence sh \<le> time (sh_clock sh) \<or> until \<le> time (sh_clock sh)"

lemma wait_for_news_ends:
  assumes "nap_ok wakeups nap" and "sh_opened sh \<le> time (sh_clock sh)"
  shows "\<exists>x' sh'. wait_for_news nap since until silence (x, sh) = Some (x', sh')
    \<and> worth_a_round since until silence sh'"
proof -
  let ?inv = "\<lambda>(x, sh). sh_opened sh \<le> time (sh_clock sh)"
  have keep: "?inv s' \<and> (s', s) \<in> nap_order wakeups (\<lambda>_. until)"
    if "?inv s" "news_round nap since until silence s = Continue s'" for s s'
  proof -
    obtain x sh x' sh' where s: "s = (x, sh)" "s' = (x', sh')" by (metis prod.exhaust)
    from that obtain left sh1 where l: "news_left since until silence sh = (Some left, sh1)"
      and n: "nap left (x, sh1) = (x', sh')"
      by (auto simp: news_round_def s split: prod.splits option.splits)
    note l' = news_left_Some[OF l] that(1)
    have "sh_opened sh1 \<le> time (sh_clock sh1)" using l' s by (auto intro: order_trans)
    with nap_keeps[OF assms(1) n] nap_descends[OF assms(1) n, of sh "\<lambda>_. until"] l' s show ?thesis by simp
  qed
  have "\<exists>r. iterate (news_round nap since until silence) (x, sh) = Some r"
    by (rule iterate_total[OF wf_nap_order[of wakeups "\<lambda>_. until"], of ?inv]) (use assms(2) keep in auto)
  then obtain x' sh' where res: "iterate (news_round nap since until silence) (x, sh) = Some (x', sh')" by auto
  have "worth_a_round since until silence (snd (x', sh'))"
  proof (rule iterate_partial[OF res, of ?inv])
    fix s r assume "?inv s" "news_round nap since until silence s = Break r"
    then show "worth_a_round since until silence (snd r)"
      using news_left_None[of since until silence "snd s"]
      by (auto simp: news_round_def worth_a_round_def split: prod.splits option.splits)
  qed (use assms(2) keep in auto)
  with res show ?thesis by (simp add: wait_for_news_def)
qed

section \<open>Properties\<close>

text \<open>C31: Waiting on the channel ends, and says what is known.  If only finitely many wakeups come
  before the time asked for, the wait returns, however long the daemon keeps reporting: success
  exactly if the daemon was heard saying it is ready, died or malformed only if the channel ended or
  broke, and silent only if the silence allowed has passed since the last message or the opening.\<close>

theorem channel_wait_answers:
  assumes "nap_ok wakeups nap" and "sh_opened sh \<le> time (sh_clock sh)"
  shows "\<exists>r x' sh'. channel_wait nap silence (x, sh) = Some (r, x', sh') \<and> (case r of
      Inr _ \<Rightarrow> tracker_state (sh_tracker sh') = State_Ready
    | Inl NotReady_Died \<Rightarrow> tracker_state (sh_tracker sh') = State_Died
    | Inl NotReady_Malformed \<Rightarrow> tracker_state (sh_tracker sh') = State_Malformed
    | Inl NotReady_Silent \<Rightarrow>
        sh_opened sh' + duration_sat_add (tracker_last_message (sh_tracker sh')) silence \<le> time (sh_clock sh'))"
proof -
  let ?inv = "\<lambda>(x, sh). sh_opened sh \<le> time (sh_clock sh)"
  let ?round = "channel_wait_round nap silence"
  have keep: "?inv s' \<and> (s', s) \<in> nap_order wakeups (silent_at silence)"
    if "?inv s" "?round s = Continue s'" for s s'
    using wait_round_descends[OF assms(1), of "snd s" silence "fst s" "fst s'" "snd s'"] that by auto
  have "\<exists>r. iterate ?round (x, sh) = Some r"
    by (rule iterate_total[OF wf_nap_order[of wakeups "silent_at silence"], of ?inv]) (use assms(2) keep in auto)
  then obtain r x' sh' where res: "iterate ?round (x, sh) = Some (r, x', sh')" by auto
  have "case (r, x', sh') of (r, x', sh') \<Rightarrow> (case r of
      Inr _ \<Rightarrow> tracker_state (sh_tracker sh') = State_Ready
    | Inl NotReady_Died \<Rightarrow> tracker_state (sh_tracker sh') = State_Died
    | Inl NotReady_Malformed \<Rightarrow> tracker_state (sh_tracker sh') = State_Malformed
    | Inl NotReady_Silent \<Rightarrow> silent_at silence sh' \<le> time (sh_clock sh'))"
  proof (rule iterate_partial[OF res, of ?inv])
    fix s r assume s: "?inv s" "?round s = Break r"
    obtain x sh where [simp]: "s = (x, sh)" by (cases s)
    have t: "sh_opened sh \<le> time (tick (sh_clock sh))" using s(1) by simp
    from s(2) decide_reason[OF _ t, of silence] show "case r of (r, x', sh') \<Rightarrow> (case r of
        Inr _ \<Rightarrow> tracker_state (sh_tracker sh') = State_Ready
      | Inl NotReady_Died \<Rightarrow> tracker_state (sh_tracker sh') = State_Died
      | Inl NotReady_Malformed \<Rightarrow> tracker_state (sh_tracker sh') = State_Malformed
      | Inl NotReady_Silent \<Rightarrow> silent_at silence sh' \<le> time (sh_clock sh'))"
      by (auto simp: channel_wait_round_def time_simps decide_ready silent_at_def
          split: channel_decision.splits not_ready.splits)
  qed (use assms(2) keep in auto)
  with res show ?thesis unfolding channel_wait_def silent_at_def by blast
qed

text \<open>A sleep in which nothing happens.\<close>

definition quiet_nap :: "duration \<Rightarrow> unit world \<Rightarrow> unit world" where
  "quiet_nap d = (\<lambda>(x, sh). (x, sh\<lparr>sh_clock := elapse d (sh_clock sh)\<rparr>))"

lemma quiet_nap_ok: "nap_ok (\<lambda>_. 0) quiet_nap"
  by (auto simp: nap_ok_def quiet_nap_def)

theorem channel_wait_answers_witness:
  "\<exists>x sh. channel_wait quiet_nap 5 ((), shared_new \<lparr>time = 3, delays = []\<rparr>) = Some (Err NotReady_Silent, x, sh)"
proof -
  have "map_option fst (channel_wait quiet_nap 5 ((), shared_new \<lparr>time = 3, delays = []\<rparr>)) = Some (Err NotReady_Silent)"
    by code_simp
  with channel_wait_answers[OF quiet_nap_ok, of "shared_new \<lparr>time = 3, delays = []\<rparr>" 5 "()"] show ?thesis
    by (auto simp: shared_new_def time_simps tick_def)
qed

text \<open>The channel changes when a round is worth making, never what a probe decides.  A probe of
  signaled evidence hands on every proof and every error of the wrapped probe; it fails on its own
  only when the wrapped probe proved nothing and the channel died, broke or stayed silent too
  long.  A wait that finds news since the probe began returns at once without sleeping; any other
  wait before \<^verbatim>\<open>ready\<close> ends with news, an answer, too long a silence, or the round's end.\<close>

theorem signaled_follows_the_evidence:
  assumes "nap_ok wakeups nap" and "sh_opened sh \<le> time (sh_clock sh)"
  shows "(case probe w of
      (Inl e, w') \<Rightarrow> fst (signaled_probe probe silence (seen, w)) = Err (SignaledError_Evidence e)
    | (Inr (Some p), w') \<Rightarrow> fst (signaled_probe probe silence (seen, w)) = Ok (Some p)
    | (Inr None, x', sh') \<Rightarrow> (case fst (signaled_probe probe silence (seen, w)) of
        Inr p \<Rightarrow> p = None
      | Inl e \<Rightarrow> (\<exists>reason. e = SignaledError_NotReady reason \<and> fst (channel_failure silence sh') = Some reason)))
    \<and> fst (snd (signaled_probe probe silence (seen, w))) = inner_version (sh_inner (snd w))
    \<and> (inner_version (sh_inner sh) \<noteq> seen \<longrightarrow> signaled_wait wait news (seen, x, sh) = Some (seen, x, sh))
    \<and> (\<not> is_ready sh \<longrightarrow> (\<exists>x' sh'.
        signaled_wait wait (\<lambda>since. wait_for_news nap since until silence) (seen, x, sh) = Some (seen, x', sh')
        \<and> worth_a_round seen until silence sh'))"
proof -
  have "\<exists>x' sh'. signaled_wait wait (\<lambda>since. wait_for_news nap since until silence) (seen, x, sh) = Some (seen, x', sh')
      \<and> worth_a_round seen until silence sh'" if "\<not> is_ready sh"
    using wait_for_news_ends[OF assms, of seen until silence x] that
    by (auto simp: signaled_wait_def worth_a_round_def)
  then show ?thesis
    by (auto simp: signaled_probe_def signaled_wait_def Let_def split: prod.splits sum.splits option.splits)
qed

theorem signaled_follows_the_evidence_witness:
  "fst (signaled_probe (\<lambda>w. (Ok (Some (7::nat)) :: unit + nat option, w)) 5 (0, (), shared_new \<lparr>time = 3, delays = []\<rparr>)) = Ok (Some 7)"
  using signaled_follows_the_evidence[OF quiet_nap_ok, where sh = "shared_new \<lparr>time = 3, delays = []\<rparr>"
      and probe = "\<lambda>w. (Ok (Some (7::nat)) :: unit + nat option, w)"
      and w = "((), shared_new \<lparr>time = 3, delays = []\<rparr>)" and silence = 5 and seen = 0]
  by (auto simp: shared_new_def time_simps tick_def)

end
