(* ===== verification/Text.thy ===== *)
theory Text
  imports Rust_Prelude
begin

text \<open>
  What the crate uses of \<^verbatim>\<open>std::fmt\<close>, \<^verbatim>\<open>str\<close> and \<^verbatim>\<open>std::path\<close>: decimal and padded hexadecimal numbers,
  parsing a \<^verbatim>\<open>u64\<close>, trimming, splitting at a character, and joining Unix paths.
\<close>

section \<open>Numbers\<close>

definition digit :: "nat \<Rightarrow> char" where
  "digit n = ''0123456789abcdef'' ! n"

definition digit_value :: "char \<Rightarrow> nat" where
  "digit_value c = of_char c - 48"

definition is_digit :: "char \<Rightarrow> bool" where
  "is_digit c \<longleftrightarrow> 48 \<le> (of_char c :: nat) \<and> (of_char c :: nat) \<le> 57"

fun decimal :: "nat \<Rightarrow> string" where
  "decimal n = (if n < 10 then [digit n] else decimal (n div 10) @ [digit (n mod 10)])"

declare decimal.simps [simp del]

definition decimal_value :: "string \<Rightarrow> nat" where
  "decimal_value s = foldl (\<lambda>n c. 10 * n + digit_value c) 0 s"

text \<open>\<^verbatim>\<open>str::parse::<u64>\<close>: an optional plus sign, at least one digit, no overflow.\<close>

definition parse_u64 :: "string \<Rightarrow> u64 option" where
  "parse_u64 s = (let s = (case s of c # rest \<Rightarrow> if c = CHR ''+'' then rest else s | [] \<Rightarrow> s) in
    if s \<noteq> [] \<and> list_all is_digit s \<and> decimal_value s < 2 ^ 64 then Some (of_nat (decimal_value s)) else None)"

text \<open>\<^verbatim>\<open>{:0kx}\<close> of a number with at most \<^verbatim>\<open>k\<close> hexadecimal digits.\<close>

fun hex_padded :: "nat \<Rightarrow> nat \<Rightarrow> string" where
  "hex_padded 0 n = []"
| "hex_padded (Suc k) n = hex_padded k (n div 16) @ [digit (n mod 16)]"

definition from_be_bytes :: "u8 list \<Rightarrow> nat" where
  "from_be_bytes bytes = foldl (\<lambda>n b. 256 * n + unat b) 0 bytes"

section \<open>Strings and paths\<close>

definition ascii_whitespace :: "char \<Rightarrow> bool" where
  "ascii_whitespace c \<longleftrightarrow> c \<in> {CHR '' '', CHR 0x09, CHR 0x0A, CHR 0x0B, CHR 0x0C, CHR 0x0D}"

definition trim :: "string \<Rightarrow> string" where
  "trim s = rev (dropWhile ascii_whitespace (rev (dropWhile ascii_whitespace s)))"

fun split_at :: "char \<Rightarrow> string \<Rightarrow> string list" where
  "split_at c [] = [[]]"
| "split_at c (x # s) = (if x = c then [] # split_at c s
    else case split_at c s of part # parts \<Rightarrow> (x # part) # parts | [] \<Rightarrow> [[x]])"

definition path_join :: "path \<Rightarrow> path \<Rightarrow> path" where
  "path_join dir name =
    (if name \<noteq> [] \<and> hd name = CHR ''/'' then name
     else if dir = [] \<or> last dir = CHR ''/'' then dir @ name
     else dir @ ''/'' @ name)"

section \<open>Lemmas\<close>

lemma digit_facts:
  assumes "n < 10"
  shows "is_digit (digit n) \<and> digit_value (digit n) = n"
proof -
  have "\<forall>n \<in> set [0..<10]. is_digit (digit n) \<and> digit_value (digit n) = n" by code_simp
  with assms show ?thesis by auto
qed

lemma digit_inj: "m < 16 \<Longrightarrow> n < 16 \<Longrightarrow> digit m = digit n \<longleftrightarrow> m = n"
  unfolding digit_def by (rule nth_eq_iff_index_eq) simp_all

lemma decimal_nonempty [simp]: "decimal n \<noteq> []"
  by (subst decimal.simps) simp

lemma decimal_digits: "list_all is_digit (decimal n)"
proof (induction n rule: decimal.induct)
  case (1 n)
  then show ?case by (subst decimal.simps) (simp add: digit_facts)
qed

lemma decimal_value_decimal [simp]: "decimal_value (decimal n) = n"
proof (induction n rule: decimal.induct)
  case (1 n)
  then show ?case
    by (subst decimal.simps) (auto simp: decimal_value_def digit_facts)
qed

lemma digit_not_plus: "is_digit c \<Longrightarrow> c \<noteq> CHR ''+''"
  by (auto simp: is_digit_def)

lemma parse_decimal: "n < 2 ^ 64 \<Longrightarrow> parse_u64 (decimal n) = Some (of_nat n)"
proof -
  assume "n < 2 ^ 64"
  obtain c rest where "decimal n = c # rest" by (cases "decimal n") auto
  with decimal_digits[of n] digit_not_plus[of c] decimal_value_decimal[of n] \<open>n < 2 ^ 64\<close> show ?thesis
    by (auto simp: parse_u64_def Let_def)
qed

lemma digit_not_space: "is_digit c \<Longrightarrow> \<not> ascii_whitespace c"
  by (auto simp: is_digit_def ascii_whitespace_def)

lemma trim_decimal [simp]: "trim (decimal n) = decimal n"
proof -
  have "dropWhile ascii_whitespace s = s" if "s = [] \<or> is_digit (hd s)" for s
    using that digit_not_space by (cases s) auto
  moreover have "is_digit (hd (decimal n))" "is_digit (last (decimal n))"
    using decimal_digits[of n] by (simp_all add: list_all_iff)
  ultimately show ?thesis by (simp add: trim_def hd_rev)
qed

lemma length_hex_padded [simp]: "length (hex_padded k n) = k"
  by (induction k arbitrary: n) simp_all

lemma hex_padded_inj: "m < 16 ^ k \<Longrightarrow> n < 16 ^ k \<Longrightarrow> hex_padded k m = hex_padded k n \<Longrightarrow> m = n"
proof (induction k arbitrary: m n)
  case (Suc k)
  have "m div 16 = n div 16"
    by (rule Suc.IH) (use Suc.prems in \<open>simp_all add: less_mult_imp_div_less mult.commute\<close>)
  moreover have "m mod 16 = n mod 16"
    using Suc.prems(3) digit_inj[of "m mod 16" "n mod 16"] by simp
  ultimately show ?case by (metis div_mult_mod_eq)
qed simp

lemma from_be_bytes_snoc: "from_be_bytes (bytes @ [b]) = 256 * from_be_bytes bytes + unat b"
  by (simp add: from_be_bytes_def)

lemma byte_less [simp]: "unat (b :: u8) < 256"
  using unsigned_less[of b, where 'a = nat] by simp

lemma from_be_bytes_less: "from_be_bytes bytes < 256 ^ length bytes"
proof (induction bytes rule: rev_induct)
  case (snoc b bytes)
  have "256 * from_be_bytes bytes + unat b < 256 * (from_be_bytes bytes + 1)" by simp
  also have "\<dots> \<le> 256 * 256 ^ length bytes" using snoc by (intro mult_le_mono) simp_all
  finally show ?case by (simp add: from_be_bytes_snoc)
qed (simp add: from_be_bytes_def)

lemma from_be_bytes_inj: "length xs = length ys \<Longrightarrow> from_be_bytes xs = from_be_bytes ys \<Longrightarrow> xs = ys"
proof (induction xs arbitrary: ys rule: rev_induct)
  case (snoc x xs)
  then obtain y ys' where ys: "ys = ys' @ [y]" by (metis length_0_conv rev_exhaust length_append_singleton nat.distinct(1))
  from snoc.prems(2) have eq: "256 * from_be_bytes xs + unat x = 256 * from_be_bytes ys' + unat y"
    by (simp add: ys from_be_bytes_snoc)
  have "(256 * n + unat b) mod 256 = unat b" for n and b :: u8 by simp
  from this[of "from_be_bytes xs" x] this[of "from_be_bytes ys'" y] eq have "unat x = unat y" by metis
  moreover from eq this have "from_be_bytes xs = from_be_bytes ys'" by simp
  ultimately show ?case using snoc.IH[of ys'] snoc.prems(1) by (simp add: ys word_unat_eq_iff)
qed simp

text \<open>Splitting text at the first occurrence of a character that the part before does not have.\<close>

lemma split_first: "c \<notin> set xs \<Longrightarrow> c \<notin> set xs' \<Longrightarrow> xs @ c # ys = xs' @ c # ys' \<longleftrightarrow> xs = xs' \<and> ys = ys'"
proof (induction xs arbitrary: xs')
  case (Cons x xs)
  then show ?case by (cases xs') auto
qed (auto simp: Cons_eq_append_conv)

end
