(* ===== verification/Identity.thy ===== *)
theory Identity
  imports Text
begin

text \<open>
  Service identities and the endpoints derived from them: \<^verbatim>\<open>identity.rs\<close>, \<^verbatim>\<open>socket_path.rs\<close> and the name
  builder of \<^verbatim>\<open>local/pipe_name.rs\<close>. Strings and paths are their UTF-8 bytes. The platform the
  crate is compiled for is the argument \<^verbatim>\<open>target\<close>; joining a path is the Unix operation, the only
  platform family with a limit to check.
\<close>

section \<open>Socket names and directories\<close>

datatype target_os = Target_Linux | Target_Unix | Target_Windows

fun MAX_SOCKET_PATH_BYTES :: "target_os \<Rightarrow> nat option" where
  "MAX_SOCKET_PATH_BYTES Target_Linux = Some 107"
| "MAX_SOCKET_PATH_BYTES Target_Unix = Some 103"
| "MAX_SOCKET_PATH_BYTES Target_Windows = None"

definition MAX_NAME_BYTES :: nat where
  "MAX_NAME_BYTES = 48"

datatype socket_name = SocketName (as_str: string)

definition socket_name_new :: "string \<Rightarrow> socket_name ret" where
  "socket_name_new bytes =
    (if bytes = [] then Panicked
     else if length bytes > MAX_NAME_BYTES then Panicked
     else if bytes = ''.'' \<or> bytes = ''..'' then Panicked
     else if list_all (\<lambda>b. b \<noteq> CHR ''/'' \<and> b \<noteq> CHR 0x5C \<and> b \<noteq> CHR '':'' \<and> b \<noteq> CHR 0x00) bytes
       then Returned (SocketName bytes)
     else Panicked)"

definition path_bytes :: "path \<Rightarrow> nat" where
  "path_bytes p = length p"

definition check_socket_path :: "target_os \<Rightarrow> path \<Rightarrow> io_error + unit" where
  "check_socket_path target socket =
    (case MAX_SOCKET_PATH_BYTES target of
       None \<Rightarrow> Ok ()
     | Some limit \<Rightarrow>
         let bytes = path_bytes socket in
         if bytes > limit then
           Err (io_error_new ErrorKind_InvalidInput
             (''socket path is '' @ decimal bytes @ '' bytes, but a Unix socket path can be at most '' @
              decimal limit @ '' on this platform: '' @ socket))
         else Ok ())"

definition max_dir_bytes :: "target_os \<Rightarrow> socket_name list \<Rightarrow> nat option" where
  "max_dir_bytes target names =
    (case MAX_SOCKET_PATH_BYTES target of
       None \<Rightarrow> None
     | Some limit \<Rightarrow>
         let longest = foldl max 0 (map (length \<circ> as_str) names) in
         Some (limit - (longest + 1)))"

record socket_dir =
  sd_dir :: path

text \<open>\<^verbatim>\<open>Iterator::max_by_key\<close>: the last of several greatest elements.\<close>

definition max_by_key :: "('a \<Rightarrow> nat) \<Rightarrow> 'a list \<Rightarrow> 'a option" where
  "max_by_key key xs =
    (case xs of [] \<Rightarrow> None | x # rest \<Rightarrow> Some (foldl (\<lambda>best y. if key best \<le> key y then y else best) x rest))"

definition socket_dir_new :: "target_os \<Rightarrow> path \<Rightarrow> socket_name list \<Rightarrow> io_error + socket_dir" where
  "socket_dir_new target dir names =
    (case (MAX_SOCKET_PATH_BYTES target, max_by_key (length \<circ> as_str) names) of
       (Some limit, Some longest) \<Rightarrow>
         let bytes = path_bytes (path_join dir (as_str longest)) in
         if bytes > limit then
           Err (io_error_new ErrorKind_InvalidInput
             (''socket `'' @ as_str longest @ ''` in this directory is '' @ decimal bytes @
              '' bytes, but a Unix socket path can be at most '' @ decimal limit @
              '' on this platform, so the directory can be at most '' @
              decimal (limit - (length (as_str longest) + 1)) @ '' bytes: '' @ dir))
         else Ok \<lparr>sd_dir = dir\<rparr>
     | _ \<Rightarrow> Ok \<lparr>sd_dir = dir\<rparr>)"

definition socket_dir_path :: "target_os \<Rightarrow> socket_dir \<Rightarrow> socket_name \<Rightarrow> io_error + path" where
  "socket_dir_path target d name =
    (let p = path_join (sd_dir d) (as_str name) in
     case check_socket_path target p of
       Inl e \<Rightarrow> Err e
     | Inr _ \<Rightarrow> Ok p)"

section \<open>Service identities\<close>

record service_identity =
  si_id :: "u8 list"
  si_application :: string
  si_profile :: string
  si_instance :: string

definition is_ascii_lowercase :: "char \<Rightarrow> bool" where
  "is_ascii_lowercase b \<longleftrightarrow> 97 \<le> (of_char b :: nat) \<and> (of_char b :: nat) \<le> 122"

definition is_ascii_uppercase :: "char \<Rightarrow> bool" where
  "is_ascii_uppercase b \<longleftrightarrow> 65 \<le> (of_char b :: nat) \<and> (of_char b :: nat) \<le> 90"

definition is_ascii_alphanumeric :: "char \<Rightarrow> bool" where
  "is_ascii_alphanumeric b \<longleftrightarrow> is_ascii_lowercase b \<or> is_ascii_uppercase b \<or> is_digit b"

definition bad_part :: "string \<Rightarrow> bool" where
  "bad_part part \<longleftrightarrow>
    part = [] \<or> \<not> is_ascii_alphanumeric (hd part) \<or> \<not> is_ascii_alphanumeric (last part)"

definition bad_component :: "string \<Rightarrow> bool" where
  "bad_component component \<longleftrightarrow>
    component = []
    \<or> length component > 64
    \<or> \<not> list_all (\<lambda>b. is_ascii_lowercase b \<or> is_digit b \<or> b = CHR ''-'' \<or> b = CHR ''.'') component
    \<or> list_ex bad_part (split_at CHR ''.'' component)"

fun check_components :: "string list \<Rightarrow> io_error + unit" where
  "check_components [] = Ok ()"
| "check_components (component # rest) =
    (if bad_component component
     then Err (io_error_new ErrorKind_InvalidInput ''invalid service identity component'')
     else check_components rest)"

text \<open>The id is a \<^verbatim>\<open>[u8; 16]\<close>: callers pass sixteen bytes.\<close>

definition service_identity_new :: "u8 list \<Rightarrow> string \<Rightarrow> string \<Rightarrow> string \<Rightarrow> io_error + service_identity" where
  "service_identity_new uuid application profile inst =
    (if uuid = replicate 16 0 then Err (io_error_new ErrorKind_InvalidInput ''service UUID must not be nil'')
     else
       let identity = \<lparr>si_id = uuid, si_application = application, si_profile = profile, si_instance = inst\<rparr> in
       case check_components [si_application identity, si_profile identity, si_instance identity] of
         Inl e \<Rightarrow> Err e
       | Inr _ \<Rightarrow> Ok identity)"

definition CONTROL_SOCKET :: socket_name where
  "CONTROL_SOCKET = (case socket_name_new ''control.sock'' of Returned name \<Rightarrow> name | Panicked \<Rightarrow> SocketName [])"

record service_paths =
  sp_directory :: path

definition service_identity_paths :: "target_os \<Rightarrow> service_identity \<Rightarrow> path \<Rightarrow> io_error + service_paths" where
  "service_identity_paths target i user_root =
    (let directory =
       path_join (path_join (path_join user_root
         (''service-'' @ hex_padded 32 (from_be_bytes (si_id i))))
         (''profile-'' @ si_profile i))
         (''instance-'' @ si_instance i) in
     case socket_dir_new target directory [CONTROL_SOCKET] of
       Inl e \<Rightarrow> Err e
     | Inr _ \<Rightarrow> Ok \<lparr>sp_directory = directory\<rparr>)"

definition ownership_lock :: "service_paths \<Rightarrow> path" where
  "ownership_lock p = path_join (sp_directory p) ''owner.lock''"

definition upgrade_lock :: "service_paths \<Rightarrow> path" where
  "upgrade_lock p = path_join (sp_directory p) ''upgrade.lock''"

definition discovery :: "service_paths \<Rightarrow> path" where
  "discovery p = path_join (sp_directory p) ''discovery''"

definition control_socket :: "service_paths \<Rightarrow> path" where
  "control_socket p = path_join (sp_directory p) (as_str CONTROL_SOCKET)"

definition service_paths_sockets :: "target_os \<Rightarrow> service_paths \<Rightarrow> socket_name list \<Rightarrow> io_error + socket_dir" where
  "service_paths_sockets target p names = socket_dir_new target (sp_directory p) (CONTROL_SOCKET # names)"

section \<open>Pipe names\<close>

definition MAX_PIPE_NAME_UNITS :: nat where
  "MAX_PIPE_NAME_UNITS = 247"

text \<open>
  \<^verbatim>\<open>str::encode_utf16().count()\<close> on UTF-8 bytes: a continuation byte adds nothing, the lead byte of
  a four-byte sequence adds a surrogate pair, every other byte one unit.
\<close>

definition utf16_units :: "string \<Rightarrow> nat" where
  "utf16_units s = sum_list (map (\<lambda>b. let n = of_char b :: nat in
     if 128 \<le> n \<and> n < 192 then 0 else if 240 \<le> n then 2 else 1) s)"

definition user_pipe_name :: "string \<Rightarrow> service_identity \<Rightarrow> socket_name \<Rightarrow> io_error + string" where
  "user_pipe_name sid identity name =
    (let pipe = sid @ ''_service-'' @ hex_padded 32 (from_be_bytes (si_id identity)) @ ''_profile-'' @
         si_profile identity @ ''_instance-'' @ si_instance identity @ ''_'' @ as_str name;
         units = utf16_units pipe in
     if units > MAX_PIPE_NAME_UNITS then
       Err (io_error_new ErrorKind_InvalidInput
         (''pipe name is '' @ decimal units @ '' characters, but a named pipe name can be at most '' @
          decimal MAX_PIPE_NAME_UNITS @ '': '' @ pipe))
     else Ok pipe)"

section \<open>Names and directories fit\<close>

lemma socket_name_new_returns:
  "socket_name_new s = Returned name \<longleftrightarrow>
    name = SocketName s \<and> s \<noteq> [] \<and> length s \<le> 48 \<and> s \<noteq> ''.'' \<and> s \<noteq> ''..'' \<and>
    set s \<inter> {CHR ''/'', CHR 0x5C, CHR '':'', CHR 0x00} = {}"
  by (auto simp: socket_name_new_def MAX_NAME_BYTES_def list_all_iff)

lemma control_socket_name [simp]: "CONTROL_SOCKET = SocketName ''control.sock''"
  by code_simp

text \<open>A declared name: one that \<^verbatim>\<open>SocketName::new\<close> returned.\<close>

definition declared :: "socket_name \<Rightarrow> bool" where
  "declared name \<longleftrightarrow> socket_name_new (as_str name) = Returned name"

lemma declared_control [simp]: "declared CONTROL_SOCKET"
  by code_simp

lemma declared_name:
  "declared name \<Longrightarrow> as_str name \<noteq> [] \<and> hd (as_str name) \<noteq> CHR ''/'' \<and> length (as_str name) \<le> 48"
  by (cases "as_str name") (auto simp: declared_def socket_name_new_returns)

lemma length_path_join:
  "declared name \<Longrightarrow>
    length (path_join dir (as_str name)) =
      length dir + length (as_str name) + (if dir = [] \<or> last dir = CHR ''/'' then 0 else 1)"
  using declared_name[of name] by (auto simp: path_join_def)

lemma foldl_max_by_key:
  defines "pick key \<equiv> foldl (\<lambda>best y. if key best \<le> key y then y else best)"
  shows "pick key x xs \<in> insert x (set xs) \<and> key x \<le> key (pick key x xs) \<and> (\<forall>y \<in> set xs. key y \<le> (key (pick key x xs) :: nat))"
  unfolding pick_def
proof (induction xs arbitrary: x)
  case (Cons z xs)
  show ?case
  proof (cases "key x \<le> key z")
    case True
    with Cons[of z] show ?thesis by auto
  next
    case False
    with Cons[of x] show ?thesis by auto
  qed
qed simp

lemma max_by_key_greatest:
  "max_by_key key xs = Some m \<Longrightarrow> m \<in> set xs \<and> (\<forall>y \<in> set xs. key y \<le> key m)"
  "max_by_key key xs = None \<longleftrightarrow> xs = []"
  using foldl_max_by_key[of key] by (auto simp: max_by_key_def split: list.splits)

lemma foldl_max_le: "foldl max a ns \<le> b \<longleftrightarrow> a \<le> b \<and> (\<forall>n \<in> set ns. n \<le> b)" for a :: nat
  by (induction ns arbitrary: a) auto

lemma check_socket_path_ok:
  "check_socket_path target p = Inr () \<longleftrightarrow> (\<forall>limit. MAX_SOCKET_PATH_BYTES target = Some limit \<longrightarrow> length p \<le> limit)"
  by (auto simp: check_socket_path_def path_bytes_def Let_def split: option.splits)

lemma path_join_monotone:
  "declared name \<Longrightarrow> declared longest \<Longrightarrow> length (as_str name) \<le> length (as_str longest) \<Longrightarrow>
    length (path_join dir (as_str name)) \<le> length (path_join dir (as_str longest))"
  by (simp add: length_path_join)

lemma socket_dir_new_fits:
  assumes "list_all declared names"
  shows "(\<exists>d. socket_dir_new target dir names = Inr d) \<longleftrightarrow>
    (\<forall>name \<in> set names. check_socket_path target (path_join dir (as_str name)) = Inr ())"
proof (cases "max_by_key (length \<circ> as_str) names")
  case None
  then have "names = []" by (simp add: max_by_key_greatest(2))
  then show ?thesis by (auto simp: socket_dir_new_def max_by_key_def split: option.splits)
next
  case (Some longest)
  then have longest: "longest \<in> set names" "\<forall>name \<in> set names. length (as_str name) \<le> length (as_str longest)"
    using max_by_key_greatest(1)[OF Some] by auto
  have join: "length (path_join dir (as_str name)) \<le> length (path_join dir (as_str longest))" if "name \<in> set names" for name
    using assms that longest by (intro path_join_monotone) (auto simp: list_all_iff)
  show ?thesis
  proof (cases "MAX_SOCKET_PATH_BYTES target")
    case None
    then show ?thesis by (simp add: socket_dir_new_def check_socket_path_def)
  next
    case (Some limit)
    have "(\<exists>d. socket_dir_new target dir names = Inr d) \<longleftrightarrow> length (path_join dir (as_str longest)) \<le> limit"
      using \<open>max_by_key _ _ = Some longest\<close> by (simp add: socket_dir_new_def Some path_bytes_def Let_def)
    also have "\<dots> \<longleftrightarrow> (\<forall>name \<in> set names. length (path_join dir (as_str name)) \<le> limit)"
      using longest(1) join by (meson le_trans)
    finally show ?thesis by (simp add: check_socket_path_ok Some)
  qed
qed

lemma socket_dir_new_cases:
  "socket_dir_new target dir names = Inr d \<Longrightarrow> d = \<lparr>sd_dir = dir\<rparr>"
  "socket_dir_new target dir names = Inl e \<Longrightarrow> io_kind e = ErrorKind_InvalidInput"
  by (auto simp: socket_dir_new_def io_error_new_def Let_def split: option.splits if_splits)

lemma socket_dir_path_cases:
  "socket_dir_path target \<lparr>sd_dir = dir\<rparr> name = Inr p \<longleftrightarrow>
    p = path_join dir (as_str name) \<and> check_socket_path target (path_join dir (as_str name)) = Inr ()"
  by (auto simp: socket_dir_path_def Let_def split: sum.splits)

lemma within_budget:
  assumes names: "list_all declared names" "names \<noteq> []" and dir: "dir \<noteq> []" "last dir \<noteq> CHR ''/''"
    and budget: "max_dir_bytes target names = Some budget"
  shows "(\<forall>name \<in> set names. check_socket_path target (path_join dir (as_str name)) = Inr ()) \<longleftrightarrow> length dir \<le> budget"
proof -
  obtain limit where limit: "MAX_SOCKET_PATH_BYTES target = Some limit"
    and b: "budget = limit - (foldl max 0 (map (length \<circ> as_str) names) + 1)"
    using budget by (auto simp: max_dir_bytes_def Let_def split: option.splits)
  let ?longest = "foldl max 0 (map (length \<circ> as_str) names)"
  have small: "?longest \<le> 48"
    using names declared_name by (auto simp: foldl_max_le list_all_iff)
  have large: "103 \<le> limit"
    using limit by (cases target) auto
  have "length dir \<le> budget \<longleftrightarrow> ?longest \<le> limit - 1 - length dir \<and> length dir + 1 \<le> limit"
    using small large b by auto
  also have "\<dots> \<longleftrightarrow> (\<forall>name \<in> set names. length dir + 1 + length (as_str name) \<le> limit)"
    using names(2) by (auto simp: foldl_max_le neq_Nil_conv)
  finally show ?thesis
    using names(1) dir by (auto simp: check_socket_path_ok limit length_path_join list_all_iff)
qed

text \<open>C40: A socket directory is accepted exactly when every declared socket fits the platform's
  address. An accepted directory hands out the path of each declared name, within the limit; a
  refused one, reported as invalid input, has a declared name whose own path is refused. For a
  directory with no trailing separator this is exactly the budget \<^verbatim>\<open>max_dir_bytes\<close> announces.
\<close>

theorem declared_sockets_fit:
  assumes "list_all declared names"
  shows "(case socket_dir_new target dir names of
      Inr d \<Rightarrow> \<forall>name \<in> set names. socket_dir_path target d name = Inr (path_join dir (as_str name)) \<and>
        (\<forall>limit. MAX_SOCKET_PATH_BYTES target = Some limit \<longrightarrow> length (path_join dir (as_str name)) \<le> limit)
    | Inl e \<Rightarrow> io_kind e = ErrorKind_InvalidInput \<and>
        (\<exists>name \<in> set names. \<exists>e'. socket_dir_path target \<lparr>sd_dir = dir\<rparr> name = Inl e'))
    \<and> (names \<noteq> [] \<and> dir \<noteq> [] \<and> last dir \<noteq> CHR ''/'' \<longrightarrow>
        (\<exists>d. socket_dir_new target dir names = Inr d) =
        (\<forall>budget. max_dir_bytes target names = Some budget \<longrightarrow> length dir \<le> budget))"
proof -
  have fits: "(\<exists>d. socket_dir_new target dir names = Inr d) =
    (\<forall>name \<in> set names. check_socket_path target (path_join dir (as_str name)) = Inr ())"
    by (rule socket_dir_new_fits[OF assms])
  have refused: "\<exists>e'. socket_dir_path target \<lparr>sd_dir = dir\<rparr> name = Inl e'"
    if "check_socket_path target (path_join dir (as_str name)) \<noteq> Inr ()" for name
    using that socket_dir_path_cases[of target dir name]
    by (cases "socket_dir_path target \<lparr>sd_dir = dir\<rparr> name") auto
  have unlimited: "max_dir_bytes target names = None \<Longrightarrow> check_socket_path target p = Inr ()" for p
    by (auto simp: max_dir_bytes_def check_socket_path_def Let_def split: option.splits)
  show ?thesis
  proof (intro conjI impI)
    show "case socket_dir_new target dir names of
      Inr d \<Rightarrow> \<forall>name \<in> set names. socket_dir_path target d name = Inr (path_join dir (as_str name)) \<and>
        (\<forall>limit. MAX_SOCKET_PATH_BYTES target = Some limit \<longrightarrow> length (path_join dir (as_str name)) \<le> limit)
    | Inl e \<Rightarrow> io_kind e = ErrorKind_InvalidInput \<and>
        (\<exists>name \<in> set names. \<exists>e'. socket_dir_path target \<lparr>sd_dir = dir\<rparr> name = Inl e')"
    proof (cases "socket_dir_new target dir names")
      case (Inl e)
      with fits obtain name where "name \<in> set names" "check_socket_path target (path_join dir (as_str name)) \<noteq> Inr ()"
        by auto
      with Inl refused[of name] socket_dir_new_cases(2)[OF Inl] show ?thesis by auto
    next
      case (Inr d)
      with fits have "\<forall>name \<in> set names. check_socket_path target (path_join dir (as_str name)) = Inr ()" by auto
      with Inr socket_dir_new_cases(1)[OF Inr] show ?thesis
        by (auto simp: socket_dir_path_cases check_socket_path_ok)
    qed
  next
    assume "names \<noteq> [] \<and> dir \<noteq> [] \<and> last dir \<noteq> CHR ''/''"
    with fits within_budget[OF assms] unlimited
    show "(\<exists>d. socket_dir_new target dir names = Inr d) =
      (\<forall>budget. max_dir_bytes target names = Some budget \<longrightarrow> length dir \<le> budget)"
      by (cases "max_dir_bytes target names") auto
  qed
qed

theorem declared_sockets_fit_witness:
  "list_all declared [SocketName ''daemon.sock'', CONTROL_SOCKET] \<and>
   socket_dir_path Target_Unix \<lparr>sd_dir = ''/run/kache''\<rparr> (SocketName ''daemon.sock'') = Inr ''/run/kache/daemon.sock'' \<and>
   (\<exists>d. socket_dir_new Target_Unix (replicate 91 CHR ''a'') [SocketName ''daemon.sock'', CONTROL_SOCKET] = Inr d) = False"
proof (intro conjI)
  show names: "list_all declared [SocketName ''daemon.sock'', CONTROL_SOCKET]" by code_simp
  have "socket_dir_new Target_Unix ''/run/kache'' [SocketName ''daemon.sock'', CONTROL_SOCKET] = Inr \<lparr>sd_dir = ''/run/kache''\<rparr>"
    by code_simp
  moreover have "path_join ''/run/kache'' ''daemon.sock'' = ''/run/kache/daemon.sock''" by code_simp
  ultimately show "socket_dir_path Target_Unix \<lparr>sd_dir = ''/run/kache''\<rparr> (SocketName ''daemon.sock'') = Inr ''/run/kache/daemon.sock''"
    using declared_sockets_fit[OF names, of Target_Unix "''/run/kache''"] by simp
  have "max_dir_bytes Target_Unix [SocketName ''daemon.sock'', CONTROL_SOCKET] = Some 90" by code_simp
  then show "(\<exists>d. socket_dir_new Target_Unix (replicate 91 CHR ''a'') [SocketName ''daemon.sock'', CONTROL_SOCKET] = Inr d) = False"
    using declared_sockets_fit[OF names, of Target_Unix "replicate 91 CHR ''a''"] by (simp add: last_replicate)
qed

section \<open>Names of different installations never meet\<close>

text \<open>The characters of identities and of the separators around them.\<close>

definition plain :: "char \<Rightarrow> bool" where
  "plain c \<longleftrightarrow> is_ascii_lowercase c \<or> is_digit c \<or> c = CHR ''-'' \<or> c = CHR ''.''"

definition valid_identity :: "service_identity \<Rightarrow> bool" where
  "valid_identity i \<longleftrightarrow> length (si_id i) = 16 \<and> si_id i \<noteq> replicate 16 0 \<and>
    list_all (\<lambda>s. \<not> bad_component s) [si_application i, si_profile i, si_instance i]"

lemma check_components_ok: "check_components cs = Inr () \<longleftrightarrow> list_all (\<lambda>s. \<not> bad_component s) cs"
  by (induction cs) auto

lemma service_identity_new_ok:
  "service_identity_new uuid application profile inst = Inr i \<longleftrightarrow>
    i = \<lparr>si_id = uuid, si_application = application, si_profile = profile, si_instance = inst\<rparr> \<and>
    uuid \<noteq> replicate 16 0 \<and> list_all (\<lambda>s. \<not> bad_component s) [application, profile, inst]"
  using check_components_ok[of "[application, profile, inst]"]
  by (auto simp: service_identity_new_def Let_def split: sum.splits)

lemma bad_component_plain: "\<not> bad_component s \<Longrightarrow> s \<noteq> [] \<and> list_all plain s"
  by (auto simp: bad_component_def plain_def list_all_iff)

lemma digit_plain: "n < 16 \<Longrightarrow> plain (digit n)"
proof -
  have "\<forall>n \<in> set [0..<16]. plain (digit n)" by code_simp
  then show "n < 16 \<Longrightarrow> plain (digit n)" by auto
qed

lemma hex_plain: "list_all plain (hex_padded k n)"
  by (induction k arbitrary: n) (simp_all add: digit_plain)

lemma plain_separators [simp]: "\<not> plain CHR ''/''" "\<not> plain CHR ''_''"
  by code_simp+

lemma identity_plain:
  assumes "valid_identity i"
  shows "list_all plain (si_profile i)" "list_all plain (si_instance i)" "si_profile i \<noteq> []" "si_instance i \<noteq> []"
  using assms bad_component_plain by (auto simp: valid_identity_def)

lemma hex_id_inj:
  assumes "valid_identity i" "valid_identity j"
    and "hex_padded 32 (from_be_bytes (si_id i)) = hex_padded 32 (from_be_bytes (si_id j))"
  shows "si_id i = si_id j"
proof -
  have "from_be_bytes (si_id k) < 16 ^ 32" if "valid_identity k" for k
    using that from_be_bytes_less[of "si_id k"] by (simp add: valid_identity_def)
  with assms have "from_be_bytes (si_id i) = from_be_bytes (si_id j)" by (intro hex_padded_inj[of _ 32]) auto
  with assms show ?thesis by (auto simp: valid_identity_def intro: from_be_bytes_inj)
qed

text \<open>
  Three labelled components, each ended by a separator they do not contain, are read back from
  the text they form; folding the case of what follows changes nothing.
\<close>

lemma components_read_back:
  assumes "list_all plain h" "list_all plain p" "list_all plain n"
    and "list_all plain h'" "list_all plain p'" "list_all plain n'" and "\<not> plain sep"
    and "''service-'' @ h @ [sep] @ ''profile-'' @ p @ [sep] @ ''instance-'' @ n @ sep # x =
      ''service-'' @ h' @ [sep] @ ''profile-'' @ p' @ [sep] @ ''instance-'' @ n' @ sep # x'"
  shows "h = h' \<and> p = p' \<and> n = n' \<and> x = x'"
proof -
  have sep: "sep \<notin> set s" if "list_all plain s" for s
    using that assms(7) by (auto simp: list_all_iff)
  show ?thesis
    using assms(8) split_first[OF sep sep, OF assms(1) assms(4)] split_first[OF sep sep, OF assms(2) assms(5)]
      split_first[OF sep sep, OF assms(3) assms(6)]
    by simp
qed

lemma path_join_relative:
  "name \<noteq> [] \<Longrightarrow> hd name \<noteq> CHR ''/'' \<Longrightarrow> path_join dir name = path_join dir [] @ name"
  "path_join dir [] = (if dir = [] \<or> last dir = CHR ''/'' then dir else dir @ ''/'')"
  by (simp_all add: path_join_def)

lemma plain_last: "list_all plain s \<Longrightarrow> s \<noteq> [] \<Longrightarrow> last (r @ s) \<noteq> CHR ''/''"
  by (metis last_appendR last_in_set list_all_iff plain_separators(1))

lemma service_directory:
  assumes "valid_identity i" "service_identity_paths target i root = Inr p"
  shows "sp_directory p = path_join root [] @
    ''service-'' @ hex_padded 32 (from_be_bytes (si_id i)) @ ''/profile-'' @ si_profile i @ ''/instance-'' @ si_instance i"
proof -
  let ?h = "hex_padded 32 (from_be_bytes (si_id i))"
  have h: "?h \<noteq> []" using length_hex_padded[of 32 "from_be_bytes (si_id i)"] by (auto simp del: length_hex_padded)
  have "sp_directory p = path_join (path_join (path_join root (''service-'' @ ?h)) (''profile-'' @ si_profile i)) (''instance-'' @ si_instance i)"
    using assms(2) by (auto simp: service_identity_paths_def Let_def split: sum.splits)
  moreover have "path_join root (''service-'' @ ?h) = path_join root [] @ ''service-'' @ ?h"
    by (rule path_join_relative) simp_all
  moreover have "path_join (r @ ''service-'' @ ?h) (''profile-'' @ si_profile i) = r @ ''service-'' @ ?h @ ''/profile-'' @ si_profile i" for r
    using plain_last[OF hex_plain h, of "r @ ''service-''"] by (simp add: path_join_def)
  moreover have "path_join (r @ ''service-'' @ ?h @ ''/profile-'' @ si_profile i) (''instance-'' @ si_instance i) =
      r @ ''service-'' @ ?h @ ''/profile-'' @ si_profile i @ ''/instance-'' @ si_instance i" for r
    using plain_last[OF identity_plain(1,3)[OF assms(1)], of "r @ ''service-'' @ ?h @ ''/profile-''"] by (simp add: path_join_def)
  ultimately show ?thesis by (simp only:)
qed

lemma identity_of_new:
  "service_identity_new uuid application profile inst = Inr i \<Longrightarrow> length uuid = 16 \<Longrightarrow> valid_identity i"
  by (auto simp: service_identity_new_ok valid_identity_def)

lemma map_stable: "(\<And>c. c \<in> set s \<Longrightarrow> fold_case c = c) \<Longrightarrow> map fold_case s = s"
  by (simp add: map_idI)

text \<open>
  The names of a name space that may ignore the case of letters are compared after folding. A
  folding that keeps the canonical characters and a separator keeps everything an identity puts
  in a path or a pipe name.
\<close>

definition keeps_canonical :: "(char \<Rightarrow> char) \<Rightarrow> bool" where
  "keeps_canonical fold_case \<longleftrightarrow> list_all (\<lambda>c. fold_case c = c) ''abcdefghijklmnopqrstuvwxyz0123456789-./_''"

lemma plain_listed: "plain c \<Longrightarrow> c \<in> set ''abcdefghijklmnopqrstuvwxyz0123456789-./_''"
proof -
  assume "plain c"
  then have "97 \<le> (of_char c :: nat) \<and> (of_char c :: nat) < 123 \<or> 48 \<le> (of_char c :: nat) \<and> (of_char c :: nat) < 58 \<or>
      (of_char c :: nat) = 45 \<or> (of_char c :: nat) = 46"
    by (auto simp: plain_def is_ascii_lowercase_def is_digit_def)
  then have "(of_char c :: nat) \<in> set [97..<123] \<union> set [48..<58] \<union> {45, 46}"
    by (simp only: set_upt atLeastLessThan_iff Un_iff insert_iff) blast
  moreover have "\<forall>n \<in> set [97..<123] \<union> set [48..<58] \<union> {45, 46 :: nat}. char_of n \<in> set ''abcdefghijklmnopqrstuvwxyz0123456789-./_''"
    by code_simp
  ultimately show ?thesis by (metis char_of_char)
qed

lemma keeps_plain: "keeps_canonical fold_case \<Longrightarrow> list_all plain s \<Longrightarrow> map fold_case s = s"
  using plain_listed by (intro map_stable) (auto simp: keeps_canonical_def list_all_iff simp del: set_simps)

lemma keeps_letters:
  assumes "keeps_canonical fold_case"
  shows "map fold_case ''service-'' = ''service-''" "map fold_case ''profile-'' = ''profile-''"
    "map fold_case ''instance-'' = ''instance-''" "fold_case CHR ''/'' = CHR ''/''" "fold_case CHR ''_'' = CHR ''_''"
  using assms by (simp_all add: keeps_canonical_def)

text \<open>Resource paths of different installations are disjoint. Two validated identities under one
  user root, of which some files below their service directories have the same path, even on a
  file system that ignores case, have the same UUID, profile and instance, and the files the
  same name within the directory.
\<close>

theorem paths_never_alias:
  assumes "service_identity_new u a p n = Inr i" "length u = 16"
    and "service_identity_new u' a' p' n' = Inr j" "length u' = 16"
    and "service_identity_paths target i root = Inr P" "service_identity_paths target j root = Inr Q"
    and "keeps_canonical fold_case"
    and "map fold_case (sp_directory P @ ''/'' @ x) = map fold_case (sp_directory Q @ ''/'' @ y)"
  shows "u = u' \<and> p = p' \<and> n = n' \<and> map fold_case x = map fold_case y"
proof -
  have i: "valid_identity i" "i = \<lparr>si_id = u, si_application = a, si_profile = p, si_instance = n\<rparr>"
    and j: "valid_identity j" "j = \<lparr>si_id = u', si_application = a', si_profile = p', si_instance = n'\<rparr>"
    using assms(1-4) identity_of_new by (auto simp: service_identity_new_ok)
  note plain_i = identity_plain[OF i(1)] and plain_j = identity_plain[OF j(1)]
  let ?h = "\<lambda>i. hex_padded 32 (from_be_bytes (si_id i))"
  have keep: "map fold_case (?h k) = ?h k" for k
    by (rule keeps_plain[OF assms(7) hex_plain])
  have "''service-'' @ ?h i @ ''/'' @ ''profile-'' @ si_profile i @ ''/'' @ ''instance-'' @ si_instance i @ CHR ''/'' # map fold_case x =
      ''service-'' @ ?h j @ ''/'' @ ''profile-'' @ si_profile j @ ''/'' @ ''instance-'' @ si_instance j @ CHR ''/'' # map fold_case y"
    using assms(8) keeps_letters[OF assms(7)]
      keeps_plain[OF assms(7) plain_i(1)] keeps_plain[OF assms(7) plain_i(2)]
      keeps_plain[OF assms(7) plain_j(1)] keeps_plain[OF assms(7) plain_j(2)]
    by (simp add: keep service_directory[OF i(1) assms(5)] service_directory[OF j(1) assms(6)])
  from components_read_back[OF hex_plain plain_i(1,2) hex_plain plain_j(1,2) plain_separators(1) this]
  have "?h i = ?h j \<and> si_profile i = si_profile j \<and> si_instance i = si_instance j \<and> map fold_case x = map fold_case y" .
  with hex_id_inj[OF i(1) j(1)] i(2) j(2) show ?thesis by simp
qed

theorem paths_never_alias_witness:
  "(\<exists>i P. service_identity_new (replicate 16 1) ''a'' ''dev'' ''x'' = Inr i \<and>
      service_identity_paths Target_Linux i ''/run'' = Inr P \<and>
      map id (sp_directory P @ ''/'' @ ''owner.lock'') = map id (sp_directory P @ ''/'' @ ''owner.lock'')) \<and>
   keeps_canonical id"
proof -
  let ?i = "\<lparr>si_id = replicate 16 1, si_application = ''a'', si_profile = ''dev'', si_instance = ''x''\<rparr>"
  have i: "service_identity_new (replicate 16 1) ''a'' ''dev'' ''x'' = Inr ?i" by code_simp
  have "(case service_identity_paths Target_Linux ?i ''/run'' of Inr _ \<Rightarrow> True | Inl _ \<Rightarrow> False)" by code_simp
  then obtain P where P: "service_identity_paths Target_Linux ?i ''/run'' = Inr P" by (auto split: sum.splits)
  have keeps: "keeps_canonical id" by (simp add: keeps_canonical_def)
  have "length (replicate 16 1 :: u8 list) = 16" by simp
  note paths_never_alias[OF i this i this P P keeps refl]
  with i P keeps show ?thesis by blast
qed

text \<open>Pipe names of different users, installations or endpoints never meet. If two names built
  from SIDs without an underscore and validated identities are the same pipe, which ignores case,
  then the users, the identities' UUIDs, profiles and instances, and the endpoint names up to
  case are the same; and a name that is built fits the limit.
\<close>

theorem pipe_names_never_alias:
  assumes "service_identity_new u a p n = Inr i" "length u = 16"
    and "service_identity_new u' a' p' n' = Inr j" "length u' = 16"
    and "user_pipe_name sid i name = Inr pipe" "user_pipe_name sid' j name' = Inr pipe'"
    and "keeps_canonical fold_case" "CHR ''_'' \<notin> fold_case ` set sid" "CHR ''_'' \<notin> fold_case ` set sid'"
    and "map fold_case pipe = map fold_case pipe'"
  shows "map fold_case sid = map fold_case sid' \<and> u = u' \<and> p = p' \<and> n = n' \<and>
    map fold_case (as_str name) = map fold_case (as_str name') \<and> utf16_units pipe \<le> MAX_PIPE_NAME_UNITS"
proof -
  have i: "valid_identity i" "i = \<lparr>si_id = u, si_application = a, si_profile = p, si_instance = n\<rparr>"
    and j: "valid_identity j" "j = \<lparr>si_id = u', si_application = a', si_profile = p', si_instance = n'\<rparr>"
    using assms(1-4) identity_of_new by (auto simp: service_identity_new_ok)
  note plain_i = identity_plain[OF i(1)] and plain_j = identity_plain[OF j(1)]
  let ?h = "\<lambda>i. hex_padded 32 (from_be_bytes (si_id i))"
  let ?rest = "\<lambda>i name. ''service-'' @ ?h i @ ''_'' @ ''profile-'' @ si_profile i @ ''_'' @ ''instance-'' @ si_instance i @ CHR ''_'' # map fold_case (as_str name)"
  have keep: "map fold_case (?h k) = ?h k" for k
    by (rule keeps_plain[OF assms(7) hex_plain])
  have pipe: "pipe = sid @ ''_service-'' @ ?h i @ ''_profile-'' @ si_profile i @ ''_instance-'' @ si_instance i @ ''_'' @ as_str name"
      "utf16_units pipe \<le> MAX_PIPE_NAME_UNITS"
    and pipe': "pipe' = sid' @ ''_service-'' @ ?h j @ ''_profile-'' @ si_profile j @ ''_instance-'' @ si_instance j @ ''_'' @ as_str name'"
    using assms(5,6) by (auto simp: user_pipe_name_def Let_def split: if_splits)
  have "map fold_case sid @ CHR ''_'' # ?rest i name = map fold_case sid' @ CHR ''_'' # ?rest j name'"
    using assms(10) keeps_letters[OF assms(7)]
      keeps_plain[OF assms(7) plain_i(1)] keeps_plain[OF assms(7) plain_i(2)]
      keeps_plain[OF assms(7) plain_j(1)] keeps_plain[OF assms(7) plain_j(2)]
    by (simp add: keep pipe(1) pipe')
  then have "map fold_case sid = map fold_case sid'" "?rest i name = ?rest j name'"
    using assms(8,9) by (subst (asm) split_first; simp)+
  moreover from components_read_back[OF hex_plain plain_i(1,2) hex_plain plain_j(1,2) plain_separators(2) this(2)]
  have "?h i = ?h j \<and> si_profile i = si_profile j \<and> si_instance i = si_instance j \<and>
    map fold_case (as_str name) = map fold_case (as_str name')" .
  ultimately show ?thesis using hex_id_inj[OF i(1) j(1)] i(2) j(2) pipe(2) by simp
qed

theorem pipe_names_never_alias_witness:
  "\<exists>i pipe. service_identity_new (replicate 16 1) ''a'' ''dev'' ''x'' = Inr i \<and>
     user_pipe_name ''S-1-5'' i CONTROL_SOCKET = Inr pipe \<and> utf16_units pipe \<le> MAX_PIPE_NAME_UNITS"
proof -
  let ?i = "\<lparr>si_id = replicate 16 1, si_application = ''a'', si_profile = ''dev'', si_instance = ''x''\<rparr>"
  have i: "service_identity_new (replicate 16 1) ''a'' ''dev'' ''x'' = Inr ?i" by code_simp
  have "(case user_pipe_name ''S-1-5'' ?i CONTROL_SOCKET of Inr _ \<Rightarrow> True | Inl _ \<Rightarrow> False)" by code_simp
  then obtain pipe where pipe: "user_pipe_name ''S-1-5'' ?i CONTROL_SOCKET = Inr pipe" by (auto split: sum.splits)
  have keeps: "keeps_canonical id" by (simp add: keeps_canonical_def)
  have sid: "CHR ''_'' \<notin> id ` set ''S-1-5''" by simp
  have "length (replicate 16 1 :: u8 list) = 16" by simp
  from pipe_names_never_alias[OF i this i this pipe pipe keeps sid sid refl] i pipe show ?thesis by blast
qed

end
