(* ===== verification/Wire_Messages.thy ===== *)
theory Wire_Messages
  imports Rust_Prelude
begin

text \<open>
  The messages of the binary protocol, as the checked-in protobuf code handles them
  (\<^verbatim>\<open>src/src/wire/generated.rs\<close>): the size computed before encoding, the encoder, and the merge of one
  decoded field.  The runtime that code calls, \<^verbatim>\<open>buffa\<close>, is a parameter: how a field of each type is
  put, measured and decoded, and the loop that reads a tag and merges a field until the input ends.
  A \<^verbatim>\<open>String\<close> is a \<^typ>\<open>string\<close>; an \<^verbatim>\<open>EnumValue\<close> is its number.
\<close>

section \<open>The runtime\<close>

type_synonym enum_value = "32 word"

datatype wire_type = WireType_Varint | WireType_LengthDelimited | WireType_Other

record tag =
  tag_field_number :: nat
  tag_wire_type :: wire_type

datatype decode_error = DecodeError string

text \<open>\<^verbatim>\<open>'u\<close> is the type of an unknown field the runtime keeps.\<close>

record 'u buffa =
  put_uint32_field :: "nat \<Rightarrow> u32 \<Rightarrow> u8 list"
  put_uint64_field :: "nat \<Rightarrow> u64 \<Rightarrow> u8 list"
  put_int32_field :: "nat \<Rightarrow> 32 word \<Rightarrow> u8 list"
  put_bool_field :: "nat \<Rightarrow> bool \<Rightarrow> u8 list"
  put_string_field :: "nat \<Rightarrow> string \<Rightarrow> u8 list"
  put_shared_bytes_field :: "nat \<Rightarrow> u8 list \<Rightarrow> u8 list"
  put_unknown_field :: "'u \<Rightarrow> u8 list"
  uint32_encoded_len :: "u32 \<Rightarrow> nat"
  uint64_encoded_len :: "u64 \<Rightarrow> nat"
  int32_encoded_len :: "32 word \<Rightarrow> nat"
  bool_encoded_len :: nat
  string_encoded_len :: "string \<Rightarrow> nat"
  bytes_encoded_len :: "u8 list \<Rightarrow> nat"
  unknown_encoded_len :: "'u \<Rightarrow> nat"
  read_tag :: "u8 list \<Rightarrow> decode_error + tag \<times> u8 list"
  check_wire_type :: "tag \<Rightarrow> wire_type \<Rightarrow> decode_error option"
  decode_uint32 :: "u8 list \<Rightarrow> decode_error + u32 \<times> u8 list"
  decode_uint64 :: "u8 list \<Rightarrow> decode_error + u64 \<times> u8 list"
  decode_int32 :: "u8 list \<Rightarrow> decode_error + 32 word \<times> u8 list"
  decode_bool :: "u8 list \<Rightarrow> decode_error + bool \<times> u8 list"
  merge_string :: "u8 list \<Rightarrow> decode_error + string \<times> u8 list"
  merge_bytes :: "u8 list \<Rightarrow> decode_error + u8 list \<times> u8 list"
  decode_unknown_field :: "tag \<Rightarrow> u8 list \<Rightarrow> decode_error + 'u \<times> u8 list"
  unknown_number :: "'u \<Rightarrow> nat"

definition saturate_size :: "nat \<Rightarrow> nat" where
  "saturate_size n = min n (2 ^ 32 - 1)"

text \<open>The two shapes of a case of \<^verbatim>\<open>merge_field\<close>: a known field, checked and decoded into its place, and
  an unknown one, kept.\<close>

definition field_into :: "'u buffa \<Rightarrow> tag \<Rightarrow> wire_type \<Rightarrow> (u8 list \<Rightarrow> decode_error + 'a \<times> u8 list)
    \<Rightarrow> ('a \<Rightarrow> 'm \<Rightarrow> 'm) \<Rightarrow> u8 list \<Rightarrow> 'm \<Rightarrow> decode_error + 'm \<times> u8 list" where
  "field_into b tag wire decode upd buf m = (case check_wire_type b tag wire of
     Some e \<Rightarrow> Err e
   | None \<Rightarrow> (case decode buf of
       Inl e \<Rightarrow> Err e
     | Inr (v, buf) \<Rightarrow> Ok (upd v m, buf)))"

definition unknown_into :: "'u buffa \<Rightarrow> tag \<Rightarrow> ('u \<Rightarrow> 'm \<Rightarrow> 'm) \<Rightarrow> u8 list \<Rightarrow> 'm
    \<Rightarrow> decode_error + 'm \<times> u8 list" where
  "unknown_into b tag push buf m = (case decode_unknown_field b tag buf of
     Inl e \<Rightarrow> Err e
   | Inr (u, buf) \<Rightarrow> Ok (push u m, buf))"

section \<open>Enumerations\<close>

datatype message_kind = MessageKind_Lifecycle | MessageKind_Application

datatype lifecycle_change =
    LifecycleChange_Snapshot | LifecycleChange_Ready | LifecycleChange_Draining
  | LifecycleChange_SelectionChanged | LifecycleChange_Retiring

datatype refusal = Refusal_NotRefused | Refusal_ProtocolTooOld | Refusal_PeerRejected | Refusal_ServerRetiring

fun message_kind_to_i32 :: "message_kind \<Rightarrow> 32 word" where
  "message_kind_to_i32 MessageKind_Lifecycle = 0"
| "message_kind_to_i32 MessageKind_Application = 1"

definition message_kind_from_i32 :: "32 word \<Rightarrow> message_kind option" where
  "message_kind_from_i32 v =
    (if v = 0 then Some MessageKind_Lifecycle else if v = 1 then Some MessageKind_Application else None)"

fun lifecycle_change_to_i32 :: "lifecycle_change \<Rightarrow> 32 word" where
  "lifecycle_change_to_i32 LifecycleChange_Snapshot = 0"
| "lifecycle_change_to_i32 LifecycleChange_Ready = 1"
| "lifecycle_change_to_i32 LifecycleChange_Draining = 2"
| "lifecycle_change_to_i32 LifecycleChange_SelectionChanged = 3"
| "lifecycle_change_to_i32 LifecycleChange_Retiring = 4"

definition lifecycle_change_from_i32 :: "32 word \<Rightarrow> lifecycle_change option" where
  "lifecycle_change_from_i32 v =
    (if v = 0 then Some LifecycleChange_Snapshot else if v = 1 then Some LifecycleChange_Ready
     else if v = 2 then Some LifecycleChange_Draining else if v = 3 then Some LifecycleChange_SelectionChanged
     else if v = 4 then Some LifecycleChange_Retiring else None)"

fun refusal_to_i32 :: "refusal \<Rightarrow> 32 word" where
  "refusal_to_i32 Refusal_NotRefused = 0"
| "refusal_to_i32 Refusal_ProtocolTooOld = 1"
| "refusal_to_i32 Refusal_PeerRejected = 2"
| "refusal_to_i32 Refusal_ServerRetiring = 3"

definition refusal_from_i32 :: "32 word \<Rightarrow> refusal option" where
  "refusal_from_i32 v =
    (if v = 0 then Some Refusal_NotRefused else if v = 1 then Some Refusal_ProtocolTooOld
     else if v = 2 then Some Refusal_PeerRejected else if v = 3 then Some Refusal_ServerRetiring else None)"

text \<open>The names of the protobuf schema.\<close>

fun message_kind_proto_name :: "message_kind \<Rightarrow> string" where
  "message_kind_proto_name MessageKind_Lifecycle = ''LIFECYCLE''"
| "message_kind_proto_name MessageKind_Application = ''APPLICATION''"

definition message_kind_values :: "message_kind list" where
  "message_kind_values = [MessageKind_Lifecycle, MessageKind_Application]"

definition message_kind_from_proto_name :: "string \<Rightarrow> message_kind option" where
  "message_kind_from_proto_name name =
    (if name = ''LIFECYCLE'' then Some MessageKind_Lifecycle
     else if name = ''APPLICATION'' then Some MessageKind_Application else None)"

fun lifecycle_change_proto_name :: "lifecycle_change \<Rightarrow> string" where
  "lifecycle_change_proto_name LifecycleChange_Snapshot = ''SNAPSHOT''"
| "lifecycle_change_proto_name LifecycleChange_Ready = ''READY''"
| "lifecycle_change_proto_name LifecycleChange_Draining = ''DRAINING''"
| "lifecycle_change_proto_name LifecycleChange_SelectionChanged = ''SELECTION_CHANGED''"
| "lifecycle_change_proto_name LifecycleChange_Retiring = ''RETIRING''"

definition lifecycle_change_from_proto_name :: "string \<Rightarrow> lifecycle_change option" where
  "lifecycle_change_from_proto_name name =
    (if name = ''SNAPSHOT'' then Some LifecycleChange_Snapshot
     else if name = ''READY'' then Some LifecycleChange_Ready
     else if name = ''DRAINING'' then Some LifecycleChange_Draining
     else if name = ''SELECTION_CHANGED'' then Some LifecycleChange_SelectionChanged
     else if name = ''RETIRING'' then Some LifecycleChange_Retiring else None)"

definition lifecycle_change_values :: "lifecycle_change list" where
  "lifecycle_change_values = [LifecycleChange_Snapshot, LifecycleChange_Ready, LifecycleChange_Draining,
     LifecycleChange_SelectionChanged, LifecycleChange_Retiring]"

fun refusal_proto_name :: "refusal \<Rightarrow> string" where
  "refusal_proto_name Refusal_NotRefused = ''NOT_REFUSED''"
| "refusal_proto_name Refusal_ProtocolTooOld = ''PROTOCOL_TOO_OLD''"
| "refusal_proto_name Refusal_PeerRejected = ''PEER_REJECTED''"
| "refusal_proto_name Refusal_ServerRetiring = ''SERVER_RETIRING''"

definition refusal_from_proto_name :: "string \<Rightarrow> refusal option" where
  "refusal_from_proto_name name =
    (if name = ''NOT_REFUSED'' then Some Refusal_NotRefused
     else if name = ''PROTOCOL_TOO_OLD'' then Some Refusal_ProtocolTooOld
     else if name = ''PEER_REJECTED'' then Some Refusal_PeerRejected
     else if name = ''SERVER_RETIRING'' then Some Refusal_ServerRetiring else None)"

definition refusal_values :: "refusal list" where
  "refusal_values = [Refusal_NotRefused, Refusal_ProtocolTooOld, Refusal_PeerRejected, Refusal_ServerRetiring]"

section \<open>Messages\<close>

text \<open>\<^verbatim>\<open>Hello\<close>.\<close>

record 'u hello =
  hello_minimum :: u32
  hello_maximum :: u32
  hello_supported :: u64
  hello_required :: u64
  hello_max_frame :: u32
  hello_application :: string
  hello_profile :: string
  hello_instance :: string
  hello_service_id :: "u8 list"
  hello_reads_refusal :: bool
  hello_refusal :: enum_value
  hello_unknown :: "'u list"

definition hello_default :: "'u hello" where
  "hello_default = \<lparr>hello_minimum = 0, hello_maximum = 0, hello_supported = 0, hello_required = 0, hello_max_frame = 0,
     hello_application = [], hello_profile = [], hello_instance = [], hello_service_id = [],
     hello_reads_refusal = False, hello_refusal = 0,
     hello_unknown = []\<rparr>"

definition hello_compute_size :: "'u buffa \<Rightarrow> 'u hello \<Rightarrow> nat" where
  "hello_compute_size b m = saturate_size (
     (if hello_minimum m \<noteq> 0 then 1 + uint32_encoded_len b (hello_minimum m) else 0)
     + (if hello_maximum m \<noteq> 0 then 1 + uint32_encoded_len b (hello_maximum m) else 0)
     + (if hello_supported m \<noteq> 0 then 1 + uint64_encoded_len b (hello_supported m) else 0)
     + (if hello_required m \<noteq> 0 then 1 + uint64_encoded_len b (hello_required m) else 0)
     + (if hello_max_frame m \<noteq> 0 then 1 + uint32_encoded_len b (hello_max_frame m) else 0)
     + (if hello_application m \<noteq> [] then 1 + string_encoded_len b (hello_application m) else 0)
     + (if hello_profile m \<noteq> [] then 1 + string_encoded_len b (hello_profile m) else 0)
     + (if hello_instance m \<noteq> [] then 1 + string_encoded_len b (hello_instance m) else 0)
     + (if hello_service_id m \<noteq> [] then 1 + bytes_encoded_len b (hello_service_id m) else 0)
     + (if hello_reads_refusal m then 1 + bool_encoded_len b else 0)
     + (if hello_refusal m \<noteq> 0 then 1 + int32_encoded_len b (hello_refusal m) else 0)
     + sum_list (map (unknown_encoded_len b) (hello_unknown m)))"

definition hello_write_to :: "'u buffa \<Rightarrow> 'u hello \<Rightarrow> u8 list" where
  "hello_write_to b m =
     (if hello_minimum m \<noteq> 0 then put_uint32_field b 1 (hello_minimum m) else [])
     @ (if hello_maximum m \<noteq> 0 then put_uint32_field b 2 (hello_maximum m) else [])
     @ (if hello_supported m \<noteq> 0 then put_uint64_field b 3 (hello_supported m) else [])
     @ (if hello_required m \<noteq> 0 then put_uint64_field b 4 (hello_required m) else [])
     @ (if hello_max_frame m \<noteq> 0 then put_uint32_field b 5 (hello_max_frame m) else [])
     @ (if hello_application m \<noteq> [] then put_string_field b 6 (hello_application m) else [])
     @ (if hello_profile m \<noteq> [] then put_string_field b 7 (hello_profile m) else [])
     @ (if hello_instance m \<noteq> [] then put_string_field b 8 (hello_instance m) else [])
     @ (if hello_service_id m \<noteq> [] then put_shared_bytes_field b 9 (hello_service_id m) else [])
     @ (if hello_reads_refusal m then put_bool_field b 10 (hello_reads_refusal m) else [])
     @ (if hello_refusal m \<noteq> 0 then put_int32_field b 11 (hello_refusal m) else [])
     @ concat (map (put_unknown_field b) (hello_unknown m))"

definition hello_merge_field :: "'u buffa \<Rightarrow> tag \<Rightarrow> u8 list \<Rightarrow> 'u hello \<Rightarrow> decode_error + 'u hello \<times> u8 list" where
  "hello_merge_field b tag buf m =
    (if tag_field_number tag = 1 then field_into b tag WireType_Varint (decode_uint32 b)
       (\<lambda>v m. m\<lparr>hello_minimum := v\<rparr>) buf m
     else if tag_field_number tag = 2 then field_into b tag WireType_Varint (decode_uint32 b)
       (\<lambda>v m. m\<lparr>hello_maximum := v\<rparr>) buf m
     else if tag_field_number tag = 3 then field_into b tag WireType_Varint (decode_uint64 b)
       (\<lambda>v m. m\<lparr>hello_supported := v\<rparr>) buf m
     else if tag_field_number tag = 4 then field_into b tag WireType_Varint (decode_uint64 b)
       (\<lambda>v m. m\<lparr>hello_required := v\<rparr>) buf m
     else if tag_field_number tag = 5 then field_into b tag WireType_Varint (decode_uint32 b)
       (\<lambda>v m. m\<lparr>hello_max_frame := v\<rparr>) buf m
     else if tag_field_number tag = 6 then field_into b tag WireType_LengthDelimited (merge_string b)
       (\<lambda>v m. m\<lparr>hello_application := v\<rparr>) buf m
     else if tag_field_number tag = 7 then field_into b tag WireType_LengthDelimited (merge_string b)
       (\<lambda>v m. m\<lparr>hello_profile := v\<rparr>) buf m
     else if tag_field_number tag = 8 then field_into b tag WireType_LengthDelimited (merge_string b)
       (\<lambda>v m. m\<lparr>hello_instance := v\<rparr>) buf m
     else if tag_field_number tag = 9 then field_into b tag WireType_LengthDelimited (merge_bytes b)
       (\<lambda>v m. m\<lparr>hello_service_id := v\<rparr>) buf m
     else if tag_field_number tag = 10 then field_into b tag WireType_Varint (decode_bool b)
       (\<lambda>v m. m\<lparr>hello_reads_refusal := v\<rparr>) buf m
     else if tag_field_number tag = 11 then field_into b tag WireType_Varint (decode_int32 b)
       (\<lambda>v m. m\<lparr>hello_refusal := v\<rparr>) buf m
     else unknown_into b tag (\<lambda>u m. m\<lparr>hello_unknown := hello_unknown m @ [u]\<rparr>) buf m)"

definition hello_clear :: "'u hello \<Rightarrow> 'u hello" where
  "hello_clear m = m\<lparr>hello_minimum := 0, hello_maximum := 0, hello_supported := 0, hello_required := 0, hello_max_frame := 0,
     hello_application := [], hello_profile := [], hello_instance := [], hello_service_id := [],
     hello_reads_refusal := False, hello_refusal := 0,
     hello_unknown := []\<rparr>"

text \<open>\<^verbatim>\<open>Control\<close>.\<close>

record 'u control_msg =
  control_operation :: u32
  control_request_id :: u64
  control_generation :: u64
  control_token :: "u8 list"
  control_offset :: "u64 option"
  control_payload :: "u8 list"
  control_kind :: enum_value
  control_unknown :: "'u list"

definition control_default :: "'u control_msg" where
  "control_default = \<lparr>control_operation = 0, control_request_id = 0, control_generation = 0, control_token = [],
     control_offset = None, control_payload = [], control_kind = 0,
     control_unknown = []\<rparr>"

definition control_compute_size :: "'u buffa \<Rightarrow> 'u control_msg \<Rightarrow> nat" where
  "control_compute_size b m = saturate_size (
     (if control_operation m \<noteq> 0 then 1 + uint32_encoded_len b (control_operation m) else 0)
     + (if control_request_id m \<noteq> 0 then 1 + uint64_encoded_len b (control_request_id m) else 0)
     + (if control_generation m \<noteq> 0 then 1 + uint64_encoded_len b (control_generation m) else 0)
     + (if control_token m \<noteq> [] then 1 + bytes_encoded_len b (control_token m) else 0)
     + (case control_offset m of Some v \<Rightarrow> 1 + uint64_encoded_len b v | None \<Rightarrow> 0)
     + (if control_payload m \<noteq> [] then 1 + bytes_encoded_len b (control_payload m) else 0)
     + (if control_kind m \<noteq> 0 then 1 + int32_encoded_len b (control_kind m) else 0)
     + sum_list (map (unknown_encoded_len b) (control_unknown m)))"

definition control_write_to :: "'u buffa \<Rightarrow> 'u control_msg \<Rightarrow> u8 list" where
  "control_write_to b m =
     (if control_operation m \<noteq> 0 then put_uint32_field b 1 (control_operation m) else [])
     @ (if control_request_id m \<noteq> 0 then put_uint64_field b 2 (control_request_id m) else [])
     @ (if control_generation m \<noteq> 0 then put_uint64_field b 3 (control_generation m) else [])
     @ (if control_token m \<noteq> [] then put_shared_bytes_field b 4 (control_token m) else [])
     @ (case control_offset m of Some v \<Rightarrow> put_uint64_field b 5 v | None \<Rightarrow> [])
     @ (if control_payload m \<noteq> [] then put_shared_bytes_field b 6 (control_payload m) else [])
     @ (if control_kind m \<noteq> 0 then put_int32_field b 7 (control_kind m) else [])
     @ concat (map (put_unknown_field b) (control_unknown m))"

definition control_merge_field :: "'u buffa \<Rightarrow> tag \<Rightarrow> u8 list \<Rightarrow> 'u control_msg \<Rightarrow> decode_error + 'u control_msg \<times> u8 list" where
  "control_merge_field b tag buf m =
    (if tag_field_number tag = 1 then field_into b tag WireType_Varint (decode_uint32 b)
       (\<lambda>v m. m\<lparr>control_operation := v\<rparr>) buf m
     else if tag_field_number tag = 2 then field_into b tag WireType_Varint (decode_uint64 b)
       (\<lambda>v m. m\<lparr>control_request_id := v\<rparr>) buf m
     else if tag_field_number tag = 3 then field_into b tag WireType_Varint (decode_uint64 b)
       (\<lambda>v m. m\<lparr>control_generation := v\<rparr>) buf m
     else if tag_field_number tag = 4 then field_into b tag WireType_LengthDelimited (merge_bytes b)
       (\<lambda>v m. m\<lparr>control_token := v\<rparr>) buf m
     else if tag_field_number tag = 5 then field_into b tag WireType_Varint (decode_uint64 b)
       (\<lambda>v m. m\<lparr>control_offset := Some v\<rparr>) buf m
     else if tag_field_number tag = 6 then field_into b tag WireType_LengthDelimited (merge_bytes b)
       (\<lambda>v m. m\<lparr>control_payload := v\<rparr>) buf m
     else if tag_field_number tag = 7 then field_into b tag WireType_Varint (decode_int32 b)
       (\<lambda>v m. m\<lparr>control_kind := v\<rparr>) buf m
     else unknown_into b tag (\<lambda>u m. m\<lparr>control_unknown := control_unknown m @ [u]\<rparr>) buf m)"

definition control_clear :: "'u control_msg \<Rightarrow> 'u control_msg" where
  "control_clear m = m\<lparr>control_operation := 0, control_request_id := 0, control_generation := 0, control_token := [],
     control_offset := None, control_payload := [], control_kind := 0,
     control_unknown := []\<rparr>"

text \<open>\<^verbatim>\<open>Health\<close>.\<close>

record 'u health =
  health_process_id :: u32
  health_generation :: u64
  health_build :: string
  health_revision :: u64
  health_ready :: bool
  health_draining :: bool
  health_active :: u64
  health_unknown :: "'u list"

definition health_default :: "'u health" where
  "health_default = \<lparr>health_process_id = 0, health_generation = 0, health_build = [], health_revision = 0, health_ready =
     False, health_draining = False, health_active = 0,
     health_unknown = []\<rparr>"

definition health_compute_size :: "'u buffa \<Rightarrow> 'u health \<Rightarrow> nat" where
  "health_compute_size b m = saturate_size (
     (if health_process_id m \<noteq> 0 then 1 + uint32_encoded_len b (health_process_id m) else 0)
     + (if health_generation m \<noteq> 0 then 1 + uint64_encoded_len b (health_generation m) else 0)
     + (if health_build m \<noteq> [] then 1 + string_encoded_len b (health_build m) else 0)
     + (if health_revision m \<noteq> 0 then 1 + uint64_encoded_len b (health_revision m) else 0)
     + (if health_ready m then 1 + bool_encoded_len b else 0)
     + (if health_draining m then 1 + bool_encoded_len b else 0)
     + (if health_active m \<noteq> 0 then 1 + uint64_encoded_len b (health_active m) else 0)
     + sum_list (map (unknown_encoded_len b) (health_unknown m)))"

definition health_write_to :: "'u buffa \<Rightarrow> 'u health \<Rightarrow> u8 list" where
  "health_write_to b m =
     (if health_process_id m \<noteq> 0 then put_uint32_field b 1 (health_process_id m) else [])
     @ (if health_generation m \<noteq> 0 then put_uint64_field b 2 (health_generation m) else [])
     @ (if health_build m \<noteq> [] then put_string_field b 3 (health_build m) else [])
     @ (if health_revision m \<noteq> 0 then put_uint64_field b 4 (health_revision m) else [])
     @ (if health_ready m then put_bool_field b 5 (health_ready m) else [])
     @ (if health_draining m then put_bool_field b 6 (health_draining m) else [])
     @ (if health_active m \<noteq> 0 then put_uint64_field b 7 (health_active m) else [])
     @ concat (map (put_unknown_field b) (health_unknown m))"

definition health_merge_field :: "'u buffa \<Rightarrow> tag \<Rightarrow> u8 list \<Rightarrow> 'u health \<Rightarrow> decode_error + 'u health \<times> u8 list" where
  "health_merge_field b tag buf m =
    (if tag_field_number tag = 1 then field_into b tag WireType_Varint (decode_uint32 b)
       (\<lambda>v m. m\<lparr>health_process_id := v\<rparr>) buf m
     else if tag_field_number tag = 2 then field_into b tag WireType_Varint (decode_uint64 b)
       (\<lambda>v m. m\<lparr>health_generation := v\<rparr>) buf m
     else if tag_field_number tag = 3 then field_into b tag WireType_LengthDelimited (merge_string b)
       (\<lambda>v m. m\<lparr>health_build := v\<rparr>) buf m
     else if tag_field_number tag = 4 then field_into b tag WireType_Varint (decode_uint64 b)
       (\<lambda>v m. m\<lparr>health_revision := v\<rparr>) buf m
     else if tag_field_number tag = 5 then field_into b tag WireType_Varint (decode_bool b)
       (\<lambda>v m. m\<lparr>health_ready := v\<rparr>) buf m
     else if tag_field_number tag = 6 then field_into b tag WireType_Varint (decode_bool b)
       (\<lambda>v m. m\<lparr>health_draining := v\<rparr>) buf m
     else if tag_field_number tag = 7 then field_into b tag WireType_Varint (decode_uint64 b)
       (\<lambda>v m. m\<lparr>health_active := v\<rparr>) buf m
     else unknown_into b tag (\<lambda>u m. m\<lparr>health_unknown := health_unknown m @ [u]\<rparr>) buf m)"

definition health_clear :: "'u health \<Rightarrow> 'u health" where
  "health_clear m = m\<lparr>health_process_id := 0, health_generation := 0, health_build := [], health_revision := 0, health_ready
     := False, health_draining := False, health_active := 0,
     health_unknown := []\<rparr>"

text \<open>\<^verbatim>\<open>LifecycleEvent\<close>.\<close>

record 'u lifecycle_event =
  le_change :: enum_value
  le_sequence :: u64
  le_process_id :: u32
  le_generation :: u64
  le_build :: string
  le_ready :: bool
  le_draining :: bool
  le_selected_generation :: "u64 option"
  le_selected_build :: string
  le_retiring :: bool
  le_unknown :: "'u list"

definition lifecycle_event_default :: "'u lifecycle_event" where
  "lifecycle_event_default = \<lparr>le_change = 0, le_sequence = 0, le_process_id = 0, le_generation = 0, le_build = [], le_ready = False,
     le_draining = False, le_selected_generation = None, le_selected_build = [], le_retiring = False,
     le_unknown = []\<rparr>"

definition lifecycle_event_compute_size :: "'u buffa \<Rightarrow> 'u lifecycle_event \<Rightarrow> nat" where
  "lifecycle_event_compute_size b m = saturate_size (
     (if le_change m \<noteq> 0 then 1 + int32_encoded_len b (le_change m) else 0)
     + (if le_sequence m \<noteq> 0 then 1 + uint64_encoded_len b (le_sequence m) else 0)
     + (if le_process_id m \<noteq> 0 then 1 + uint32_encoded_len b (le_process_id m) else 0)
     + (if le_generation m \<noteq> 0 then 1 + uint64_encoded_len b (le_generation m) else 0)
     + (if le_build m \<noteq> [] then 1 + string_encoded_len b (le_build m) else 0)
     + (if le_ready m then 1 + bool_encoded_len b else 0)
     + (if le_draining m then 1 + bool_encoded_len b else 0)
     + (case le_selected_generation m of Some v \<Rightarrow> 1 + uint64_encoded_len b v | None \<Rightarrow> 0)
     + (if le_selected_build m \<noteq> [] then 1 + string_encoded_len b (le_selected_build m) else 0)
     + (if le_retiring m then 1 + bool_encoded_len b else 0)
     + sum_list (map (unknown_encoded_len b) (le_unknown m)))"

definition lifecycle_event_write_to :: "'u buffa \<Rightarrow> 'u lifecycle_event \<Rightarrow> u8 list" where
  "lifecycle_event_write_to b m =
     (if le_change m \<noteq> 0 then put_int32_field b 1 (le_change m) else [])
     @ (if le_sequence m \<noteq> 0 then put_uint64_field b 2 (le_sequence m) else [])
     @ (if le_process_id m \<noteq> 0 then put_uint32_field b 3 (le_process_id m) else [])
     @ (if le_generation m \<noteq> 0 then put_uint64_field b 4 (le_generation m) else [])
     @ (if le_build m \<noteq> [] then put_string_field b 5 (le_build m) else [])
     @ (if le_ready m then put_bool_field b 6 (le_ready m) else [])
     @ (if le_draining m then put_bool_field b 7 (le_draining m) else [])
     @ (case le_selected_generation m of Some v \<Rightarrow> put_uint64_field b 8 v | None \<Rightarrow> [])
     @ (if le_selected_build m \<noteq> [] then put_string_field b 9 (le_selected_build m) else [])
     @ (if le_retiring m then put_bool_field b 10 (le_retiring m) else [])
     @ concat (map (put_unknown_field b) (le_unknown m))"

definition lifecycle_event_merge_field :: "'u buffa \<Rightarrow> tag \<Rightarrow> u8 list \<Rightarrow> 'u lifecycle_event \<Rightarrow> decode_error + 'u lifecycle_event \<times> u8 list" where
  "lifecycle_event_merge_field b tag buf m =
    (if tag_field_number tag = 1 then field_into b tag WireType_Varint (decode_int32 b)
       (\<lambda>v m. m\<lparr>le_change := v\<rparr>) buf m
     else if tag_field_number tag = 2 then field_into b tag WireType_Varint (decode_uint64 b)
       (\<lambda>v m. m\<lparr>le_sequence := v\<rparr>) buf m
     else if tag_field_number tag = 3 then field_into b tag WireType_Varint (decode_uint32 b)
       (\<lambda>v m. m\<lparr>le_process_id := v\<rparr>) buf m
     else if tag_field_number tag = 4 then field_into b tag WireType_Varint (decode_uint64 b)
       (\<lambda>v m. m\<lparr>le_generation := v\<rparr>) buf m
     else if tag_field_number tag = 5 then field_into b tag WireType_LengthDelimited (merge_string b)
       (\<lambda>v m. m\<lparr>le_build := v\<rparr>) buf m
     else if tag_field_number tag = 6 then field_into b tag WireType_Varint (decode_bool b)
       (\<lambda>v m. m\<lparr>le_ready := v\<rparr>) buf m
     else if tag_field_number tag = 7 then field_into b tag WireType_Varint (decode_bool b)
       (\<lambda>v m. m\<lparr>le_draining := v\<rparr>) buf m
     else if tag_field_number tag = 8 then field_into b tag WireType_Varint (decode_uint64 b)
       (\<lambda>v m. m\<lparr>le_selected_generation := Some v\<rparr>) buf m
     else if tag_field_number tag = 9 then field_into b tag WireType_LengthDelimited (merge_string b)
       (\<lambda>v m. m\<lparr>le_selected_build := v\<rparr>) buf m
     else if tag_field_number tag = 10 then field_into b tag WireType_Varint (decode_bool b)
       (\<lambda>v m. m\<lparr>le_retiring := v\<rparr>) buf m
     else unknown_into b tag (\<lambda>u m. m\<lparr>le_unknown := le_unknown m @ [u]\<rparr>) buf m)"

definition lifecycle_event_clear :: "'u lifecycle_event \<Rightarrow> 'u lifecycle_event" where
  "lifecycle_event_clear m = m\<lparr>le_change := 0, le_sequence := 0, le_process_id := 0, le_generation := 0, le_build := [], le_ready :=
     False, le_draining := False, le_selected_generation := None, le_selected_build := [], le_retiring
     := False,
     le_unknown := []\<rparr>"

end
