(* ===== verification/Wire.thy ===== *)
theory Wire
  imports Identity Wire_Messages
begin

unbundle bit_operations_syntax

text \<open>
  Negotiated sessions: \<^verbatim>\<open>wire.rs\<close>. Offers are validated and compared, an agreement is computed, and
  messages travel in length-prefixed frames over a stream. The protobuf runtime's encoding and
  decoding of a whole message are the arguments \<^verbatim>\<open>codec\<close>; the stream is any type with the operations
  \<^verbatim>\<open>stream_ops\<close>. The scratch buffers of the code, which are overwritten before each use, are not
  state of the model.
\<close>

section \<open>Streams and codecs\<close>

record 's stream_ops =
  read_exact :: "nat \<Rightarrow> 's \<Rightarrow> (io_error + u8 list) \<times> 's"
  write_all :: "u8 list \<Rightarrow> 's \<Rightarrow> (io_error + unit) \<times> 's"
  flush :: "'s \<Rightarrow> (io_error + unit) \<times> 's"

record decode_options =
  max_message_size :: nat
  recursion_limit :: nat
  unknown_field_limit :: nat
  element_memory_limit :: nat

record 'm codec =
  try_encode_bounded :: "u32 \<Rightarrow> 'm \<Rightarrow> string + u8 list"
  encode_to_vec :: "'m \<Rightarrow> u8 list"
  decode_from_slice :: "decode_options \<Rightarrow> u8 list \<Rightarrow> string + 'm"

text \<open>An \<^verbatim>\<open>io::Error\<close> of this module: an ordinary one, or one that carries a refusal.\<close>

datatype refused = Refused_ProtocolTooOld | Refused_PeerRejected | Refused_Retiring

datatype wire_error = Io io_error | Io_Refused refused

fun wire_error_kind :: "wire_error \<Rightarrow> error_kind" where
  "wire_error_kind (Io e) = io_kind e"
| "wire_error_kind (Io_Refused r) = ErrorKind_ConnectionRefused"

fun refused_of :: "wire_error \<Rightarrow> refused option" where
  "refused_of (Io e) = None"
| "refused_of (Io_Refused r) = Some r"

fun refused_display :: "refused \<Rightarrow> string" where
  "refused_display Refused_ProtocolTooOld = ''the server requires a newer protocol than this client offers''"
| "refused_display Refused_PeerRejected = ''the server's peer policy rejected this client''"
| "refused_display Refused_Retiring = ''the server is retiring; read discovery again''"

definition invalid :: "string \<Rightarrow> wire_error" where
  "invalid message = Io (io_error_new ErrorKind_InvalidData message)"

definition io :: "(io_error + 'a) \<times> 's \<Rightarrow> (wire_error + 'a) \<times> 's" where
  "io r = (case r of (Inl e, s) \<Rightarrow> (Err (Io e), s) | (Inr x, s) \<Rightarrow> (Ok x, s))"

section \<open>Constants\<close>

definition MAGIC :: "u8 list" where "MAGIC = ascii ''KNDPB002''"
definition VERSION :: u32 where "VERSION = 2"
definition MAX_FRAME :: u32 where "MAX_FRAME = 65536"
definition HELLO_LIMIT :: u32 where "HELLO_LIMIT = 1024"
definition MIN_FRAME :: u32 where "MIN_FRAME = 256"

definition capability_HEALTH :: u64 where "capability_HEALTH = 1"
definition capability_DRAIN :: u64 where "capability_DRAIN = 2"
definition capability_HANDOFF :: u64 where "capability_HANDOFF = 4"
definition capability_APPLICATION :: u64 where "capability_APPLICATION = 8"
definition capability_HEALTH_DETAILS :: u64 where "capability_HEALTH_DETAILS = 16"
definition capability_WATCH :: u64 where "capability_WATCH = 32"

definition operation_HEALTH :: u32 where "operation_HEALTH = 1"
definition operation_DRAIN :: u32 where "operation_DRAIN = 2"
definition operation_PREPARE :: u32 where "operation_PREPARE = 3"
definition operation_PAUSED :: u32 where "operation_PAUSED = 4"
definition operation_READY :: u32 where "operation_READY = 5"
definition operation_COMMIT :: u32 where "operation_COMMIT = 6"
definition operation_ABORT :: u32 where "operation_ABORT = 7"
definition operation_WATCH :: u32 where "operation_WATCH = 8"

lemmas wire_constants = VERSION_def MAX_FRAME_def HELLO_LIMIT_def MIN_FRAME_def
  capability_HEALTH_def capability_DRAIN_def capability_HANDOFF_def capability_APPLICATION_def
  capability_HEALTH_DETAILS_def capability_WATCH_def
  operation_HEALTH_def operation_DRAIN_def operation_PREPARE_def operation_PAUSED_def operation_READY_def
  operation_COMMIT_def operation_ABORT_def operation_WATCH_def

section \<open>Decoding a message\<close>

definition wire_options :: "u32 \<Rightarrow> decode_options" where
  "wire_options limit = \<lparr>max_message_size = unat limit, recursion_limit = 32, unknown_field_limit = 128,
     element_memory_limit = unat MAX_FRAME\<rparr>"

definition decode_message :: "'m codec \<Rightarrow> u8 list \<Rightarrow> u32 \<Rightarrow> wire_error + 'm" where
  "decode_message c buffer limit =
    (case decode_from_slice c (wire_options limit) buffer of
       Inl e \<Rightarrow> Err (Io (io_error_other e))
     | Inr m \<Rightarrow> Ok m)"

section \<open>Health replies\<close>

definition health_response :: "'u health codec \<Rightarrow> 'u health \<Rightarrow> 'u control_msg \<Rightarrow> wire_error + 'u control_msg" where
  "health_response c h request =
    (if control_kind request \<noteq> message_kind_to_i32 MessageKind_Lifecycle
       \<or> \<not> (control_operation request = operation_HEALTH \<or> control_operation request = operation_DRAIN)
     then Err (invalid ''not a health or drain request'')
     else Ok (control_default\<lparr>control_operation := control_operation request,
       control_request_id := control_request_id request,
       control_generation := health_generation h, control_payload := encode_to_vec c h\<rparr>))"

definition health_from_response :: "'u health codec \<Rightarrow> 'u control_msg \<Rightarrow> 'u control_msg \<Rightarrow> wire_error + 'u health" where
  "health_from_response c reply request =
    (if control_kind reply \<noteq> message_kind_to_i32 MessageKind_Lifecycle
       \<or> \<not> (control_operation request = operation_HEALTH \<or> control_operation request = operation_DRAIN)
       \<or> control_operation reply \<noteq> control_operation request
       \<or> control_request_id reply \<noteq> control_request_id request
       \<or> control_token reply \<noteq> []
       \<or> control_offset reply \<noteq> None
     then Err (invalid ''unexpected health response'')
     else case decode_message c (control_payload reply) MAX_FRAME of
       Inl e \<Rightarrow> Err e
     | Inr h \<Rightarrow>
         if health_process_id h = 0 \<or> health_generation h \<noteq> control_generation reply \<or> health_ready h \<and> health_draining h
         then Err (invalid ''invalid health observation'')
         else Ok h)"

section \<open>Offers\<close>

definition hello_new :: "service_identity \<Rightarrow> u64 \<Rightarrow> u64 \<Rightarrow> 'u hello" where
  "hello_new identity supported required =
    hello_default\<lparr>hello_minimum := VERSION, hello_maximum := VERSION, hello_supported := supported,
      hello_required := required, hello_max_frame := MAX_FRAME, hello_application := si_application identity,
      hello_profile := si_profile identity, hello_instance := si_instance identity,
      hello_service_id := si_id identity, hello_reads_refusal := True\<rparr>"

record terms =
  terms_minimum :: u32
  terms_maximum :: u32
  terms_supported :: u64
  terms_required :: u64
  terms_max_frame :: u32

definition terms_of :: "'u hello \<Rightarrow> terms" where
  "terms_of h = \<lparr>terms_minimum = hello_minimum h, terms_maximum = hello_maximum h,
     terms_supported = hello_supported h, terms_required = hello_required h, terms_max_frame = hello_max_frame h\<rparr>"

definition terms_valid :: "terms \<Rightarrow> bool" where
  "terms_valid t \<longleftrightarrow>
    terms_minimum t \<noteq> 0 \<and> terms_minimum t \<le> terms_maximum t \<and>
    terms_required t AND NOT (terms_supported t) = 0 \<and>
    MIN_FRAME \<le> terms_max_frame t \<and> terms_max_frame t \<le> MAX_FRAME"

definition hello_validate :: "'u hello \<Rightarrow> wire_error + unit" where
  "hello_validate h =
    (if length (hello_service_id h) \<noteq> 16 then Err (invalid ''service UUID must have 16 bytes'')
     else case service_identity_new (hello_service_id h) (hello_application h) (hello_profile h) (hello_instance h) of
       Inl _ \<Rightarrow> Err (invalid ''invalid service identity'')
     | Inr _ \<Rightarrow>
         if \<not> terms_valid (terms_of h) then Err (invalid ''invalid version or capability offer'')
         else Ok ())"

record agreement =
  agreement_version :: u32
  agreement_capabilities :: u64
  agreement_max_frame :: u32

definition terms_agree :: "terms \<Rightarrow> terms \<Rightarrow> wire_error + agreement" where
  "terms_agree t remote =
    (let minimum = max (terms_minimum t) (terms_minimum remote);
         maximum = min (terms_maximum t) (terms_maximum remote) in
     if minimum > VERSION \<or> maximum < VERSION then Err (invalid ''no implemented binary version in common'')
     else
       let capabilities = terms_supported t AND terms_supported remote in
       if (terms_required t OR terms_required remote) AND NOT capabilities \<noteq> 0
       then Err (invalid ''required capability unavailable'')
       else Ok \<lparr>agreement_version = VERSION, agreement_capabilities = capabilities,
         agreement_max_frame = min (terms_max_frame t) (terms_max_frame remote)\<rparr>)"

definition same_service :: "'u hello \<Rightarrow> 'u hello \<Rightarrow> bool" where
  "same_service a b \<longleftrightarrow>
    (hello_service_id a, hello_application a, hello_profile a, hello_instance a) =
    (hello_service_id b, hello_application b, hello_profile b, hello_instance b)"

definition negotiate :: "'u hello \<Rightarrow> 'u hello \<Rightarrow> wire_error + agreement" where
  "negotiate local remote =
    (case hello_validate local of
       Inl e \<Rightarrow> Err e
     | Inr _ \<Rightarrow> (case hello_validate remote of
         Inl e \<Rightarrow> Err e
       | Inr _ \<Rightarrow>
           if \<not> same_service local remote then Err (invalid ''service identity mismatch'')
           else terms_agree (terms_of local) (terms_of remote)))"

definition required_capability :: "'u control_msg \<Rightarrow> wire_error + u64" where
  "required_capability message =
    (case message_kind_from_i32 (control_kind message) of
       Some MessageKind_Application \<Rightarrow>
         if control_operation message \<noteq> 0 then Ok capability_APPLICATION
         else Err (invalid ''invalid message kind or application operation'')
     | None \<Rightarrow> Err (invalid ''invalid message kind or application operation'')
     | Some MessageKind_Lifecycle \<Rightarrow>
         let operation = control_operation message in
         if operation = operation_HEALTH then Ok capability_HEALTH
         else if operation = operation_DRAIN then Ok capability_DRAIN
         else if operation_PREPARE \<le> operation \<and> operation \<le> operation_ABORT then Ok capability_HANDOFF
         else if operation = operation_WATCH then Ok capability_WATCH
         else Err (invalid ''unknown control operation''))"

section \<open>Refusals\<close>

fun refused_reason :: "refused \<Rightarrow> refusal" where
  "refused_reason Refused_ProtocolTooOld = Refusal_ProtocolTooOld"
| "refused_reason Refused_PeerRejected = Refusal_PeerRejected"
| "refused_reason Refused_Retiring = Refusal_ServerRetiring"

definition refused_frame :: "refused \<Rightarrow> 'u hello \<Rightarrow> 'u hello \<Rightarrow> 'u hello option" where
  "refused_frame r offer remote =
    (let answered = hello_reads_refusal remote \<and> same_service offer remote in
     if answered \<and> hello_validate remote = Ok ()
     then Some (hello_default\<lparr>hello_refusal := refusal_to_i32 (refused_reason r)\<rparr>)
     else None)"

definition rejection :: "'u hello \<Rightarrow> 'u hello \<Rightarrow> 'u hello option" where
  "rejection offer remote =
    (if hello_maximum remote < VERSION \<or> hello_required offer AND NOT (hello_supported remote) \<noteq> 0
     then refused_frame Refused_ProtocolTooOld offer remote
     else None)"

definition check_refusal :: "'u hello \<Rightarrow> wire_error + unit" where
  "check_refusal remote =
    (case refusal_from_i32 (hello_refusal remote) of
       Some Refusal_NotRefused \<Rightarrow> Ok ()
     | Some Refusal_ProtocolTooOld \<Rightarrow> Err (Io_Refused Refused_ProtocolTooOld)
     | Some Refusal_PeerRejected \<Rightarrow> Err (Io_Refused Refused_PeerRejected)
     | Some Refusal_ServerRetiring \<Rightarrow> Err (Io_Refused Refused_Retiring)
     | None \<Rightarrow> Err (Io (io_error_new ErrorKind_ConnectionRefused ''connection refused for an unknown reason'')))"

section \<open>Frames\<close>

definition to_le_bytes :: "nat \<Rightarrow> u8 list" where
  "to_le_bytes n = map (\<lambda>i. of_nat (n div 256 ^ i)) [0..<4]"

fun from_le_bytes :: "u8 list \<Rightarrow> nat" where
  "from_le_bytes [] = 0"
| "from_le_bytes (b # bytes) = unat b + 256 * from_le_bytes bytes"

definition encode_frame :: "'m codec \<Rightarrow> 'm \<Rightarrow> u32 \<Rightarrow> wire_error + u8 list" where
  "encode_frame c message limit =
    (case try_encode_bounded c limit message of
       Inl e \<Rightarrow> Err (Io (io_error_other e))
     | Inr body \<Rightarrow>
         if length body = 0 then Err (invalid ''empty message'')
         else Ok (to_le_bytes (length body) @ body))"

record 's framed =
  framed_io :: 's
  framed_limit :: u32
  framed_failed :: bool

definition framed_new :: "'s \<Rightarrow> u32 \<Rightarrow> wire_error + 's framed" where
  "framed_new s limit =
    (if \<not> (MIN_FRAME \<le> limit \<and> limit \<le> MAX_FRAME) then Err (invalid ''invalid frame limit'')
     else Ok \<lparr>framed_io = s, framed_limit = limit, framed_failed = False\<rparr>)"

definition framed_usable :: "'s framed \<Rightarrow> wire_error + unit" where
  "framed_usable f = (if framed_failed f then Err (invalid ''session failed; reconnect without replay'') else Ok ())"

text \<open>An operation on the stream of a codec.\<close>

definition on_io :: "('s \<Rightarrow> (io_error + 'a) \<times> 's) \<Rightarrow> 's framed \<Rightarrow> (wire_error + 'a) \<times> 's framed" where
  "on_io f fr = (let (r, s) = io (f (framed_io fr)) in (r, fr\<lparr>framed_io := s\<rparr>))"

definition framed_send :: "'s stream_ops \<Rightarrow> 'm codec \<Rightarrow> 'm \<Rightarrow> 's framed \<Rightarrow> (wire_error + unit) \<times> 's framed" where
  "framed_send ops c message f =
    (case framed_usable f of
       Inl e \<Rightarrow> (Err e, f)
     | Inr _ \<Rightarrow> (case encode_frame c message (framed_limit f) of
         Inl e \<Rightarrow> (Err e, f)
       | Inr buffer \<Rightarrow>
           and_then (on_io (write_all ops buffer) (f\<lparr>framed_failed := True\<rparr>)) (\<lambda>_ f.
           and_then (on_io (flush ops) f) (\<lambda>_ f.
           (Ok (), f\<lparr>framed_failed := False\<rparr>)))))"

definition framed_receive :: "'s stream_ops \<Rightarrow> 'm codec \<Rightarrow> 's framed \<Rightarrow> (wire_error + 'm) \<times> 's framed" where
  "framed_receive ops c f =
    (case framed_usable f of
       Inl e \<Rightarrow> (Err e, f)
     | Inr _ \<Rightarrow>
         and_then (on_io (read_exact ops 4) (f\<lparr>framed_failed := True\<rparr>)) (\<lambda>header f.
         let len = from_le_bytes header in
         if len = 0 \<or> len > unat (framed_limit f)
         then (Err (invalid ''received frame exceeds negotiated bounds''), f)
         else
         and_then (on_io (read_exact ops len) f) (\<lambda>buffer f.
         case decode_message c buffer (framed_limit f) of
           Inl e \<Rightarrow> (Err e, f)
         | Inr value \<Rightarrow> (Ok value, f\<lparr>framed_failed := False\<rparr>))))"

section \<open>Sessions\<close>

record 's session =
  session_frames :: "'s framed"
  session_agreement :: agreement

definition read_acceptance :: "'s stream_ops \<Rightarrow> 's framed \<Rightarrow> (wire_error + unit) \<times> 's framed" where
  "read_acceptance ops f =
    and_then (on_io (read_exact ops 1) f) (\<lambda>accepted f.
    if accepted \<noteq> [1] then (Err (invalid ''peer did not accept negotiation''), f)
    else (Ok (), f))"

text \<open>An establishment returns its result together with the stream as it leaves it.\<close>

definition leaving :: "(wire_error + 'a) \<times> 's framed \<Rightarrow> (wire_error + 'a) \<times> 's" where
  "leaving r = (fst r, framed_io (snd r))"

definition session_connect :: "'s stream_ops \<Rightarrow> 'u hello codec \<Rightarrow> 's \<Rightarrow> 'u hello \<Rightarrow> (wire_error + 's session) \<times> 's" where
  "session_connect ops c s offer =
    (case hello_validate offer of
       Inl e \<Rightarrow> (Err e, s)
     | Inr _ \<Rightarrow>
         and_then (io (write_all ops MAGIC s)) (\<lambda>_ s.
         case framed_new s HELLO_LIMIT of
           Inl e \<Rightarrow> (Err e, s)
         | Inr frames \<Rightarrow> leaving (
             and_then (framed_send ops c offer frames) (\<lambda>_ frames.
             and_then (framed_receive ops c frames) (\<lambda>remote frames.
             case check_refusal remote of
               Inl e \<Rightarrow> (Err e, frames)
             | Inr _ \<Rightarrow> (case negotiate offer remote of
                 Inl e \<Rightarrow> (Err e, frames)
               | Inr agreement \<Rightarrow>
                   and_then (on_io (write_all ops [1]) frames) (\<lambda>_ frames.
                   and_then (on_io (flush ops) frames) (\<lambda>_ frames.
                   and_then (read_acceptance ops frames) (\<lambda>_ frames.
                   let frames = frames\<lparr>framed_limit := agreement_max_frame agreement\<rparr> in
                   (Ok \<lparr>session_frames = frames, session_agreement = agreement\<rparr>, frames)))))))))
    )"

definition session_offered :: "'s stream_ops \<Rightarrow> 'u hello codec \<Rightarrow> 's \<Rightarrow> (wire_error + 's framed \<times> 'u hello) \<times> 's" where
  "session_offered ops c s =
    and_then (io (read_exact ops 8 s)) (\<lambda>magic s.
    if magic \<noteq> MAGIC then (Err (invalid ''wrong binary protocol magic''), s)
    else case framed_new s HELLO_LIMIT of
      Inl e \<Rightarrow> (Err e, s)
    | Inr frames \<Rightarrow> leaving (
        and_then (framed_receive ops c frames) (\<lambda>remote frames. (Ok (frames, remote), frames))))"

definition session_accept :: "'s stream_ops \<Rightarrow> 'u hello codec \<Rightarrow> 's \<Rightarrow> 'u hello \<Rightarrow> (wire_error + 's session) \<times> 's" where
  "session_accept ops c s offer =
    (case hello_validate offer of
       Inl e \<Rightarrow> (Err e, s)
     | Inr _ \<Rightarrow>
         and_then (session_offered ops c s) (\<lambda>(frames, remote) _. leaving (
         case negotiate offer remote of
           Inl error \<Rightarrow>
             (case rejection offer remote of
                Some refusal \<Rightarrow> (Err error, snd (framed_send ops c refusal frames))
              | None \<Rightarrow> (Err error, frames))
         | Inr agreement \<Rightarrow>
             and_then (framed_send ops c offer frames) (\<lambda>_ frames.
             and_then (read_acceptance ops frames) (\<lambda>_ frames.
             and_then (on_io (write_all ops [1]) frames) (\<lambda>_ frames.
             and_then (on_io (flush ops) frames) (\<lambda>_ frames.
             let frames = frames\<lparr>framed_limit := agreement_max_frame agreement\<rparr> in
             (Ok \<lparr>session_frames = frames, session_agreement = agreement\<rparr>, frames))))))))"

definition session_refuse :: "'s stream_ops \<Rightarrow> 'u hello codec \<Rightarrow> 's \<Rightarrow> 'u hello \<Rightarrow> refused \<Rightarrow> (wire_error + unit) \<times> 's" where
  "session_refuse ops c s offer reason =
    and_then (session_offered ops c s) (\<lambda>(frames, remote) _. leaving (
    case refused_frame reason offer remote of
      Some refusal \<Rightarrow> framed_send ops c refusal frames
    | None \<Rightarrow> (Ok (), frames)))"

definition session_check :: "'s session \<Rightarrow> 'u control_msg \<Rightarrow> wire_error + unit" where
  "session_check s message =
    (case required_capability message of
       Inl e \<Rightarrow> Err e
     | Inr capability \<Rightarrow>
         if capability AND agreement_capabilities (session_agreement s) = 0
         then Err (invalid ''operation capability was not negotiated'')
         else Ok ())"

definition session_send :: "'s stream_ops \<Rightarrow> 'u control_msg codec \<Rightarrow> 'u control_msg \<Rightarrow> 's session \<Rightarrow> (wire_error + unit) \<times> 's session" where
  "session_send ops c message s =
    (case session_check s message of
       Inl e \<Rightarrow> (Err e, s)
     | Inr _ \<Rightarrow> (let (r, frames) = framed_send ops c message (session_frames s) in (r, s\<lparr>session_frames := frames\<rparr>)))"

definition session_receive :: "'s stream_ops \<Rightarrow> 'u control_msg codec \<Rightarrow> 's session \<Rightarrow> (wire_error + 'u control_msg) \<times> 's session" where
  "session_receive ops c s =
    (let (r, frames) = framed_receive ops c (session_frames s); s = s\<lparr>session_frames := frames\<rparr> in
     case r of
       Inl e \<Rightarrow> (Err e, s)
     | Inr message \<Rightarrow> (case session_check s message of
         Inl error \<Rightarrow> (Err error, s\<lparr>session_frames := session_frames s\<lparr>framed_failed := True\<rparr>\<rparr>)
       | Inr _ \<Rightarrow> (Ok message, s)))"

section \<open>Endpoints\<close>

datatype endpoint = Endpoint_Legacy string | Endpoint_Binary string

definition select_endpoint :: "string \<Rightarrow> string option \<Rightarrow> wire_error + endpoint" where
  "select_endpoint legacy binary =
    (if legacy = [] then Err (invalid ''missing legacy endpoint'')
     else case binary of
       None \<Rightarrow> Ok (Endpoint_Legacy legacy)
     | Some e \<Rightarrow>
         if e \<noteq> [] \<and> e \<noteq> legacy then Ok (Endpoint_Binary e)
         else Err (invalid ''binary endpoint must be distinct and nonempty''))"

end
