(* ===== verification/Wire_Codec.thy ===== *)
theory Wire_Codec
  imports Wire_Messages
begin

text \<open>
  What the messages rely on of the protobuf runtime, and that every message decodes to itself.
\<close>

section \<open>Laws of the runtime\<close>

text \<open>A field put with a number comes back as its tag and its value, before whatever follows it.\<close>

definition carries :: "'u buffa \<Rightarrow> (nat \<Rightarrow> 'a \<Rightarrow> u8 list) \<Rightarrow> (u8 list \<Rightarrow> decode_error + 'a \<times> u8 list) \<Rightarrow> wire_type \<Rightarrow> bool" where
  "carries b put decode wire \<longleftrightarrow> (\<forall>n v rest. 1 \<le> n \<longrightarrow> n \<le> 15 \<longrightarrow> (\<exists>buf.
     read_tag b (put n v @ rest) = Ok (\<lparr>tag_field_number = n, tag_wire_type = wire\<rparr>, buf)
     \<and> decode buf = Ok (v, rest)))"

text \<open>A field with a number up to 15 takes one byte for its tag.\<close>

definition sized :: "(nat \<Rightarrow> 'a \<Rightarrow> u8 list) \<Rightarrow> ('a \<Rightarrow> nat) \<Rightarrow> bool" where
  "sized put len \<longleftrightarrow> (\<forall>n v. 1 \<le> n \<longrightarrow> n \<le> 15 \<longrightarrow> length (put n v) = 1 + len v)"

definition buffa_ok :: "'u buffa \<Rightarrow> bool" where
  "buffa_ok b \<longleftrightarrow>
     carries b (put_uint32_field b) (decode_uint32 b) WireType_Varint \<and> sized (put_uint32_field b) (uint32_encoded_len b)
   \<and> carries b (put_uint64_field b) (decode_uint64 b) WireType_Varint \<and> sized (put_uint64_field b) (uint64_encoded_len b)
   \<and> carries b (put_int32_field b) (decode_int32 b) WireType_Varint \<and> sized (put_int32_field b) (int32_encoded_len b)
   \<and> carries b (put_bool_field b) (decode_bool b) WireType_Varint \<and> sized (put_bool_field b) (\<lambda>_. bool_encoded_len b)
   \<and> carries b (put_string_field b) (merge_string b) WireType_LengthDelimited
   \<and> sized (put_string_field b) (string_encoded_len b)
   \<and> carries b (put_shared_bytes_field b) (merge_bytes b) WireType_LengthDelimited
   \<and> sized (put_shared_bytes_field b) (bytes_encoded_len b)
   \<and> (\<forall>u rest. \<exists>tag buf. read_tag b (put_unknown_field b u @ rest) = Ok (tag, buf)
        \<and> tag_field_number tag = unknown_number b u \<and> decode_unknown_field b tag buf = Ok (u, rest))
   \<and> (\<forall>u. length (put_unknown_field b u) = unknown_encoded_len b u \<and> 0 < unknown_encoded_len b u)
   \<and> (\<forall>tag wire. check_wire_type b tag wire = None \<longleftrightarrow> tag_wire_type tag = wire)"

type_synonym 'm merge_loop = "(tag \<Rightarrow> u8 list \<Rightarrow> 'm \<Rightarrow> decode_error + 'm \<times> u8 list) \<Rightarrow> 'm \<Rightarrow> u8 list \<Rightarrow> decode_error + 'm"

text \<open>\<^verbatim>\<open>Message::merge\<close>: fields are merged until the input ends.\<close>

definition loop_ok :: "'u buffa \<Rightarrow> 'm merge_loop \<Rightarrow> bool" where
  "loop_ok b loop \<longleftrightarrow> (\<forall>f m. loop f m [] = Ok m)
     \<and> (\<forall>f m bytes tag buf. bytes \<noteq> [] \<longrightarrow> read_tag b bytes = Ok (tag, buf) \<longrightarrow>
          loop f m bytes = (case f tag buf m of Inl e \<Rightarrow> Err e | Inr (m', rest) \<Rightarrow> loop f m' rest))"

section \<open>One field\<close>

lemma field_step:
  assumes "loop_ok b loop" and "carries b put decode wire" and "sized put len" and "1 \<le> n" "n \<le> 15"
    and "\<And>buf. decode buf = Ok (v, rest) \<Longrightarrow>
      f \<lparr>tag_field_number = n, tag_wire_type = wire\<rparr> buf m = Ok (m', rest)"
  shows "loop f m (put n v @ rest) = loop f m' rest"
proof -
  obtain buf where buf: "read_tag b (put n v @ rest) = Ok (\<lparr>tag_field_number = n, tag_wire_type = wire\<rparr>, buf)"
    "decode buf = Ok (v, rest)" using assms(2, 4, 5) unfolding carries_def by blast
  have "length (put n v) = 1 + len v" using assms(3-5) by (simp add: sized_def)
  then have "put n v \<noteq> []" by auto
  with assms(1) buf(1) assms(6)[OF buf(2)] show ?thesis by (simp add: loop_ok_def)
qed

text \<open>A field that is put only when it is not the default, by type.\<close>

lemma optional_step:
  assumes "loop_ok b loop" and "carries b put decode wire" and "sized put len" and "1 \<le> n" "n \<le> 15"
    and "\<And>buf. decode buf = Ok (v, rest) \<Longrightarrow> f \<lparr>tag_field_number = n, tag_wire_type = wire\<rparr> buf m = Ok (m', rest)"
    and "\<not> present \<Longrightarrow> m' = m" and "loop f m' rest = r"
  shows "loop f m ((if present then put n v else []) @ rest) = r"
  using field_step[OF assms(1-5), of v rest f m m'] assms(6-8) by (cases present) simp_all

lemma optional_value_step:
  assumes "loop_ok b loop" and "carries b put decode wire" and "sized put len" and "1 \<le> n" "n \<le> 15"
    and "\<And>v buf. decode buf = Ok (v, rest) \<Longrightarrow>
      f \<lparr>tag_field_number = n, tag_wire_type = wire\<rparr> buf m = Ok (upd (Some v) m, rest)"
    and "upd None m = m" and "loop f (upd x m) rest = r"
  shows "loop f m ((case x of Some v \<Rightarrow> put n v | None \<Rightarrow> []) @ rest) = r"
  using field_step[OF assms(1-5), of _ rest f m] assms(6-8) by (cases x) simp_all

lemma unknown_steps:
  assumes "loop_ok b loop" and "buffa_ok b"
    and "\<And>u m tag buf rest. u \<in> set us \<Longrightarrow> tag_field_number tag = unknown_number b u \<Longrightarrow>
      decode_unknown_field b tag buf = Ok (u, rest) \<Longrightarrow> f tag buf m = Ok (push u m, rest)"
  shows "loop f m (concat (map (put_unknown_field b) us)) = Ok (fold push us m)"
  using assms(3)
proof (induction us arbitrary: m)
  case (Cons u us)
  let ?rest = "concat (map (put_unknown_field b) us)"
  obtain tag buf where t: "read_tag b (put_unknown_field b u @ ?rest) = Ok (tag, buf)"
    "tag_field_number tag = unknown_number b u" "decode_unknown_field b tag buf = Ok (u, ?rest)"
    using assms(2) unfolding buffa_ok_def by blast
  have "put_unknown_field b u \<noteq> []" using assms(2) unfolding buffa_ok_def by (metis length_greater_0_conv)
  with assms(1) t(1) Cons.prems[of u tag buf ?rest m] t(2, 3)
  have "loop f m (concat (map (put_unknown_field b) (u # us))) = loop f (push u m) ?rest"
    by (simp add: loop_ok_def)
  with Cons show ?case by simp
qed (use assms(1) in \<open>simp add: loop_ok_def\<close>)

lemma buffa_steps:
  assumes "buffa_ok b"
  shows "carries b (put_uint32_field b) (decode_uint32 b) WireType_Varint" "sized (put_uint32_field b) (uint32_encoded_len b)"
    "carries b (put_uint64_field b) (decode_uint64 b) WireType_Varint" "sized (put_uint64_field b) (uint64_encoded_len b)"
    "carries b (put_int32_field b) (decode_int32 b) WireType_Varint" "sized (put_int32_field b) (int32_encoded_len b)"
    "carries b (put_bool_field b) (decode_bool b) WireType_Varint" "sized (put_bool_field b) (\<lambda>_. bool_encoded_len b)"
    "carries b (put_string_field b) (merge_string b) WireType_LengthDelimited"
    "sized (put_string_field b) (string_encoded_len b)"
    "carries b (put_shared_bytes_field b) (merge_bytes b) WireType_LengthDelimited"
    "sized (put_shared_bytes_field b) (bytes_encoded_len b)"
    "check_wire_type b tag (tag_wire_type tag) = None"
  using assms by (simp_all add: buffa_ok_def)

lemma check_same: "buffa_ok b \<Longrightarrow> check_wire_type b \<lparr>tag_field_number = n, tag_wire_type = wire\<rparr> wire = None"
  by (simp add: buffa_ok_def)

lemmas opt_steps =
  optional_step[OF _ buffa_steps(1, 2)] optional_step[OF _ buffa_steps(3, 4)] optional_step[OF _ buffa_steps(5, 6)]
  optional_step[OF _ buffa_steps(7, 8)] optional_step[OF _ buffa_steps(9, 10)] optional_step[OF _ buffa_steps(11, 12)]

lemmas opt_value_step = optional_value_step[OF _ buffa_steps(3, 4)]

section \<open>Whole messages\<close>

lemma hello_loop:
  assumes ok: "buffa_ok b" "loop_ok b loop" and foreign: "\<forall>u \<in> set (hello_unknown m). 11 < unknown_number b u"
  shows "loop (hello_merge_field b) hello_default (hello_write_to b m) = Ok m"
proof -
  have push: "fold (\<lambda>u m. m\<lparr>hello_unknown := hello_unknown m @ [u]\<rparr>) us m' = m'\<lparr>hello_unknown := hello_unknown m' @ us\<rparr>"
    for us and m' :: "'a hello" by (induction us arbitrary: m') simp_all
  show ?thesis
    unfolding hello_write_to_def hello_default_def
    by (rule opt_steps[OF ok(2) ok(1) ok(1)], simp, simp,
        simp add: hello_merge_field_def field_into_def check_same[OF ok(1)], (simp; fail)?)+
       (rule trans[OF unknown_steps[OF ok(2) ok(1), where push = "\<lambda>u m. m\<lparr>hello_unknown := hello_unknown m @ [u]\<rparr>"]],
        use foreign in \<open>auto simp: hello_merge_field_def unknown_into_def push split: option.split\<close>)
qed

lemma control_loop:
  assumes ok: "buffa_ok b" "loop_ok b loop" and foreign: "\<forall>u \<in> set (control_unknown m). 7 < unknown_number b u"
  shows "loop (control_merge_field b) control_default (control_write_to b m) = Ok m"
proof -
  have push: "fold (\<lambda>u m. m\<lparr>control_unknown := control_unknown m @ [u]\<rparr>) us m' = m'\<lparr>control_unknown := control_unknown m' @ us\<rparr>"
    for us and m' :: "'a control_msg" by (induction us arbitrary: m') simp_all
  show ?thesis
    unfolding control_write_to_def control_default_def
    by (rule opt_steps[OF ok(2) ok(1) ok(1)]
          opt_value_step[OF ok(2) ok(1) ok(1), where upd = "\<lambda>x m. m\<lparr>control_offset := x\<rparr>"], simp, simp,
        simp add: control_merge_field_def field_into_def check_same[OF ok(1)], (simp; fail)?)+
       (rule trans[OF unknown_steps[OF ok(2) ok(1), where push = "\<lambda>u m. m\<lparr>control_unknown := control_unknown m @ [u]\<rparr>"]],
        use foreign in \<open>auto simp: control_merge_field_def unknown_into_def push split: option.split\<close>)
qed

lemma health_loop:
  assumes ok: "buffa_ok b" "loop_ok b loop" and foreign: "\<forall>u \<in> set (health_unknown m). 7 < unknown_number b u"
  shows "loop (health_merge_field b) health_default (health_write_to b m) = Ok m"
proof -
  have push: "fold (\<lambda>u m. m\<lparr>health_unknown := health_unknown m @ [u]\<rparr>) us m' = m'\<lparr>health_unknown := health_unknown m' @ us\<rparr>"
    for us and m' :: "'a health" by (induction us arbitrary: m') simp_all
  show ?thesis
    unfolding health_write_to_def health_default_def
    by (rule opt_steps[OF ok(2) ok(1) ok(1)], simp, simp,
        simp add: health_merge_field_def field_into_def check_same[OF ok(1)], (simp; fail)?)+
       (rule trans[OF unknown_steps[OF ok(2) ok(1), where push = "\<lambda>u m. m\<lparr>health_unknown := health_unknown m @ [u]\<rparr>"]],
        use foreign in \<open>auto simp: health_merge_field_def unknown_into_def push split: option.split\<close>)
qed

lemma lifecycle_event_loop:
  assumes ok: "buffa_ok b" "loop_ok b loop" and foreign: "\<forall>u \<in> set (le_unknown m). 10 < unknown_number b u"
  shows "loop (lifecycle_event_merge_field b) lifecycle_event_default (lifecycle_event_write_to b m) = Ok m"
proof -
  have push: "fold (\<lambda>u m. m\<lparr>le_unknown := le_unknown m @ [u]\<rparr>) us m' = m'\<lparr>le_unknown := le_unknown m' @ us\<rparr>"
    for us and m' :: "'a lifecycle_event" by (induction us arbitrary: m') simp_all
  show ?thesis
    unfolding lifecycle_event_write_to_def lifecycle_event_default_def
    by (rule opt_steps[OF ok(2) ok(1) ok(1)]
          opt_value_step[OF ok(2) ok(1) ok(1), where upd = "\<lambda>x m. m\<lparr>le_selected_generation := x\<rparr>"], simp, simp,
        simp add: lifecycle_event_merge_field_def field_into_def check_same[OF ok(1)], (simp; fail)?)+
       (rule trans[OF unknown_steps[OF ok(2) ok(1), where push = "\<lambda>u m. m\<lparr>le_unknown := le_unknown m @ [u]\<rparr>"]],
        use foreign in \<open>auto simp: lifecycle_event_merge_field_def unknown_into_def push split: option.split\<close>)
qed

text \<open>The size computed before encoding is the size of the encoding.\<close>

lemma length_if: "length (if c then xs else []) = (if c then length xs else 0)"
  by simp

lemma length_case: "length (case x of Some v \<Rightarrow> f v | None \<Rightarrow> []) = (case x of Some v \<Rightarrow> length (f v) | None \<Rightarrow> 0)"
  by (simp split: option.split)

lemma length_unknown: "buffa_ok b \<Longrightarrow> length (concat (map (put_unknown_field b) us)) = sum_list (map (unknown_encoded_len b) us)"
  by (induction us) (simp_all add: buffa_ok_def)

lemma sized_eq: "sized put len \<Longrightarrow> 1 \<le> n \<Longrightarrow> n \<le> 15 \<Longrightarrow> length (put n v) = 1 + len v"
  by (simp add: sized_def)

lemma sizes:
  assumes "buffa_ok b"
  shows "hello_compute_size b h = saturate_size (length (hello_write_to b h))"
    and "control_compute_size b c = saturate_size (length (control_write_to b c))"
    and "health_compute_size b e = saturate_size (length (health_write_to b e))"
    and "lifecycle_event_compute_size b l = saturate_size (length (lifecycle_event_write_to b l))"
  by (simp_all only: hello_compute_size_def hello_write_to_def control_compute_size_def control_write_to_def
      health_compute_size_def health_write_to_def lifecycle_event_compute_size_def lifecycle_event_write_to_def
      length_append length_if length_case length_unknown[OF assms] add.assoc)
     (simp_all add: sized_eq[OF buffa_steps(2)[OF assms]] sized_eq[OF buffa_steps(4)[OF assms]]
       sized_eq[OF buffa_steps(6)[OF assms]] sized_eq[OF buffa_steps(8)[OF assms]]
       sized_eq[OF buffa_steps(10)[OF assms]] sized_eq[OF buffa_steps(12)[OF assms]] cong: if_cong option.case_cong)

lemma kind_round_trips:
  "message_kind_from_i32 (message_kind_to_i32 k) = Some k
    \<and> message_kind_from_proto_name (message_kind_proto_name k) = Some k \<and> k \<in> set message_kind_values"
  by (cases k) (simp_all add: message_kind_from_i32_def message_kind_from_proto_name_def message_kind_values_def)

lemma change_round_trips:
  "lifecycle_change_from_i32 (lifecycle_change_to_i32 c) = Some c
    \<and> lifecycle_change_from_proto_name (lifecycle_change_proto_name c) = Some c \<and> c \<in> set lifecycle_change_values"
  by (cases c)
     (simp_all add: lifecycle_change_from_i32_def lifecycle_change_from_proto_name_def lifecycle_change_values_def)

lemma refusal_round_trips:
  "refusal_from_i32 (refusal_to_i32 r) = Some r
    \<and> refusal_from_proto_name (refusal_proto_name r) = Some r \<and> r \<in> set refusal_values"
  by (cases r) (simp_all add: refusal_from_i32_def refusal_from_proto_name_def refusal_values_def)

section \<open>A runtime that satisfies the laws\<close>

text \<open>Base-128 numbers, the least significant group first, and fields built from them.\<close>

fun varint :: "nat \<Rightarrow> u8 list" where
  "varint n = (if n < 128 then [of_nat n] else of_nat (n mod 128 + 128) # varint (n div 128))"

fun unvarint :: "u8 list \<Rightarrow> decode_error + nat \<times> u8 list" where
  "unvarint [] = Err (DecodeError ''truncated'')"
| "unvarint (x # xs) = (if unat x < 128 then Ok (unat x, xs)
    else case unvarint xs of Inl e \<Rightarrow> Err e | Inr (n, rest) \<Rightarrow> Ok (unat x - 128 + 128 * n, rest))"

declare varint.simps [simp del]

lemma unat_of_nat_byte: "n < 256 \<Longrightarrow> unat (of_nat n :: u8) = n"
  by (simp add: unat_of_nat take_bit_nat_eq_self)

lemma unvarint_varint [simp]: "unvarint (varint n @ rest) = Ok (n, rest)"
proof (induction n rule: varint.induct)
  case (1 n)
  have "n mod 128 + 128 < 256" by (simp add: less_le_trans[OF mod_less_divisor])
  from unat_of_nat_byte[OF this] have "unat (of_nat (n mod 128) + 128 :: u8) = n mod 128 + 128" by simp
  with 1 show ?case
    by (subst varint.simps) (auto simp: unat_of_nat_byte split: sum.splits)
qed

definition key :: "nat \<Rightarrow> wire_type \<Rightarrow> u8 list" where
  "key n wire = varint (8 * n + (case wire of WireType_Varint \<Rightarrow> 0 | WireType_LengthDelimited \<Rightarrow> 2 | WireType_Other \<Rightarrow> 5))"

definition unkey :: "u8 list \<Rightarrow> decode_error + tag \<times> u8 list" where
  "unkey bytes = (case unvarint bytes of Inl e \<Rightarrow> Err e | Inr (k, rest) \<Rightarrow>
     Ok (\<lparr>tag_field_number = k div 8, tag_wire_type =
       (if k mod 8 = 0 then WireType_Varint else if k mod 8 = 2 then WireType_LengthDelimited else WireType_Other)\<rparr>, rest))"

lemma unkey_key [simp]: "unkey (key n wire @ rest) = Ok (\<lparr>tag_field_number = n, tag_wire_type = wire\<rparr>, rest)"
proof -
  have "Suc (Suc (8 * n)) mod 8 = 2" "Suc (Suc (8 * n)) div 8 = n" "(8 * n + 5) mod 8 = 5" "(8 * n + 5) div 8 = n"
    by presburger+
  then show ?thesis by (cases wire) (simp_all add: unkey_def key_def)
qed

lemma length_key: "n \<le> 15 \<Longrightarrow> length (key n wire) = 1"
  by (cases wire) (simp_all add: key_def varint.simps)

definition delimited :: "u8 list \<Rightarrow> u8 list" where
  "delimited bytes = varint (length bytes) @ bytes"

definition undelimited :: "u8 list \<Rightarrow> decode_error + u8 list \<times> u8 list" where
  "undelimited bytes = (case unvarint bytes of Inl e \<Rightarrow> Err e
   | Inr (n, rest) \<Rightarrow> if n \<le> length rest then Ok (take n rest, drop n rest) else Err (DecodeError ''truncated''))"

lemma undelimited_delimited [simp]: "undelimited (delimited bytes @ rest) = Ok (bytes, rest)"
  by (simp add: undelimited_def delimited_def)

definition decoded :: "('a \<Rightarrow> 'b) \<Rightarrow> decode_error + 'a \<times> u8 list \<Rightarrow> decode_error + 'b \<times> u8 list" where
  "decoded f r = (case r of Inl e \<Rightarrow> Err e | Inr (x, rest) \<Rightarrow> Ok (f x, rest))"

text \<open>Unknown fields are numbers with a field number.\<close>

definition leb :: "(nat \<times> nat) buffa" where
  "leb = \<lparr>
     put_uint32_field = (\<lambda>n v. key n WireType_Varint @ varint (unat v)),
     put_uint64_field = (\<lambda>n v. key n WireType_Varint @ varint (unat v)),
     put_int32_field = (\<lambda>n v. key n WireType_Varint @ varint (unat v)),
     put_bool_field = (\<lambda>n v. key n WireType_Varint @ varint (if v then 1 else 0)),
     put_string_field = (\<lambda>n v. key n WireType_LengthDelimited @ delimited (map of_char v)),
     put_shared_bytes_field = (\<lambda>n v. key n WireType_LengthDelimited @ delimited v),
     put_unknown_field = (\<lambda>(n, v). key n WireType_Varint @ varint v),
     uint32_encoded_len = (\<lambda>v. length (varint (unat v))),
     uint64_encoded_len = (\<lambda>v. length (varint (unat v))),
     int32_encoded_len = (\<lambda>v. length (varint (unat v))),
     bool_encoded_len = 1,
     string_encoded_len = (\<lambda>v. length (delimited (map of_char v))),
     bytes_encoded_len = (\<lambda>v. length (delimited v)),
     unknown_encoded_len = (\<lambda>(n, v). length (key n WireType_Varint @ varint v)),
     read_tag = unkey,
     check_wire_type = (\<lambda>tag wire. if tag_wire_type tag = wire then None else Some (DecodeError ''wire type'')),
     decode_uint32 = (\<lambda>bytes. decoded of_nat (unvarint bytes)),
     decode_uint64 = (\<lambda>bytes. decoded of_nat (unvarint bytes)),
     decode_int32 = (\<lambda>bytes. decoded of_nat (unvarint bytes)),
     decode_bool = (\<lambda>bytes. decoded (\<lambda>n. n \<noteq> 0) (unvarint bytes)),
     merge_string = (\<lambda>bytes. decoded (map (\<lambda>x. char_of (unat x))) (undelimited bytes)),
     merge_bytes = undelimited,
     decode_unknown_field = (\<lambda>tag bytes. decoded (Pair (tag_field_number tag)) (unvarint bytes)),
     unknown_number = fst\<rparr>"

lemma varint_nonempty [simp]: "varint n \<noteq> []"
  by (subst varint.simps) simp

lemma char_byte [simp]: "char_of (unat (of_char c :: u8)) = c"
proof -
  have "of_char c = (of_nat (of_char c) :: u8)" by (simp only: of_nat_of_char)
  moreover have "of_char c < (256 :: nat)" by (rule nat_of_char_less_256)
  ultimately show ?thesis by (metis unat_of_nat_byte char_of_char)
qed

lemma leb_ok: "buffa_ok leb"
  by (auto simp: buffa_ok_def leb_def carries_def sized_def decoded_def length_key comp_def varint.simps[of 0] varint.simps[of "Suc 0"])

definition leb_loop :: "'m merge_loop" where
  "leb_loop f m bytes = (case iterate (\<lambda>(m, bytes).
       if bytes = [] then Break (Ok m)
       else (case unkey bytes of
           Inl e \<Rightarrow> Break (Err e)
         | Inr (tag, buf) \<Rightarrow> (case f tag buf m of Inl e \<Rightarrow> Break (Err e) | Inr s \<Rightarrow> Continue s))) (m, bytes) of
     None \<Rightarrow> Err (DecodeError ''endless'')
   | Some r \<Rightarrow> r)"

lemma leb_loop_ok: "loop_ok leb leb_loop"
  unfolding loop_ok_def
proof (intro conjI allI impI, goal_cases)
  case (1 f m)
  show ?case unfolding leb_loop_def by (subst iterate.simps) simp
next
  case (2 f m bytes tag buf)
  then show ?case
    unfolding leb_loop_def by (subst iterate.simps) (simp add: leb_def split: sum.split prod.split)
qed

section \<open>Properties\<close>



end
