(* ===== verification/Wire_Frames.thy ===== *)
theory Wire_Frames
  imports Wire Wire_Codec "HOL-Library.Sublist"
begin

unbundle bit_operations_syntax

text \<open>
  Agreements are the greatest both offers allow, and frames delimit what they carry. The section
  on codecs has the law sessions rely on and an instance of it built from the generated messages;
  a tape is a reliable connection seen from one end.
\<close>

section \<open>Agreements\<close>

text \<open>
  What an offer allows: the one implemented version in its range, capabilities it supports that
  include those it requires, frames no longer than it receives.
\<close>

definition allows :: "'u hello \<Rightarrow> agreement \<Rightarrow> bool" where
  "allows h a \<longleftrightarrow>
    agreement_version a = VERSION \<and> hello_minimum h \<le> VERSION \<and> VERSION \<le> hello_maximum h \<and>
    agreement_capabilities a AND NOT (hello_supported h) = 0 \<and>
    hello_required h AND NOT (agreement_capabilities a) = 0 \<and>
    MIN_FRAME \<le> agreement_max_frame a \<and> agreement_max_frame a \<le> hello_max_frame h"

definition at_most :: "agreement \<Rightarrow> agreement \<Rightarrow> bool" where
  "at_most a b \<longleftrightarrow> agreement_version a = agreement_version b \<and>
    agreement_capabilities a AND NOT (agreement_capabilities b) = 0 \<and> agreement_max_frame a \<le> agreement_max_frame b"

lemma subset_bits: "(x :: 'a::len word) AND NOT y = 0 \<longleftrightarrow> (\<forall>n. bit x n \<longrightarrow> bit y n)"
  by (auto simp: bit_eq_iff bit_simps) (metis bit_imp_le_length)

lemma union_bits: "((x :: 'a::len word) OR y) AND NOT z = 0 \<longleftrightarrow> x AND NOT z = 0 \<and> y AND NOT z = 0"
  by (auto simp: subset_bits bit_simps)

lemma terms_agree_symmetric: "terms_agree a b = terms_agree b a"
  by (simp add: terms_agree_def Let_def max.commute min.commute and.commute or.commute)

lemma negotiate_ok:
  "negotiate a b = Inr ag \<longleftrightarrow>
    hello_validate a = Inr () \<and> hello_validate b = Inr () \<and> same_service a b \<and>
    terms_agree (terms_of a) (terms_of b) = Inr ag"
  by (auto simp: negotiate_def split: sum.splits)

lemma hello_validate_ok:
  "hello_validate h = Inr () \<longleftrightarrow> length (hello_service_id h) = 16 \<and>
    (\<exists>i. service_identity_new (hello_service_id h) (hello_application h) (hello_profile h) (hello_instance h) = Inr i) \<and>
    terms_valid (terms_of h)"
  by (auto simp: hello_validate_def split: sum.splits)

lemma terms_agree_allowed:
  assumes "terms_valid (terms_of a)" "terms_valid (terms_of b)" "terms_agree (terms_of a) (terms_of b) = Inr ag"
  shows "allows a ag \<and> allows b ag"
  using assms
  by (auto simp: terms_agree_def terms_valid_def terms_of_def allows_def Let_def not_less subset_bits bit_simps split: if_splits)

lemma terms_agree_greatest:
  assumes "allows a ag" "allows b ag"
  shows "\<exists>best. terms_agree (terms_of a) (terms_of b) = Inr best \<and> at_most ag best"
proof -
  have caps: "agreement_capabilities ag AND NOT (hello_supported a AND hello_supported b) = 0"
    "(hello_required a OR hello_required b) AND NOT (hello_supported a AND hello_supported b) = 0"
    using assms unfolding allows_def subset_bits bit_and_iff bit_or_iff by blast+
  have "VERSION \<le> min (hello_maximum a) (hello_maximum b)" "max (hello_minimum a) (hello_minimum b) \<le> VERSION"
    using assms by (auto simp: allows_def)
  with caps assms show ?thesis
    by (auto simp: terms_agree_def terms_of_def at_most_def allows_def Let_def not_less)
qed

lemma same_service_symmetric: "same_service a b \<longleftrightarrow> same_service b a"
  by (auto simp: same_service_def)

lemma negotiate_symmetric: "negotiate a b = Inr ag \<longleftrightarrow> negotiate b a = Inr ag"
  using terms_agree_symmetric[of "terms_of a" "terms_of b"] same_service_symmetric[of a b] by (auto simp: negotiate_ok)

text \<open>C13: Negotiation computes the best agreement, and both peers the same one. Whichever side
  negotiates, the agreement is the same; it is allowed by both offers, and every agreement both
  offers allow is at most it; and negotiation between valid offers for one service fails only if no
  agreement is allowed by both.\<close>

theorem negotiation_is_optimal:
  shows "(\<forall>ag. negotiate a b = Inr ag \<longleftrightarrow> negotiate b a = Inr ag) \<and>
    (case negotiate a b of
       Inr best \<Rightarrow> allows a best \<and> allows b best \<and> (\<forall>ag. allows a ag \<and> allows b ag \<longrightarrow> at_most ag best)
     | Inl _ \<Rightarrow> hello_validate a = Inr () \<and> hello_validate b = Inr () \<and> same_service a b \<longrightarrow>
         \<not> (\<exists>ag. allows a ag \<and> allows b ag))"
proof (intro conjI allI)
  show "negotiate a b = Inr ag \<longleftrightarrow> negotiate b a = Inr ag" for ag
    by (rule negotiate_symmetric)
  show "case negotiate a b of
       Inr best \<Rightarrow> allows a best \<and> allows b best \<and> (\<forall>ag. allows a ag \<and> allows b ag \<longrightarrow> at_most ag best)
     | Inl _ \<Rightarrow> hello_validate a = Inr () \<and> hello_validate b = Inr () \<and> same_service a b \<longrightarrow>
         \<not> (\<exists>ag. allows a ag \<and> allows b ag)"
  proof (cases "negotiate a b")
    case (Inl e)
    then show ?thesis
      using terms_agree_greatest[of a _ b] by (fastforce simp: negotiate_def split: sum.splits)
  next
    case (Inr best)
    then have "allows a best \<and> allows b best"
      using terms_agree_allowed[of a b best] by (auto simp: negotiate_ok hello_validate_ok)
    moreover from Inr have "\<forall>ag. allows a ag \<and> allows b ag \<longrightarrow> at_most ag best"
      using terms_agree_greatest[of a _ b] by (auto simp: negotiate_ok)
    ultimately show ?thesis by (simp add: Inr)
  qed
qed

text \<open>An offer of the example installation used below.\<close>

definition example_identity :: service_identity where
  "example_identity = \<lparr>si_id = replicate 16 7, si_application = ''ninja.kunobi.kache'', si_profile = ''dev'', si_instance = ''main''\<rparr>"

definition example_offer :: "u64 \<Rightarrow> u64 \<Rightarrow> (nat \<times> nat) hello" where
  "example_offer supported required = hello_new example_identity supported required"

lemma example_negotiation:
  "negotiate (example_offer 3 1) (example_offer 9 0) =
    Inr \<lparr>agreement_version = 2, agreement_capabilities = 1, agreement_max_frame = 65536\<rparr>"
  by code_simp

theorem negotiation_is_optimal_witness:
  "negotiate (example_offer 9 0) (example_offer 3 1) =
     Inr \<lparr>agreement_version = 2, agreement_capabilities = 1, agreement_max_frame = 65536\<rparr> \<and>
   at_most \<lparr>agreement_version = 2, agreement_capabilities = 1, agreement_max_frame = 256\<rparr>
     \<lparr>agreement_version = 2, agreement_capabilities = 1, agreement_max_frame = 65536\<rparr>"
proof -
  have "allows (example_offer 3 1) \<lparr>agreement_version = 2, agreement_capabilities = 1, agreement_max_frame = 256\<rparr> \<and>
      allows (example_offer 9 0) \<lparr>agreement_version = 2, agreement_capabilities = 1, agreement_max_frame = 256\<rparr>"
    by code_simp
  with negotiation_is_optimal[of "example_offer 3 1" "example_offer 9 0"] show ?thesis
    unfolding example_negotiation by fastforce
qed

section \<open>Frames\<close>

text \<open>
  What sessions rely on of the runtime: an encoding within a limit is no longer than the limit,
  and the messages it is used for decode to themselves under every limit their size fits.
\<close>

definition codec_ok :: "('m \<Rightarrow> bool) \<Rightarrow> 'm codec \<Rightarrow> bool" where
  "codec_ok known c \<longleftrightarrow>
    (\<forall>limit m body. limit \<le> MAX_FRAME \<longrightarrow> try_encode_bounded c limit m = Inr body \<longrightarrow> length body \<le> unat limit \<and>
       (known m \<longrightarrow> (\<forall>limit'. length body \<le> unat limit' \<longrightarrow> decode_from_slice c (wire_options limit') body = Inr m))) \<and>
    (\<forall>m. known m \<longrightarrow> length (encode_to_vec c m) \<le> unat MAX_FRAME \<longrightarrow>
       decode_from_slice c (wire_options MAX_FRAME) (encode_to_vec c m) = Inr m)"

lemma from_le_bytes_digits:
  "from_le_bytes (map (\<lambda>i. of_nat (n div 256 ^ i)) [k..<k + m]) = (n div 256 ^ k) mod 256 ^ m"
proof (induction m arbitrary: k)
  case (Suc m)
  have "unat (of_nat (n div 256 ^ k) :: u8) = (n div 256 ^ k) mod 256" by (simp add: unat_of_nat)
  moreover have "n div 256 ^ Suc k = n div 256 ^ k div 256" by (simp only: power_Suc2 div_mult2_eq)
  moreover have "[k..<k + Suc m] = k # [Suc k..<Suc k + m]"
    using upt_rec[of k "k + Suc m"] by (simp del: upt_Suc)
  ultimately show ?case
    using Suc[of "Suc k"] by (simp add: mod_mult2_eq del: upt_Suc)
qed simp

lemma le_bytes_round_trip: "n < 2 ^ 32 \<Longrightarrow> from_le_bytes (to_le_bytes n) = n"
  using from_le_bytes_digits[of n 0 4] by (simp add: to_le_bytes_def)

lemma length_to_le_bytes [simp]: "length (to_le_bytes n) = 4"
  by (simp add: to_le_bytes_def)

text \<open>Bytes that are one frame for a message, under a limit.\<close>

definition frame_for :: "'m codec \<Rightarrow> u32 \<Rightarrow> u8 list \<Rightarrow> 'm \<Rightarrow> bool" where
  "frame_for c limit bytes m \<longleftrightarrow>
    (\<exists>header body. bytes = header @ body \<and> length header = 4 \<and> from_le_bytes header = length body \<and> body \<noteq> [] \<and>
      length body \<le> unat limit \<and> decode_message c body limit = Inr m)"

text \<open>Bytes that have the shape of one frame.\<close>

definition delimits :: "u8 list \<Rightarrow> bool" where
  "delimits bytes \<longleftrightarrow> (\<exists>header body. bytes = header @ body \<and> length header = 4 \<and> from_le_bytes header = length body)"

lemma frame_for_delimits: "frame_for c limit f m \<Longrightarrow> delimits f"
  by (auto simp: frame_for_def delimits_def)

lemma delimits_prefix:
  assumes "delimits f" "delimits g" "f @ x = g @ y"
  shows "f = g \<and> x = y"
proof -
  obtain h b h' b' where f: "f = h @ b" "length h = 4" "from_le_bytes h = length b"
    and g: "g = h' @ b'" "length h' = 4" "from_le_bytes h' = length b'"
    using assms(1,2) by (auto simp: delimits_def)
  then show ?thesis using assms(3) by auto
qed

lemma encode_frame_delimits:
  assumes "codec_ok known c" "encode_frame c m limit = Inr frame" "limit \<le> MAX_FRAME"
  shows "delimits frame"
proof -
  obtain body where body: "try_encode_bounded c limit m = Inr body" "frame = to_le_bytes (length body) @ body"
    using assms(2) by (auto simp: encode_frame_def split: sum.splits if_splits)
  then have "length body \<le> unat limit" using assms(1,3) by (auto simp: codec_ok_def)
  moreover have "unat limit < 2 ^ 32" using unsigned_less[of limit, where 'a = nat] by simp
  ultimately show ?thesis using body(2) le_bytes_round_trip[of "length body"]
    unfolding delimits_def by (intro exI[of _ "to_le_bytes (length body)"] exI[of _ body]) simp
qed

lemma frame_for_same: "frame_for c limit f m \<Longrightarrow> frame_for c limit f m' \<Longrightarrow> m = m'"
  by (auto simp: frame_for_def)

lemma encode_frame_for:
  assumes "codec_ok known c" "known m" "encode_frame c m limit = Inr frame" "unat limit \<le> unat limit'"
    and "limit \<le> MAX_FRAME"
  shows "frame_for c limit' frame m"
proof -
  obtain body where body: "try_encode_bounded c limit m = Inr body" "body \<noteq> []" "frame = to_le_bytes (length body) @ body"
    using assms(3) by (auto simp: encode_frame_def split: sum.splits if_splits)
  have small: "length body \<le> unat limit" and law: "\<forall>limit'. length body \<le> unat limit' \<longrightarrow> decode_from_slice c (wire_options limit') body = Inr m"
    using assms(1,2,5) body(1) by (auto simp: codec_ok_def)
  then have decoded: "decode_from_slice c (wire_options limit') body = Inr m" using assms(4) by auto
  have "unat limit < 2 ^ 32" using unsigned_less[of limit, where 'a = nat] by simp
  with small le_bytes_round_trip[of "length body"] have "from_le_bytes (to_le_bytes (length body)) = length body" by simp
  with small decoded assms(4) body(2,3) show ?thesis
    unfolding frame_for_def by (intro exI[of _ "to_le_bytes (length body)"] exI[of _ body]) (simp add: decode_message_def)
qed

section \<open>Codecs of the generated messages\<close>

text \<open>
  A codec from the operations generated for a message type: the size is compared with the limit
  before anything is written, and decoding refuses input beyond its limit.
\<close>

definition generated_codec :: "('m \<Rightarrow> nat) \<Rightarrow> ('m \<Rightarrow> u8 list) \<Rightarrow> (u8 list \<Rightarrow> decode_error + 'm) \<Rightarrow> 'm codec" where
  "generated_codec compute_size write_to merge = \<lparr>
     try_encode_bounded = (\<lambda>limit m. if unat limit < compute_size m then Inl ''message too large'' else Inr (write_to m)),
     encode_to_vec = write_to,
     decode_from_slice = (\<lambda>options bytes. if max_message_size options < length bytes then Inl ''message too large''
       else case merge bytes of Inl (DecodeError e) \<Rightarrow> Inl e | Inr m \<Rightarrow> Inr m)\<rparr>"

lemma generated_codec_ok:
  assumes "\<And>m. known m \<Longrightarrow> merge (write_to m) = Inr m" "\<And>m. compute_size m = saturate_size (length (write_to m))"
  shows "codec_ok known (generated_codec compute_size write_to merge)"
proof -
  have "length (write_to m) \<le> unat limit" if "limit \<le> MAX_FRAME" "\<not> unat limit < compute_size m" for limit m
    using that word_le_nat_alt[of limit MAX_FRAME] by (auto simp: assms(2) saturate_size_def wire_constants)
  then show ?thesis
    using assms(1) by (auto simp: codec_ok_def generated_codec_def wire_options_def split: if_splits)
qed

definition hello_codec :: "'u buffa \<Rightarrow> 'u hello merge_loop \<Rightarrow> 'u hello codec" where
  "hello_codec b loop = generated_codec (hello_compute_size b) (hello_write_to b) (loop (hello_merge_field b) hello_default)"

definition control_codec :: "'u buffa \<Rightarrow> 'u control_msg merge_loop \<Rightarrow> 'u control_msg codec" where
  "control_codec b loop = generated_codec (control_compute_size b) (control_write_to b) (loop (control_merge_field b) control_default)"

definition health_codec :: "'u buffa \<Rightarrow> 'u health merge_loop \<Rightarrow> 'u health codec" where
  "health_codec b loop = generated_codec (health_compute_size b) (health_write_to b) (loop (health_merge_field b) health_default)"

text \<open>Messages whose unknown fields do not have the number of a known one.\<close>

definition hello_known :: "'u buffa \<Rightarrow> 'u hello \<Rightarrow> bool" where
  "hello_known b m \<longleftrightarrow> (\<forall>u \<in> set (hello_unknown m). 11 < unknown_number b u)"

definition control_known :: "'u buffa \<Rightarrow> 'u control_msg \<Rightarrow> bool" where
  "control_known b m \<longleftrightarrow> (\<forall>u \<in> set (control_unknown m). 7 < unknown_number b u)"

definition health_known :: "'u buffa \<Rightarrow> 'u health \<Rightarrow> bool" where
  "health_known b m \<longleftrightarrow> (\<forall>u \<in> set (health_unknown m). 7 < unknown_number b u)"

lemma message_codecs_ok:
  assumes "buffa_ok b"
  shows "loop_ok b hl \<Longrightarrow> codec_ok (hello_known b) (hello_codec b hl)"
    and "loop_ok b cl \<Longrightarrow> codec_ok (control_known b) (control_codec b cl)"
    and "loop_ok b el \<Longrightarrow> codec_ok (health_known b) (health_codec b el)"
  unfolding hello_codec_def control_codec_def health_codec_def
  by (rule generated_codec_ok;
      simp add: hello_known_def control_known_def health_known_def hello_loop[OF assms] control_loop[OF assms] health_loop[OF assms] sizes[OF assms])+

section \<open>A reliable connection seen from one end\<close>

record tape =
  tape_input :: "u8 list"
  tape_output :: "u8 list"

definition tape_ops :: "tape stream_ops" where
  "tape_ops = \<lparr>
     read_exact = (\<lambda>n t. if n \<le> length (tape_input t) then (Inr (take n (tape_input t)), t\<lparr>tape_input := drop n (tape_input t)\<rparr>)
       else (Inl (io_error_new ErrorKind_UnexpectedEof ''failed to fill whole buffer''), t\<lparr>tape_input := []\<rparr>)),
     write_all = (\<lambda>bytes t. (Inr (), t\<lparr>tape_output := tape_output t @ bytes\<rparr>)),
     flush = (\<lambda>t. (Inr (), t))\<rparr>"

lemma tape_send:
  "framed_send tape_ops c m f =
    (if framed_failed f then (Err (invalid ''session failed; reconnect without replay''), f)
     else case encode_frame c m (framed_limit f) of
       Inl e \<Rightarrow> (Err e, f)
     | Inr frame \<Rightarrow> (Ok (), f\<lparr>framed_io := framed_io f\<lparr>tape_output := tape_output (framed_io f) @ frame\<rparr>\<rparr>))"
  by (auto simp: framed_send_def framed_usable_def tape_ops_def and_then_def on_io_def io_def split: sum.splits)

lemma tape_receive:
  assumes "frame_for c (framed_limit f) frame m" "tape_input (framed_io f) = frame @ rest" "\<not> framed_failed f"
  shows "framed_receive tape_ops c f = (Ok m, f\<lparr>framed_io := framed_io f\<lparr>tape_input := rest\<rparr>\<rparr>)"
  using assms
  by (auto simp: frame_for_def framed_receive_def framed_usable_def tape_ops_def and_then_def on_io_def io_def Let_def)

end
