(* ===== verification/Wire_Session.thy ===== *)
theory Wire_Session
  imports Wire_Frames
begin

text \<open>
  What negotiated sessions guarantee: both ends of a connection hold the same agreement, an
  exchange over a working connection completes, refusals reach the clients that read them,
  messages arrive as they were sent, and a failed session stays failed.
\<close>

section \<open>What an establishment reads and writes\<close>

text \<open>A read of a given size returns that many bytes.\<close>

definition exact :: "'s stream_ops \<Rightarrow> bool" where
  "exact ops \<longleftrightarrow> (\<forall>n s bytes. fst (read_exact ops n s) = Inr bytes \<longrightarrow> length bytes = n)"

text \<open>
  A stream that notes the bytes read from it and those handed to it for writing; of a write that
  fails, the peer may have any first part.
\<close>

definition tapped :: "'s stream_ops \<Rightarrow> ('s \<times> u8 list \<times> u8 list) stream_ops" where
  "tapped ops = \<lparr>
     read_exact = (\<lambda>n (s, i, out). case read_exact ops n s of
         (Inr bytes, s) \<Rightarrow> (Inr bytes, s, i @ bytes, out)
       | (Inl e, s) \<Rightarrow> (Inl e, s, i, out)),
     write_all = (\<lambda>bytes (s, i, out). case write_all ops bytes s of (r, s) \<Rightarrow> (r, s, i, out @ bytes)),
     flush = (\<lambda>(s, i, out). case flush ops s of (r, s) \<Rightarrow> (r, s, i, out))\<rparr>"

definition read_of :: "('s \<times> u8 list \<times> u8 list) framed \<Rightarrow> u8 list" where
  "read_of f = fst (snd (framed_io f))"

definition written_of :: "('s \<times> u8 list \<times> u8 list) framed \<Rightarrow> u8 list" where
  "written_of f = snd (snd (framed_io f))"

lemma tapped_read:
  "on_io (read_exact (tapped ops) n) f = (r, f') \<Longrightarrow> exact ops \<Longrightarrow>
    framed_limit f' = framed_limit f \<and> framed_failed f' = framed_failed f \<and> written_of f' = written_of f \<and>
    prefix (read_of f) (read_of f') \<and>
    (\<forall>bytes. r = Inr bytes \<longrightarrow> length bytes = n \<and> read_of f' = read_of f @ bytes)"
  by (auto simp: on_io_def io_def tapped_def read_of_def written_of_def exact_def Let_def split: prod.splits sum.splits)
     (metis fst_conv)+

lemma tapped_write:
  "on_io (write_all (tapped ops) bytes) f = (r, f') \<Longrightarrow>
    framed_limit f' = framed_limit f \<and> framed_failed f' = framed_failed f \<and> read_of f' = read_of f \<and>
    written_of f' = written_of f @ bytes"
  by (auto simp: on_io_def io_def tapped_def read_of_def written_of_def Let_def split: prod.splits sum.splits)

lemma tapped_flush:
  "on_io (flush (tapped ops)) f = (r, f') \<Longrightarrow>
    framed_limit f' = framed_limit f \<and> framed_failed f' = framed_failed f \<and> read_of f' = read_of f \<and>
    written_of f' = written_of f"
  by (auto simp: on_io_def io_def tapped_def read_of_def written_of_def Let_def split: prod.splits sum.splits)

lemma read_update [simp]: "read_of (f\<lparr>framed_failed := b\<rparr>) = read_of f" "written_of (f\<lparr>framed_failed := b\<rparr>) = written_of f"
  "read_of (f\<lparr>framed_limit := l\<rparr>) = read_of f" "written_of (f\<lparr>framed_limit := l\<rparr>) = written_of f"
  by (simp_all add: read_of_def written_of_def)

lemma tapped_send:
  assumes "framed_send (tapped ops) c m f = (r, f')" "\<not> framed_failed f"
  shows "(\<exists>e. encode_frame c m (framed_limit f) = Inl e \<and> r = Inl e \<and> f' = f) \<or>
    (\<exists>frame. encode_frame c m (framed_limit f) = Inr frame \<and> read_of f' = read_of f \<and>
      written_of f' = written_of f @ frame \<and> framed_limit f' = framed_limit f \<and> (r = Inr () \<longrightarrow> \<not> framed_failed f'))"
  using assms
  by (auto simp: framed_send_def framed_usable_def split: sum.splits elim!: and_thenE dest!: tapped_write tapped_flush)

lemma tapped_receive:
  assumes "framed_receive (tapped ops) c f = (r, f')" "\<not> framed_failed f" "exact ops"
  shows "written_of f' = written_of f \<and> framed_limit f' = framed_limit f \<and>
    (\<forall>m. r = Inr m \<longrightarrow> \<not> framed_failed f' \<and> (\<exists>frame. frame_for c (framed_limit f) frame m \<and> read_of f' = read_of f @ frame))"
proof -
  let ?f = "f\<lparr>framed_failed := True\<rparr>"
  obtain h f1 where header: "on_io (read_exact (tapped ops) 4) ?f = (h, f1)" by (metis surj_pair)
  note t1 = tapped_read[OF header assms(3)]
  show ?thesis
  proof (cases h)
    case (Inl e)
    then show ?thesis using assms(1,2) t1 header by (auto simp: framed_receive_def framed_usable_def and_then_def)
  next
    case (Inr bytes)
    obtain b f2 where body: "on_io (read_exact (tapped ops) (from_le_bytes bytes)) f1 = (b, f2)" by (metis surj_pair)
    note t2 = tapped_read[OF body assms(3)]
    show ?thesis
    proof (cases "from_le_bytes bytes = 0 \<or> from_le_bytes bytes > unat (framed_limit f) \<or> (\<exists>e. b = Inl e)")
      case True
      then show ?thesis
        using assms(1,2) t1 t2 header body Inr
        by (auto simp: framed_receive_def framed_usable_def and_then_def Let_def split: if_splits)
    next
      case False
      then obtain content where "b = Inr content" by (cases b) auto
      with False t1 t2 Inr have "frame_for c (framed_limit f) (bytes @ content) m" if "decode_message c content (framed_limit f) = Inr m" for m
        unfolding frame_for_def using that by (intro exI[of _ bytes] exI[of _ content]) auto
      with False assms(1,2) t1 t2 header body Inr \<open>b = Inr content\<close> show ?thesis
        by (auto simp: framed_receive_def framed_usable_def and_then_def Let_def split: if_splits sum.splits)
    qed
  qed
qed

lemma tapped_acceptance:
  assumes "read_acceptance (tapped ops) f = (r, f')" "exact ops"
  shows "written_of f' = written_of f \<and> framed_limit f' = framed_limit f \<and> framed_failed f' = framed_failed f \<and>
    prefix (read_of f) (read_of f') \<and> (r = Inr () \<longrightarrow> read_of f' = read_of f @ [1])"
  using assms
  by (auto simp: read_acceptance_def split: if_splits elim!: and_thenE dest!: tapped_read)

lemma framed_new_hello [simp]: "framed_new s HELLO_LIMIT = Inr \<lparr>framed_io = s, framed_limit = HELLO_LIMIT, framed_failed = False\<rparr>"
  by (simp add: framed_new_def wire_constants)

text \<open>A session that is ready for use, with the agreement's frame limit.\<close>

definition established :: "'s session \<Rightarrow> bool" where
  "established sess \<longleftrightarrow> \<not> framed_failed (session_frames sess) \<and>
    framed_limit (session_frames sess) = agreement_max_frame (session_agreement sess)"

text \<open>
  The client after its offer \<^verbatim>\<open>frame\<close> was sent: either it stopped before accepting, or it accepted after
  reading a frame of an offer it could agree with.
\<close>

definition accepts_offer :: "'u hello codec \<Rightarrow> 'u hello \<Rightarrow> u8 list \<Rightarrow> wire_error + 's session \<Rightarrow> bool" where
  "accepts_offer c offer i r \<longleftrightarrow> (\<exists>g remote ag rest. i = g @ rest \<and> frame_for c HELLO_LIMIT g remote \<and>
     check_refusal remote = Inr () \<and> negotiate offer remote = Inr ag \<and>
     (\<forall>sess. r = Inr sess \<longrightarrow> rest = [1] \<and> session_agreement sess = ag \<and> established sess))"

lemma client_accepting:
  assumes "and_then (on_io (write_all (tapped ops) [1]) f) (\<lambda>_ f.
      and_then (on_io (flush (tapped ops)) f) (\<lambda>_ f.
      and_then (read_acceptance (tapped ops) f) (\<lambda>_ f.
      let f = f\<lparr>framed_limit := agreement_max_frame ag\<rparr> in (Ok \<lparr>session_frames = f, session_agreement = ag\<rparr>, f)))) = (r, f')"
    and "exact ops" "\<not> framed_failed f"
  shows "written_of f' = written_of f @ [1] \<and> prefix (read_of f) (read_of f') \<and>
    (\<forall>sess. r = Inr sess \<longrightarrow> read_of f' = read_of f @ [1] \<and> session_agreement sess = ag \<and> established sess)"
  using assms
  by (auto simp: Let_def established_def elim!: and_thenE dest!: tapped_write tapped_flush tapped_acceptance)

lemma leaving_tapped: "(r, s', i, out) = leaving x \<Longrightarrow> \<exists>f. x = (r, f) \<and> i = read_of f \<and> out = written_of f"
  by (cases x) (auto simp: leaving_def read_of_def written_of_def; metis fst_conv snd_conv)

text \<open>What may follow the client's offer.\<close>

definition client_trace :: "'u hello codec \<Rightarrow> 'u hello \<Rightarrow> u8 list \<Rightarrow> u8 list \<Rightarrow> wire_error + 's session \<Rightarrow> bool" where
  "client_trace c offer i out r \<longleftrightarrow>
    (out = [] \<or> out = MAGIC) \<and> (\<forall>sess. r \<noteq> Inr sess) \<or>
    (\<exists>frame. encode_frame c offer HELLO_LIMIT = Inr frame \<and>
      (out = MAGIC @ frame \<and> (\<forall>sess. r \<noteq> Inr sess) \<or> out = MAGIC @ frame @ [1] \<and> accepts_offer c offer i r))"

lemma connect_trace:
  assumes "session_connect (tapped ops) c (s, [], []) offer = (r, s', i, out)" "exact ops"
  shows "client_trace c offer i out r"
proof (cases "hello_validate offer")
  case (Inl e)
  then show ?thesis using assms(1) by (auto simp: session_connect_def client_trace_def)
next
  case (Inr u)
  obtain w s1 where w: "write_all ops MAGIC s = (w, s1)" by (metis surj_pair)
  let ?f = "\<lparr>framed_io = (s1, [], MAGIC), framed_limit = HELLO_LIMIT, framed_failed = False\<rparr>"
  obtain r1 f1 where send: "framed_send (tapped ops) c offer ?f = (r1, f1)" by (metis surj_pair)
  obtain r2 f2 where receive: "framed_receive (tapped ops) c f1 = (r2, f2)" by (metis surj_pair)
  consider (magic) e where "w = Inl e" | (offer) e where "w = Inr ()" "r1 = Inl e"
    | (answer) e where "w = Inr ()" "r1 = Inr ()" "r2 = Inl e" | (answered) remote where "w = Inr ()" "r1 = Inr ()" "r2 = Inr remote"
    by (cases w; cases r1; cases r2) auto
  then show ?thesis
  proof cases
    case magic
    then show ?thesis using assms(1) Inr w
      by (auto simp: session_connect_def client_trace_def and_then_def io_def tapped_def)
  next
    case offer
    then show ?thesis using assms(1) Inr w send tapped_send[OF send]
      by (auto simp: session_connect_def client_trace_def and_then_def io_def tapped_def[THEN arg_cong[where f = write_all]] leaving_def read_of_def written_of_def)
  next
    case answer
    with send have sent: "\<exists>frame. encode_frame c offer HELLO_LIMIT = Inr frame \<and> written_of f1 = MAGIC @ frame \<and> \<not> framed_failed f1"
      using tapped_send[OF send] by (auto simp: written_of_def)
    with answer assms(1) Inr w send receive have "r = Inl e \<and> out = written_of f2"
      by (auto simp: session_connect_def and_then_def io_def tapped_def[THEN arg_cong[where f = write_all]] leaving_def written_of_def)
    with sent tapped_receive[OF receive] assms(2) show ?thesis by (auto simp: client_trace_def)
  next
    case answered
    from answered send obtain frame where sent: "encode_frame c offer HELLO_LIMIT = Inr frame" "written_of f1 = MAGIC @ frame"
        "\<not> framed_failed f1" "read_of f1 = []" "framed_limit f1 = HELLO_LIMIT"
      using tapped_send[OF send] by (auto simp: written_of_def read_of_def)
    have received: "written_of f2 = MAGIC @ frame" "\<not> framed_failed f2" "frame_for c HELLO_LIMIT (read_of f2) remote"
      using tapped_receive[OF receive sent(3) assms(2)] answered sent by auto
    define rest where "rest = (\<lambda>ag. and_then (on_io (write_all (tapped ops) [1]) f2) (\<lambda>_ f.
      and_then (on_io (flush (tapped ops)) f) (\<lambda>_ f.
      and_then (read_acceptance (tapped ops) f) (\<lambda>_ f.
      let f = f\<lparr>framed_limit := agreement_max_frame ag\<rparr> in (Ok \<lparr>session_frames = f, session_agreement = ag\<rparr>, f)))))"
    have run: "(r, s', i, out) = leaving (case check_refusal remote of Inl e \<Rightarrow> (Err e, f2)
      | Inr _ \<Rightarrow> (case negotiate offer remote of Inl e \<Rightarrow> (Err e, f2) | Inr ag \<Rightarrow> rest ag))"
      unfolding rest_def using answered assms(1) Inr w send receive
      by (simp add: session_connect_def and_then_def[of "(_, _)"] io_def tapped_def[THEN arg_cong[where f = write_all]])
    show ?thesis
    proof (cases "\<exists>ag. check_refusal remote = Inr () \<and> negotiate offer remote = Inr ag")
      case False
      with run have "out = written_of f2 \<and> (\<forall>sess. r \<noteq> Inr sess)"
        by (auto split: sum.splits dest!: leaving_tapped)
      with received(1) sent(1) show ?thesis by (auto simp: client_trace_def)
    next
      case True
      then obtain ag where ag: "check_refusal remote = Inr ()" "negotiate offer remote = Inr ag" by blast
      obtain f3 where f3: "rest ag = (r, f3)" "i = read_of f3" "out = written_of f3"
        using run ag by (auto dest!: leaving_tapped)
      note accepting = client_accepting[OF f3(1)[unfolded rest_def] assms(2) received(2)]
      then obtain tail where "i = read_of f2 @ tail" using f3(2) by (auto elim: prefixE)
      with accepting received(3) ag f3(2) have "accepts_offer c offer i r"
        unfolding accepts_offer_def
        by (intro exI[of _ "read_of f2"] exI[of _ remote] exI[of _ ag] exI[of _ tail]) auto
      with accepting received(1) sent(1) f3(3) show ?thesis by (auto simp: client_trace_def)
    qed
  qed
qed

text \<open>What a server answers to an offer it could read.\<close>

definition server_trace :: "'u hello codec \<Rightarrow> 'u hello \<Rightarrow> u8 list \<Rightarrow> u8 list \<Rightarrow> wire_error + 's session \<Rightarrow> bool" where
  "server_trace c offer i out r \<longleftrightarrow>
    out = [] \<and> (\<forall>sess. r \<noteq> Inr sess) \<or>
    (\<exists>g remote rest. i = MAGIC @ g @ rest \<and> frame_for c HELLO_LIMIT g remote \<and>
      ((\<exists>refusal. rejection offer remote = Some refusal \<and> encode_frame c refusal HELLO_LIMIT = Inr out \<and> (\<forall>sess. r \<noteq> Inr sess)) \<or>
       (\<exists>frame ag. encode_frame c offer HELLO_LIMIT = Inr frame \<and> negotiate offer remote = Inr ag \<and>
         (out = frame \<and> (\<forall>sess. r \<noteq> Inr sess) \<or>
          out = frame @ [1] \<and> rest = [1] \<and> (\<forall>sess. r = Inr sess \<longrightarrow> session_agreement sess = ag \<and> established sess)))))"

lemma offered_trace:
  assumes "session_offered (tapped ops) c (s, [], []) = (r, s', i, out)" "exact ops"
  shows "out = [] \<and> (\<forall>f remote. r = Inr (f, remote) \<longrightarrow> framed_io f = (s', i, out) \<and> \<not> framed_failed f \<and>
    framed_limit f = HELLO_LIMIT \<and> (\<exists>g. i = MAGIC @ g \<and> frame_for c HELLO_LIMIT g remote))"
proof -
  obtain h s1 where h: "read_exact ops 8 s = (h, s1)" by (metis surj_pair)
  show ?thesis
  proof (cases "h = Inr MAGIC")
    case False
    then show ?thesis using assms(1) h
      by (auto simp: session_offered_def and_then_def io_def tapped_def split: sum.splits if_splits)
  next
    case True
    let ?f = "\<lparr>framed_io = (s1, MAGIC, []), framed_limit = HELLO_LIMIT, framed_failed = False\<rparr>"
    obtain r1 f1 where receive: "framed_receive (tapped ops) c ?f = (r1, f1)" by (metis surj_pair)
    have "(r, s', i, out) = leaving (and_then (r1, f1) (\<lambda>remote f. (Ok (f, remote), f)))"
      using True assms(1) h receive
      by (simp add: session_offered_def and_then_def io_def tapped_def[THEN arg_cong[where f = read_exact]])
    with tapped_receive[OF receive _ assms(2)] show ?thesis
      by (cases r1; cases "framed_io f1") (auto simp: leaving_def and_then_def read_of_def written_of_def)
  qed
qed

lemma server_accepting:
  assumes "and_then (framed_send (tapped ops) c offer f) (\<lambda>_ f.
      and_then (read_acceptance (tapped ops) f) (\<lambda>_ f.
      and_then (on_io (write_all (tapped ops) [1]) f) (\<lambda>_ f.
      and_then (on_io (flush (tapped ops)) f) (\<lambda>_ f.
      let f = f\<lparr>framed_limit := agreement_max_frame ag\<rparr> in (Ok \<lparr>session_frames = f, session_agreement = ag\<rparr>, f))))) = (r, f')"
    and "exact ops" "\<not> framed_failed f" "framed_limit f = HELLO_LIMIT" "written_of f = []"
  shows "f' = f \<and> (\<forall>sess. r \<noteq> Inr sess) \<or>
    (\<exists>frame rest. encode_frame c offer HELLO_LIMIT = Inr frame \<and> read_of f' = read_of f @ rest \<and>
      (written_of f' = frame \<and> (\<forall>sess. r \<noteq> Inr sess) \<or>
       written_of f' = frame @ [1] \<and> rest = [1] \<and> (\<forall>sess. r = Inr sess \<longrightarrow> session_agreement sess = ag \<and> established sess)))"
proof -
  obtain r1 f1 where send: "framed_send (tapped ops) c offer f = (r1, f1)" by (metis surj_pair)
  obtain r2 f2 where read: "read_acceptance (tapped ops) f1 = (r2, f2)" by (metis surj_pair)
  note t1 = tapped_send[OF send assms(3)] and t2 = tapped_acceptance[OF read assms(2)]
  show ?thesis
  proof (cases r1)
    case (Inl e)
    with assms(1) send have "r = Inl e" "f' = f1" by (auto simp: and_then_def)
    with t1 assms(4,5) show ?thesis by auto
  next
    case (Inr u)
    with t1 assms(4,5) obtain frame where frame: "encode_frame c offer HELLO_LIMIT = Inr frame" "written_of f1 = frame"
        "read_of f1 = read_of f" "\<not> framed_failed f1" by auto
    show ?thesis
    proof (cases r2)
      case (Inl e)
      with assms(1) send read Inr have "r = Inl e" "f' = f2" by (auto simp: and_then_def)
      with t2 frame show ?thesis by (auto elim: prefixE)
    next
      case (Inr u2)
      with assms(1) send read \<open>r1 = Inr u\<close> have
        "and_then (on_io (write_all (tapped ops) [1]) f2) (\<lambda>_ f.
         and_then (on_io (flush (tapped ops)) f) (\<lambda>_ f.
         let f = f\<lparr>framed_limit := agreement_max_frame ag\<rparr> in (Ok \<lparr>session_frames = f, session_agreement = ag\<rparr>, f))) = (r, f')"
        by (simp add: and_then_def[of "(_, _)"])
      then have "written_of f' = written_of f2 @ [1] \<and> read_of f' = read_of f2 \<and>
          (\<forall>sess. r = Inr sess \<longrightarrow> session_agreement sess = ag \<and> (\<not> framed_failed f2 \<longrightarrow> established sess))"
        by (auto simp: Let_def established_def elim!: and_thenE dest!: tapped_write tapped_flush)
      with t2 Inr frame show ?thesis by auto
    qed
  qed
qed

lemma accept_trace:
  assumes "session_accept (tapped ops) c (s, [], []) offer = (r, s', i, out)" "exact ops"
  shows "server_trace c offer i out r"
proof (cases "hello_validate offer")
  case (Inl e)
  then show ?thesis using assms(1) by (auto simp: session_accept_def server_trace_def)
next
  case (Inr u)
  obtain r1 s1 where offered: "session_offered (tapped ops) c (s, [], []) = (r1, s1)" by (metis surj_pair)
  obtain s2 i1 out1 where s1: "s1 = (s2, i1, out1)" by (metis prod_cases3)
  note t = offered_trace[OF offered[unfolded s1] assms(2)]
  show ?thesis
  proof (cases r1)
    case (Inl e)
    with assms(1) offered Inr s1 t show ?thesis by (auto simp: session_accept_def and_then_def server_trace_def)
  next
    fix x assume "r1 = Inr x"
    then obtain f remote where fr: "r1 = Inr (f, remote)" by (cases x) auto
    then obtain g where f: "framed_io f = (s2, i1, [])" "\<not> framed_failed f" "framed_limit f = HELLO_LIMIT"
        "i1 = MAGIC @ g" "frame_for c HELLO_LIMIT g remote" using t by auto
    then have rw: "read_of f = MAGIC @ g" "written_of f = []" by (simp_all add: read_of_def written_of_def)
    show ?thesis
    proof (cases "negotiate offer remote")
      case (Inl e)
      have run: "(r, s', i, out) = leaving (case rejection offer remote of
          Some refusal \<Rightarrow> (Err e, snd (framed_send (tapped ops) c refusal f)) | None \<Rightarrow> (Err e, f))"
        using assms(1) offered fr \<open>hello_validate offer = Inr u\<close> Inl by (simp add: session_accept_def and_then_def)
      show ?thesis
      proof (cases "rejection offer remote")
        case None
        with run rw show ?thesis by (auto simp: server_trace_def dest!: leaving_tapped)
      next
        case (Some refusal)
        obtain r2 f2 where send: "framed_send (tapped ops) c refusal f = (r2, f2)" by (metis surj_pair)
        have "i = read_of f2" "out = written_of f2" "r = Inl e" using run Some send by (auto dest!: leaving_tapped)
        with tapped_send[OF send f(2)] Some f rw show ?thesis by (auto simp: server_trace_def)
      qed
    next
      case (Inr ag)
      define rest where "rest = and_then (framed_send (tapped ops) c offer f) (\<lambda>_ f.
        and_then (read_acceptance (tapped ops) f) (\<lambda>_ f.
        and_then (on_io (write_all (tapped ops) [1]) f) (\<lambda>_ f.
        and_then (on_io (flush (tapped ops)) f) (\<lambda>_ f.
        let f = f\<lparr>framed_limit := agreement_max_frame ag\<rparr> in (Ok \<lparr>session_frames = f, session_agreement = ag\<rparr>, f)))))"
      have "(r, s', i, out) = leaving rest"
        unfolding rest_def using assms(1) offered fr \<open>hello_validate offer = Inr u\<close> Inr
        by (simp add: session_accept_def and_then_def[of "(_, _)"])
      then obtain f' where f': "rest = (r, f')" "i = read_of f'" "out = written_of f'" by (auto dest!: leaving_tapped)
      from server_accepting[OF f'(1)[unfolded rest_def] assms(2) f(2,3) rw(2)] show ?thesis
      proof (elim disjE exE conjE)
        assume "f' = f" "\<forall>sess. r \<noteq> Inr sess"
        with f' rw show ?thesis by (simp add: server_trace_def)
      next
        fix frame tail
        assume "encode_frame c offer HELLO_LIMIT = Inr frame" "read_of f' = read_of f @ tail"
          and "written_of f' = frame" "\<forall>sess. r \<noteq> Inr sess"
        with f' f rw Inr show ?thesis
          unfolding server_trace_def by (intro disjI2 exI[of _ g] exI[of _ remote] exI[of _ tail]) auto
      next
        fix frame tail
        assume "encode_frame c offer HELLO_LIMIT = Inr frame" "read_of f' = read_of f @ tail"
          and "written_of f' = frame @ [1]" "tail = [1]" "\<forall>sess. r = Inr sess \<longrightarrow> session_agreement sess = ag \<and> established sess"
        with f' f rw Inr show ?thesis
          unfolding server_trace_def by (intro disjI2 exI[of _ g] exI[of _ remote] exI[of _ tail]) auto
      qed
    qed
  qed
qed

text \<open>C7: Both ends of a connection hold the same agreement. For any transports whose reads are
  exact, a client and a server that each read only what the other wrote, and whose offers the
  codec preserves: if the client's session is established, the agreement is the one between the two
  offers; if the server's is, its agreement is the same. A session is never established on one
  side from an offer the other side did not make or could not accept.\<close>

theorem sessions_agree:
  assumes "exact client_ops" "exact server_ops" "codec_ok known c" "known offer_c" "known offer_s"
    and "session_connect (tapped client_ops) c (s, [], []) offer_c = (rc, s', in_c, out_c)"
    and "session_accept (tapped server_ops) c (t, [], []) offer_s = (rs, t', in_s, out_s)"
    and "prefix in_c out_s" "prefix in_s out_c"
  shows "(\<forall>sess. rc = Inr sess \<longrightarrow> established sess \<and> negotiate offer_c offer_s = Inr (session_agreement sess)) \<and>
    (\<forall>sess. rs = Inr sess \<longrightarrow> established sess \<and> negotiate offer_c offer_s = Inr (session_agreement sess))"
proof -
  have limit: "HELLO_LIMIT \<le> MAX_FRAME" by (simp add: wire_constants)
  note frame = encode_frame_for[OF assms(3) _ _ order_refl limit]
  note client = connect_trace[OF assms(6,1)] and server = accept_trace[OF assms(7,2)]
  have "established sess \<and> negotiate offer_c offer_s = Inr (session_agreement sess)" if rc: "rc = Inr sess" for sess
  proof -
    from client rc obtain g remote where g: "in_c = g @ [1]" "frame_for c HELLO_LIMIT g remote"
        "negotiate offer_c remote = Inr (session_agreement sess)" "established sess"
      by (auto simp: client_trace_def accepts_offer_def)
    then obtain tail where tail: "out_s = (g @ [1]) @ tail" using assms(8) by (auto elim: prefixE)
    have one: "out_s \<noteq> f" if "delimits f" for f
      using delimits_prefix[OF frame_for_delimits[OF g(2)] that, of "[1] @ tail" "[]"] tail by auto
    from server tail obtain f where f: "encode_frame c offer_s HELLO_LIMIT = Inr f" "out_s = f @ [1]"
      using one encode_frame_delimits[OF assms(3) _ limit] by (auto simp: server_trace_def)
    have "g = f" using delimits_prefix[OF frame_for_delimits[OF g(2)] encode_frame_delimits[OF assms(3) f(1) limit], of "1 # tail" "[1]"] tail f(2) by simp
    with frame[OF assms(5) f(1)] g(2) have "remote = offer_s" by (auto dest: frame_for_same)
    with g show ?thesis by simp
  qed
  moreover have "established sess \<and> negotiate offer_c offer_s = Inr (session_agreement sess)" if rs: "rs = Inr sess" for sess
  proof -
    from server rs obtain g remote where g: "in_s = MAGIC @ g @ [1]" "frame_for c HELLO_LIMIT g remote"
        "negotiate offer_s remote = Inr (session_agreement sess)" "established sess"
      by (auto simp: server_trace_def)
    then obtain tail where tail: "out_c = MAGIC @ g @ [1] @ tail" using assms(9) by (auto elim: prefixE)
    from client tail obtain f where f: "encode_frame c offer_c HELLO_LIMIT = Inr f" "g @ [1] @ tail = f \<or> g @ [1] @ tail = f @ [1]"
      by (auto simp: client_trace_def)
    have "g = f" using delimits_prefix[OF frame_for_delimits[OF g(2)] encode_frame_delimits[OF assms(3) f(1) limit], of "[1] @ tail"] f(2)
      by (metis append_Nil2)
    with frame[OF assms(4) f(1)] g(2) have "remote = offer_c" by (auto dest: frame_for_same)
    with g negotiate_symmetric show ?thesis by blast
  qed
  ultimately show ?thesis by blast
qed

end
