(* ===== verification/Wire_Exchange.thy ===== *)
theory Wire_Exchange
  imports Wire_Session
begin

text \<open>
  Sessions over a working connection: the exchange of offers, refusals, and the messages that
  follow. An end of the connection is a tape; what one end has written is what the other can read.
\<close>

definition eof :: wire_error where
  "eof = Io (io_error_new ErrorKind_UnexpectedEof ''failed to fill whole buffer'')"

definition says :: "'r \<times> tape \<Rightarrow> u8 list" where
  "says x = tape_output (snd x)"

definition heard :: "u8 list \<Rightarrow> tape" where
  "heard bytes = \<lparr>tape_input = bytes, tape_output = []\<rparr>"

lemma heard_simps [simp]: "tape_input (heard bytes) = bytes" "tape_output (heard bytes) = []"
  by (simp_all add: heard_def)

definition ready :: "tape \<Rightarrow> agreement \<Rightarrow> tape session" where
  "ready t ag = \<lparr>session_frames = \<lparr>framed_io = t, framed_limit = agreement_max_frame ag, framed_failed = False\<rparr>, session_agreement = ag\<rparr>"

lemma length_MAGIC [simp]: "length MAGIC = 8"
  by code_simp

lemma tape_write: "on_io (write_all tape_ops bytes) f = (Ok (), f\<lparr>framed_io := framed_io f\<lparr>tape_output := tape_output (framed_io f) @ bytes\<rparr>\<rparr>)"
  "on_io (flush tape_ops) f = (Ok (), f)"
  "io (write_all tape_ops bytes t) = (Ok (), t\<lparr>tape_output := tape_output t @ bytes\<rparr>)"
  by (simp_all add: tape_ops_def on_io_def io_def)

lemma tape_acceptance:
  "read_acceptance tape_ops f = (case tape_input (framed_io f) of
      [] \<Rightarrow> (Err eof, f)
    | b # rest \<Rightarrow> (if b = 1 then Ok () else Err (invalid ''peer did not accept negotiation''),
        f\<lparr>framed_io := framed_io f\<lparr>tape_input := rest\<rparr>\<rparr>))"
  by (auto simp: read_acceptance_def tape_ops_def on_io_def io_def and_then_def eof_def split: list.splits)

lemma tape_receive_nothing:
  "tape_input (framed_io f) = [] \<Longrightarrow> \<not> framed_failed f \<Longrightarrow>
    framed_receive tape_ops c f = (Err eof, f\<lparr>framed_failed := True\<rparr>)"
  by (simp add: framed_receive_def framed_usable_def tape_ops_def on_io_def io_def and_then_def eof_def)

lemma connect_nothing:
  assumes "hello_validate offer = Inr ()" "encode_frame c offer HELLO_LIMIT = Inr frame"
  shows "session_connect tape_ops c (heard []) offer = (Err eof, \<lparr>tape_input = [], tape_output = MAGIC @ frame\<rparr>)"
  using assms
  by (simp add: session_connect_def heard_def tape_write and_then_def
      tape_send tape_receive_nothing leaving_def)

lemma connect_heard:
  assumes "hello_validate offer = Inr ()" "encode_frame c offer HELLO_LIMIT = Inr frame" "frame_for c HELLO_LIMIT g remote"
  shows "session_connect tape_ops c (heard (g @ rest)) offer =
    (case check_refusal remote of
       Inl e \<Rightarrow> (Err e, \<lparr>tape_input = rest, tape_output = MAGIC @ frame\<rparr>)
     | Inr _ \<Rightarrow> (case negotiate offer remote of
         Inl e \<Rightarrow> (Err e, \<lparr>tape_input = rest, tape_output = MAGIC @ frame\<rparr>)
       | Inr ag \<Rightarrow> (case rest of
           [] \<Rightarrow> (Err eof, \<lparr>tape_input = [], tape_output = MAGIC @ frame @ [1]\<rparr>)
         | b # rest \<Rightarrow> let t = \<lparr>tape_input = rest, tape_output = MAGIC @ frame @ [1]\<rparr> in
             (if b = 1 then Ok (ready t ag) else Err (invalid ''peer did not accept negotiation''), t))))"
proof -
  let ?f = "\<lparr>framed_io = \<lparr>tape_input = g @ rest, tape_output = MAGIC @ frame\<rparr>, framed_limit = HELLO_LIMIT, framed_failed = False\<rparr>"
  have receive: "framed_receive tape_ops c ?f = (Ok remote, ?f\<lparr>framed_io := framed_io ?f\<lparr>tape_input := rest\<rparr>\<rparr>)"
    by (rule tape_receive) (use assms(3) in simp_all)
  then show ?thesis
    using assms(1,2)
    by (simp add: session_connect_def heard_def and_then_def
        tape_send tape_write tape_acceptance leaving_def ready_def Let_def split: sum.split list.split)
qed

lemma offered_heard:
  assumes "frame_for c HELLO_LIMIT g remote"
  shows "session_offered tape_ops c (heard (MAGIC @ g @ rest)) =
    (Ok (\<lparr>framed_io = heard rest, framed_limit = HELLO_LIMIT, framed_failed = False\<rparr>, remote), heard rest)"
proof -
  let ?f = "\<lparr>framed_io = heard (g @ rest), framed_limit = HELLO_LIMIT, framed_failed = False\<rparr>"
  have "framed_receive tape_ops c ?f = (Ok remote, ?f\<lparr>framed_io := framed_io ?f\<lparr>tape_input := rest\<rparr>\<rparr>)"
    by (rule tape_receive) (use assms in \<open>simp_all add: heard_def\<close>)
  moreover have "io (read_exact tape_ops 8 (heard (MAGIC @ g @ rest))) = (Ok MAGIC, heard (g @ rest))"
    by (simp add: tape_ops_def io_def heard_def)
  ultimately show ?thesis by (simp add: session_offered_def and_then_def leaving_def heard_def)
qed

lemma accept_heard:
  assumes "hello_validate offer = Inr ()" "encode_frame c offer HELLO_LIMIT = Inr frame" "frame_for c HELLO_LIMIT g remote"
  shows "session_accept tape_ops c (heard (MAGIC @ g @ rest)) offer =
    (case negotiate offer remote of
       Inl e \<Rightarrow> (Err e, \<lparr>tape_input = rest, tape_output =
         (case rejection offer remote of None \<Rightarrow> [] | Some refusal \<Rightarrow>
            (case encode_frame c refusal HELLO_LIMIT of Inl _ \<Rightarrow> [] | Inr frame \<Rightarrow> frame))\<rparr>)
     | Inr ag \<Rightarrow> (case rest of
         [] \<Rightarrow> (Err eof, \<lparr>tape_input = [], tape_output = frame\<rparr>)
       | b # rest \<Rightarrow>
           if b = 1 then let t = \<lparr>tape_input = rest, tape_output = frame @ [1]\<rparr> in (Ok (ready t ag), t)
           else (Err (invalid ''peer did not accept negotiation''), \<lparr>tape_input = rest, tape_output = frame\<rparr>)))"
  unfolding session_accept_def offered_heard[OF assms(3)] using assms(1,2)
  by (simp add: and_then_def tape_send tape_write tape_acceptance leaving_def ready_def
      heard_def Let_def split: sum.split list.split option.split)

text \<open>The frames that refuse an offer are messages of the codec that fit the limit for offers.\<close>

definition refusal_hello :: "refused \<Rightarrow> 'u hello" where
  "refusal_hello r = hello_default\<lparr>hello_refusal := refusal_to_i32 (refused_reason r)\<rparr>"

definition refusals_fit :: "('u hello \<Rightarrow> bool) \<Rightarrow> 'u hello codec \<Rightarrow> bool" where
  "refusals_fit known c \<longleftrightarrow> (\<forall>r \<in> {Refused_ProtocolTooOld, Refused_PeerRejected, Refused_Retiring}.
     known (refusal_hello r) \<and> (case encode_frame c (refusal_hello r) HELLO_LIMIT of Inr _ \<Rightarrow> True | Inl _ \<Rightarrow> False))"

lemma refusal_frame:
  assumes "refusals_fit known c"
  obtains f where "encode_frame c (refusal_hello r) HELLO_LIMIT = Inr f" "known (refusal_hello r)"
  using assms by (cases r) (auto simp: refusals_fit_def split: sum.splits)

lemma refusal_read: "check_refusal (refusal_hello r) = Inl (Io_Refused r)"
  by (cases r) (simp_all add: refusal_hello_def check_refusal_def refusal_from_i32_def)

section \<open>Establishing a session\<close>

text \<open>C14: Over a working connection the exchange settles. The client's offer reaches the server,
  whose answer reaches the client, and so on in turn. If the offers can be negotiated, the server's
  session and then the client's are established with that agreement, nothing left unread. If they
  cannot, neither is: the client learns that its protocol is too old when the server refuses it for
  that, and otherwise sees the close.\<close>

theorem exchange_settles:
  assumes "codec_ok known c" "known offer_c" "known offer_s"
    and "refusals_fit known c"
    and "hello_validate offer_c = Inr ()" "hello_validate offer_s = Inr ()" "hello_refusal offer_s = 0"
    and "encode_frame c offer_c HELLO_LIMIT = Inr frame_c" "encode_frame c offer_s HELLO_LIMIT = Inr frame_s"
  shows "let client = \<lambda>bytes. session_connect tape_ops c (heard bytes) offer_c;
      server = \<lambda>bytes. session_accept tape_ops c (heard bytes) offer_s;
      offered = says (client []); answered = says (server offered); accepted = says (client answered);
      confirmed = says (server accepted) in
    case negotiate offer_c offer_s of
      Inr ag \<Rightarrow> server accepted = (Ok (ready (heard []\<lparr>tape_output := confirmed\<rparr>) ag), heard []\<lparr>tape_output := confirmed\<rparr>) \<and>
        client confirmed = (Ok (ready (heard []\<lparr>tape_output := accepted\<rparr>) ag), heard []\<lparr>tape_output := accepted\<rparr>)
    | Inl e \<Rightarrow> (\<exists>e'. fst (server accepted) = Err e') \<and>
        fst (client confirmed) =
          (case rejection offer_s offer_c of None \<Rightarrow> Err eof | Some _ \<Rightarrow> Err (Io_Refused Refused_ProtocolTooOld))"
proof -
  have limit: "HELLO_LIMIT \<le> MAX_FRAME" by (simp add: wire_constants)
  note frame = encode_frame_for[OF assms(1) _ _ order_refl limit]
  note fc = frame[OF assms(2,8)] and fs = frame[OF assms(3,9)]
  note client = connect_heard[OF assms(5,8) fs] and server = accept_heard[OF assms(6,9) fc]
  have offered: "says (session_connect tape_ops c (heard []) offer_c) = MAGIC @ frame_c @ []"
    by (simp add: says_def connect_nothing[OF assms(5,8)])
  have open_offer: "check_refusal offer_s = Inr ()"
    by (simp add: check_refusal_def assms(7) refusal_from_i32_def)
  show ?thesis
  proof (cases "negotiate offer_c offer_s")
    case (Inr ag)
    then have "negotiate offer_s offer_c = Inr ag" by (simp add: negotiate_symmetric)
    with Inr show ?thesis
      unfolding Let_def offered
      using client[of "[]"] client[of "[1]"] server[of "[]"] server[of "[1]"]
      by (simp add: says_def open_offer ready_def heard_def Let_def)
  next
    case (Inl e)
    then obtain e' where e': "negotiate offer_s offer_c = Inl e'"
      using negotiate_symmetric[of offer_c offer_s] by (cases "negotiate offer_s offer_c") auto
    show ?thesis
    proof (cases "rejection offer_s offer_c")
      case None
      with Inl e' show ?thesis
        unfolding Let_def offered using server[of "[]"] offered connect_nothing[OF assms(5,8)] by (simp add: says_def)
    next
      case (Some refusal)
      then have refusal: "refusal = refusal_hello Refused_ProtocolTooOld"
        by (auto simp: rejection_def refused_frame_def refusal_hello_def Let_def split: if_splits)
      obtain f where f: "encode_frame c refusal HELLO_LIMIT = Inr f" "known refusal"
        using refusal_frame[OF assms(4)] refusal by metis
      have "check_refusal refusal = Inl (Io_Refused Refused_ProtocolTooOld)" by (simp add: refusal refusal_read)
      with Some Inl e' f show ?thesis
        unfolding Let_def offered using server[of "[]"] connect_heard[OF assms(5,8) frame[OF f(2,1)], of "[]"]
        by (simp add: says_def)
    qed
  qed
qed

text \<open>C32: A refusal reaches the client it is for, with its reason, and no other. A server that
  refuses a well-formed offer always finishes; a client that reads refusals and named the server's
  service learns exactly the server's reason, and any other sees a close without a reason.\<close>

theorem refusals_reach_the_client:
  assumes "codec_ok known c" "known offer_c"
    and "refusals_fit known c"
    and "hello_validate offer_c = Inr ()" "encode_frame c offer_c HELLO_LIMIT = Inr frame_c"
  shows "let client = \<lambda>bytes. session_connect tape_ops c (heard bytes) offer_c;
      refusing = session_refuse tape_ops c (heard (says (client []))) offer_s reason in
    fst refusing = Ok () \<and>
    (if hello_reads_refusal offer_c \<and> same_service offer_s offer_c
     then fst (client (says refusing)) = Err (Io_Refused reason)
     else says refusing = [] \<and> fst (client (says refusing)) = Err eof)"
proof -
  have limit: "HELLO_LIMIT \<le> MAX_FRAME" by (simp add: wire_constants)
  note frame = encode_frame_for[OF assms(1) _ _ order_refl limit]
  have offered: "says (session_connect tape_ops c (heard []) offer_c) = MAGIC @ frame_c @ []"
    by (simp add: says_def connect_nothing[OF assms(4,5)])
  obtain f where f: "encode_frame c (refusal_hello reason) HELLO_LIMIT = Inr f" "known (refusal_hello reason)"
    using refusal_frame[OF assms(3)] by metis
  have told: "fst (session_connect tape_ops c (heard f) offer_c) = Err (Io_Refused reason)"
    using connect_heard[OF assms(4,5) frame[OF f(2,1)], of "[]"] by (simp add: refusal_read)
  have "refused_frame reason offer_s offer_c =
      (if hello_reads_refusal offer_c \<and> same_service offer_s offer_c then Some (refusal_hello reason) else None)"
    by (simp add: refused_frame_def refusal_hello_def assms(4))
  with told show ?thesis
    unfolding Let_def offered session_refuse_def offered_heard[OF frame[OF assms(2,5)]]
    using f assms(4)
    by (simp add: and_then_def tape_send leaving_def says_def connect_nothing[OF assms(4,5)])
qed

section \<open>Messages of an established session\<close>

fun send_all :: "'s stream_ops \<Rightarrow> 'u control_msg codec \<Rightarrow> 'u control_msg list \<Rightarrow> 's session \<Rightarrow> (wire_error + unit) list \<times> 's session" where
  "send_all ops c [] s = ([], s)"
| "send_all ops c (m # ms) s =
    (let (r, s) = session_send ops c m s; (rs, s) = send_all ops c ms s in (r # rs, s))"

fun receive_all :: "'s stream_ops \<Rightarrow> 'u control_msg codec \<Rightarrow> nat \<Rightarrow> 's session \<Rightarrow> (wire_error + 'u control_msg) list \<times> 's session" where
  "receive_all ops c 0 s = ([], s)"
| "receive_all ops c (Suc n) s =
    (let (r, s) = session_receive ops c s; (rs, s) = receive_all ops c n s in (r # rs, s))"

definition sent :: "'m list \<Rightarrow> (wire_error + unit) list \<Rightarrow> 'm list" where
  "sent ms rs = map fst (filter (\<lambda>(_, r). r = Ok ()) (zip ms rs))"

lemma session_check_ready: "session_check (ready t ag) m = session_check (ready u ag) m"
  by (simp add: session_check_def ready_def split: sum.split)

lemma send_step:
  "session_send tape_ops c m (ready t ag) =
    (case session_check (ready t ag) m of
       Inl e \<Rightarrow> (Err e, ready t ag)
     | Inr _ \<Rightarrow> (case encode_frame c m (agreement_max_frame ag) of
         Inl e \<Rightarrow> (Err e, ready t ag)
       | Inr frame \<Rightarrow> (Ok (), ready (t\<lparr>tape_output := tape_output t @ frame\<rparr>) ag)))"
  by (simp add: session_send_def tape_send ready_def split: sum.split)

lemma receive_step:
  assumes "frame_for c (agreement_max_frame ag) frame m" "session_check (ready t ag) m = Inr ()"
  shows "session_receive tape_ops c (ready (t\<lparr>tape_input := frame @ rest\<rparr>) ag) = (Ok m, ready (t\<lparr>tape_input := rest\<rparr>) ag)"
proof -
  let ?f = "\<lparr>framed_io = t\<lparr>tape_input := frame @ rest\<rparr>, framed_limit = agreement_max_frame ag, framed_failed = False\<rparr>"
  have "framed_receive tape_ops c ?f = (Ok m, ?f\<lparr>framed_io := framed_io ?f\<lparr>tape_input := rest\<rparr>\<rparr>)"
    by (rule tape_receive) (use assms(1) in simp_all)
  moreover have "session_check (ready (t\<lparr>tape_input := rest\<rparr>) ag) m = Inr ()"
    using assms(2) session_check_ready by metis
  ultimately show ?thesis by (simp add: session_receive_def ready_def Let_def)
qed

text \<open>C18: What one end sends is what the other receives. Of any sequence of messages, sent over a
  working session, the peer receives exactly those whose sending succeeded, in their order and
  unchanged, and then has nothing left to read; a message that could not be sent left no trace.\<close>

theorem sent_messages_arrive:
  assumes "codec_ok known c" "\<forall>m \<in> set ms. known m" "agreement_max_frame ag \<le> MAX_FRAME"
  shows "case send_all tape_ops c ms (ready (heard []) ag) of (rs, s) \<Rightarrow>
    (\<exists>out. s = ready \<lparr>tape_input = [], tape_output = out\<rparr> ag \<and>
      receive_all tape_ops c (length (sent ms rs)) (ready (heard out) ag) = (map Ok (sent ms rs), ready (heard []) ag))"
proof -
  have "\<exists>rs out. send_all tape_ops c ms (ready t ag) = (rs, ready (t\<lparr>tape_output := tape_output t @ out\<rparr>) ag) \<and>
      (\<forall>u. receive_all tape_ops c (length (sent ms rs)) (ready (u\<lparr>tape_input := out\<rparr>) ag) =
        (map Ok (sent ms rs), ready (u\<lparr>tape_input := []\<rparr>) ag))" for t
    using assms(2)
  proof (induction ms arbitrary: t)
    case Nil
    then show ?case by (auto simp: sent_def intro: exI[of _ "[]"])
  next
    case (Cons m ms)
    show ?case
    proof (cases "session_check (ready t ag) m = Inr () \<and> (\<exists>frame. encode_frame c m (agreement_max_frame ag) = Inr frame)")
      case True
      then obtain frame where frame: "encode_frame c m (agreement_max_frame ag) = Inr frame" by blast
      have check: "session_check (ready u ag) m = Inr ()" for u
        using True session_check_ready by metis
      obtain rs out where "send_all tape_ops c ms (ready (t\<lparr>tape_output := tape_output t @ frame\<rparr>) ag) =
          (rs, ready (t\<lparr>tape_output := (tape_output t @ frame) @ out\<rparr>) ag)"
        "\<forall>u. receive_all tape_ops c (length (sent ms rs)) (ready (u\<lparr>tape_input := out\<rparr>) ag) =
          (map Ok (sent ms rs), ready (u\<lparr>tape_input := []\<rparr>) ag)"
        using Cons.IH[of "t\<lparr>tape_output := tape_output t @ frame\<rparr>"] Cons.prems by auto
      moreover have "session_receive tape_ops c (ready (u\<lparr>tape_input := frame @ out\<rparr>) ag) = (Ok m, ready (u\<lparr>tape_input := out\<rparr>) ag)" for u
        by (rule receive_step[OF encode_frame_for[OF assms(1) _ frame order_refl assms(3)] check]) (use Cons.prems in simp)
      ultimately show ?thesis
        using frame check by (intro exI[of _ "Ok () # rs"] exI[of _ "frame @ out"]) (simp add: send_step sent_def)
    next
      case False
      then obtain e where "session_send tape_ops c m (ready t ag) = (Inl e, ready t ag)"
        by (cases "session_check (ready t ag) m"; cases "encode_frame c m (agreement_max_frame ag)") (auto simp: send_step)
      moreover obtain rs out where "send_all tape_ops c ms (ready t ag) = (rs, ready (t\<lparr>tape_output := tape_output t @ out\<rparr>) ag)"
        "\<forall>u. receive_all tape_ops c (length (sent ms rs)) (ready (u\<lparr>tape_input := out\<rparr>) ag) =
          (map Ok (sent ms rs), ready (u\<lparr>tape_input := []\<rparr>) ag)"
        using Cons.IH[of t] Cons.prems by auto
      ultimately show ?thesis by (intro exI[of _ "Err e # rs"] exI[of _ out]) (simp add: sent_def)
    qed
  qed
  from this[of "heard []"] obtain rs out where "send_all tape_ops c ms (ready (heard []) ag) = (rs, ready (heard []\<lparr>tape_output := out\<rparr>) ag)"
    and "receive_all tape_ops c (length (sent ms rs)) (ready (heard []\<lparr>tape_input := out\<rparr>) ag) =
        (map Ok (sent ms rs), ready (heard []\<lparr>tape_input := []\<rparr>) ag)"
    by auto
  then show ?thesis by (auto simp: heard_def)
qed

section \<open>Failed sessions\<close>

datatype 'u session_op = Op_Send "'u control_msg" | Op_Receive

fun session_step :: "'s stream_ops \<Rightarrow> 'u control_msg codec \<Rightarrow> 'u session_op \<Rightarrow> 's session \<Rightarrow> (wire_error + 'u control_msg) \<times> 's session" where
  "session_step ops c (Op_Send m) s = (case session_send ops c m s of (Inl e, s) \<Rightarrow> (Err e, s) | (Inr _, s) \<Rightarrow> (Ok m, s))"
| "session_step ops c Op_Receive s = (case session_receive ops c s of (Inl e, s) \<Rightarrow> (Err e, s) | (Inr m, s) \<Rightarrow> (Ok m, s))"

fun session_run :: "'s stream_ops \<Rightarrow> 'u control_msg codec \<Rightarrow> 'u session_op list \<Rightarrow> 's session \<Rightarrow> bool list \<times> 's session" where
  "session_run ops c [] s = ([], s)"
| "session_run ops c (op # later) s =
    (let (r, s) = session_step ops c op s; (rs, s) = session_run ops c later s in ((\<exists>x. r = Ok x) # rs, s))"

lemma failed_step:
  assumes "framed_failed (session_frames s)"
  shows "\<exists>e. session_step ops c op s = (Err e, s)"
proof -
  have "framed_receive ops c (session_frames s) = (Err (invalid ''session failed; reconnect without replay''), session_frames s)"
    "framed_send ops c m (session_frames s) = (Err (invalid ''session failed; reconnect without replay''), session_frames s)" for m
    using assms by (simp_all add: framed_receive_def framed_send_def framed_usable_def)
  then show ?thesis
    by (cases op) (auto simp: session_send_def session_receive_def Let_def split: sum.split)
qed

lemma failed_run:
  "framed_failed (session_frames s) \<Longrightarrow> session_run ops c later s = (replicate (length later) False, s)"
proof (induction later)
  case (Cons op later)
  then show ?case using failed_step[OF Cons.prems, of ops c op] by auto
qed simp

lemma on_io_frames: "on_io f fr = (r, fr') \<Longrightarrow> framed_failed fr' = framed_failed fr \<and> framed_limit fr' = framed_limit fr"
  by (auto simp: on_io_def split: prod.splits)

lemma framed_send_outcome:
  "framed_send ops c m f = (r, f') \<Longrightarrow> framed_limit f' = framed_limit f \<and>
    (case r of Inl _ \<Rightarrow> f' = f \<or> framed_failed f' | Inr _ \<Rightarrow> \<not> framed_failed f')"
  by (auto simp: framed_send_def framed_usable_def split: sum.splits if_splits elim!: and_thenE dest!: on_io_frames)

lemma framed_receive_outcome:
  "framed_receive ops c f = (r, f') \<Longrightarrow> framed_limit f' = framed_limit f \<and>
    (case r of Inl _ \<Rightarrow> framed_failed f' | Inr _ \<Rightarrow> \<not> framed_failed f')"
  by (auto simp: framed_receive_def framed_usable_def Let_def split: sum.splits if_splits elim!: and_thenE dest!: on_io_frames)

text \<open>A session that failed stays failed. Every operation that succeeds was used on a working
  session, leaves it working, and moved a message the agreement covers. One that fails either left
  the session as it was, having written and read nothing, or leaves one on which every later
  operation fails without touching the stream. The agreement and the frame limit never change.\<close>

theorem failed_sessions_stay_failed:
  "case session_step ops c op s of (r, s') \<Rightarrow>
    session_agreement s' = session_agreement s \<and> framed_limit (session_frames s') = framed_limit (session_frames s) \<and>
    (case r of
       Inr m \<Rightarrow> \<not> framed_failed (session_frames s) \<and> \<not> framed_failed (session_frames s') \<and>
         session_check s m = Ok ()
     | Inl _ \<Rightarrow> s' = s \<or> (\<forall>later. session_run ops c later s' = (replicate (length later) False, s')))"
proof -
  have check: "session_check (s\<lparr>session_frames := f\<rparr>) m = session_check s m" for f m
    by (simp add: session_check_def split: sum.split)
  obtain r s' where step: "session_step ops c op s = (r, s')" by (metis surj_pair)
  have usable: "r = Inr m \<Longrightarrow> \<not> framed_failed (session_frames s)" for m
    using failed_step[of s ops c op] step by auto
  have out: "session_agreement s' = session_agreement s \<and> framed_limit (session_frames s') = framed_limit (session_frames s) \<and>
    (case r of Inl _ \<Rightarrow> s' = s \<or> framed_failed (session_frames s')
     | Inr m \<Rightarrow> \<not> framed_failed (session_frames s') \<and> session_check s m = Ok ())"
  proof (cases op)
    case (Op_Send m)
    then show ?thesis
      using step framed_send_outcome[of ops c m "session_frames s"]
      by (auto simp: session_send_def Let_def split: sum.splits prod.splits) 
  next
    case Op_Receive
    then show ?thesis
      using step framed_receive_outcome[of ops c "session_frames s"]
      by (auto simp: session_receive_def Let_def check split: sum.splits prod.splits)
  qed
  with step usable failed_run show ?thesis by (auto split: sum.splits)
qed
section \<open>The generated codec\<close>

abbreviation "leb_hello \<equiv> hello_codec leb leb_loop"
abbreviation "leb_control \<equiv> control_codec leb leb_loop"

lemma generated_encodes:
  assumes "write_to m \<noteq> []" "compute_size m \<le> unat limit"
  shows "encode_frame (generated_codec compute_size write_to merge) m limit = Inr (to_le_bytes (length (write_to m)) @ write_to m)"
  using assms by (simp add: encode_frame_def generated_codec_def)

lemmas leb_eval = hello_compute_size_def hello_write_to_def hello_known_def leb_def hello_default_def delimited_def varint.simps
  wire_constants saturate_size_def example_offer_def hello_new_def example_identity_def

lemma leb_refusals_fit: "refusals_fit (hello_known leb) leb_hello"
proof -
  have "hello_write_to leb (refusal_hello r) \<noteq> [] \<and> hello_compute_size leb (refusal_hello r) \<le> unat HELLO_LIMIT \<and> hello_known leb (refusal_hello r)" for r
    by (cases r) (simp_all add: leb_eval refusal_hello_def)
  then show ?thesis by (simp add: refusals_fit_def hello_codec_def generated_encodes)
qed

lemma example_valid: "hello_validate (example_offer 3 1) = Inr ()" "hello_validate (example_offer 9 0) = Inr ()"
  by code_simp+

text \<open>Offers of the example installation that mention only the first few capabilities.\<close>

lemma example_offers:
  assumes "(s, r) \<in> {(3, 1), (9, 0)}"
  shows "hello_validate (example_offer s r) = Inr () \<and> hello_known leb (example_offer s r) \<and> hello_refusal (example_offer s r) = 0 \<and>
    (\<exists>f. encode_frame leb_hello (example_offer s r) HELLO_LIMIT = Inr f)"
proof -
  have "hello_write_to leb (example_offer s r) \<noteq> [] \<and> hello_compute_size leb (example_offer s r) \<le> unat HELLO_LIMIT"
    using assms by (elim insertE emptyE; simp only: prod.inject; simp add: leb_eval)
  moreover have "hello_validate (example_offer s r) = Inr ()"
    using assms example_valid by auto
  ultimately show ?thesis by (auto simp: hello_codec_def generated_encodes hello_known_def example_offer_def hello_new_def hello_default_def)
qed

lemma exact_tape: "exact tape_ops"
  by (auto simp: exact_def tape_ops_def)

lemma tapped_tape_receive:
  assumes "frame_for c (framed_limit f) frame m" "framed_io f = (t, i, out)" "tape_input t = frame @ rest" "\<not> framed_failed f"
  shows "framed_receive (tapped tape_ops) c f = (Ok m, f\<lparr>framed_io := (t\<lparr>tape_input := rest\<rparr>, i @ frame, out)\<rparr>)"
  using assms
  by (auto simp: frame_for_def framed_receive_def framed_usable_def tapped_def tape_ops_def and_then_def on_io_def io_def Let_def)

lemma tapped_tape_send:
  assumes "encode_frame c m (framed_limit f) = Inr frame" "framed_io f = (t, i, out)" "\<not> framed_failed f"
  shows "framed_send (tapped tape_ops) c m f = (Ok (), f\<lparr>framed_io := (t\<lparr>tape_output := tape_output t @ frame\<rparr>, i, out @ frame)\<rparr>)"
  using assms
  by (simp add: framed_send_def framed_usable_def tapped_def tape_ops_def and_then_def on_io_def io_def)

lemma tapped_tape_io:
  "on_io (write_all (tapped tape_ops) bytes) f = (case framed_io f of (t, i, out) \<Rightarrow>
    (Ok (), f\<lparr>framed_io := (t\<lparr>tape_output := tape_output t @ bytes\<rparr>, i, out @ bytes)\<rparr>))"
  "on_io (flush (tapped tape_ops)) f = (Ok (), f)"
  "io (write_all (tapped tape_ops) bytes (t, i, out)) = (Ok (), t\<lparr>tape_output := tape_output t @ bytes\<rparr>, i, out @ bytes)"
  "on_io (read_exact (tapped tape_ops) 1) f = (case framed_io f of (t, i, out) \<Rightarrow> (case tape_input t of
      [] \<Rightarrow> (Err eof, f)
    | x # rest \<Rightarrow> (Ok [x], f\<lparr>framed_io := (t\<lparr>tape_input := rest\<rparr>, i @ [x], out)\<rparr>)))"
  "tape_input t = MAGIC @ rest \<Longrightarrow>
    io (read_exact (tapped tape_ops) 8 (t, i, out)) = (Ok MAGIC, t\<lparr>tape_input := rest\<rparr>, i @ MAGIC, out)"
  by (cases "framed_io f"; simp add: tapped_def tape_ops_def on_io_def io_def eof_def split: list.split)+

lemma tapped_connect:
  assumes "hello_validate offer = Inr ()" "encode_frame c offer HELLO_LIMIT = Inr frame" "frame_for c HELLO_LIMIT g remote"
    and "check_refusal remote = Inr ()" "negotiate offer remote = Inr ag"
  shows "\<exists>sess s'. session_connect (tapped tape_ops) c (heard (g @ [1]), [], []) offer = (Ok sess, s', g @ [1], MAGIC @ frame @ [1])"
proof -
  let ?f = "\<lparr>framed_io = (\<lparr>tape_input = g @ [1], tape_output = MAGIC @ frame\<rparr>, [], MAGIC @ frame), framed_limit = HELLO_LIMIT, framed_failed = False\<rparr>"
  have receive: "framed_receive (tapped tape_ops) c ?f =
      (Ok remote, ?f\<lparr>framed_io := (\<lparr>tape_input = [1], tape_output = MAGIC @ frame\<rparr>, g, MAGIC @ frame)\<rparr>)"
    using tapped_tape_receive[of c ?f g remote _ _ _ "[1]"] assms(3) by simp
  show ?thesis
    unfolding session_connect_def read_acceptance_def using assms receive
    by (simp add: heard_def tapped_tape_io and_then_def tapped_tape_send leaving_def Let_def del: One_nat_def)
qed

lemma tapped_accept:
  assumes "hello_validate offer = Inr ()" "encode_frame c offer HELLO_LIMIT = Inr frame" "frame_for c HELLO_LIMIT g remote"
    and "negotiate offer remote = Inr ag"
  shows "\<exists>sess s'. session_accept (tapped tape_ops) c (heard (MAGIC @ g @ [1]), [], []) offer = (Ok sess, s', MAGIC @ g @ [1], frame @ [1])"
proof -
  let ?f = "\<lparr>framed_io = (\<lparr>tape_input = g @ [1], tape_output = []\<rparr>, MAGIC, []), framed_limit = HELLO_LIMIT, framed_failed = False\<rparr>"
  have receive: "framed_receive (tapped tape_ops) c ?f =
      (Ok remote, ?f\<lparr>framed_io := (\<lparr>tape_input = [1], tape_output = []\<rparr>, MAGIC @ g, [])\<rparr>)"
    using tapped_tape_receive[of c ?f g remote _ _ _ "[1]"] assms(3) by simp
  show ?thesis
    unfolding session_accept_def session_offered_def read_acceptance_def using assms receive
    by (simp add: heard_def tapped_tape_io and_then_def tapped_tape_send leaving_def Let_def del: One_nat_def)
qed

lemma leb_hello_ok: "codec_ok (hello_known leb) leb_hello"
  by (rule message_codecs_ok(1)[OF leb_ok leb_loop_ok])

lemma leb_control_ok: "codec_ok (control_known leb) leb_control"
  by (rule message_codecs_ok(2)[OF leb_ok leb_loop_ok])

text \<open>The agreement of the two example offers.\<close>

abbreviation example_agreement :: agreement where
  "example_agreement \<equiv> \<lparr>agreement_version = 2, agreement_capabilities = 1, agreement_max_frame = 65536\<rparr>"

theorem sessions_agree_witness:
  "\<exists>rc s' in_c out_c rs t' in_s out_s sess.
     session_connect (tapped tape_ops) leb_hello (heard in_c, [], []) (example_offer 3 1) = (rc, s', in_c, out_c) \<and>
     session_accept (tapped tape_ops) leb_hello (heard in_s, [], []) (example_offer 9 0) = (rs, t', in_s, out_s) \<and>
     in_c = out_s \<and> in_s = out_c \<and> rc = Inr sess \<and> session_agreement sess = example_agreement"
proof -
  let ?c = "example_offer 3 1" and ?s = "example_offer 9 0"
  have c: "hello_validate ?c = Inr ()" "hello_known leb ?c" "\<exists>f. encode_frame leb_hello ?c HELLO_LIMIT = Inr f"
    and s: "hello_validate ?s = Inr ()" "hello_known leb ?s" "hello_refusal ?s = 0" "\<exists>f. encode_frame leb_hello ?s HELLO_LIMIT = Inr f"
    using example_offers[of 3 1] example_offers[of 9 0] by auto
  then obtain fc fs where fc: "encode_frame leb_hello ?c HELLO_LIMIT = Inr fc" and fs: "encode_frame leb_hello ?s HELLO_LIMIT = Inr fs" by auto
  have limit: "HELLO_LIMIT \<le> MAX_FRAME" by (simp add: wire_constants)
  note frame = encode_frame_for[OF leb_hello_ok _ _ order_refl limit]
  have turned: "negotiate ?s ?c = Inr example_agreement"
    using negotiate_symmetric[of ?s ?c] example_negotiation by auto
  have "check_refusal ?s = Inr ()" by (simp add: check_refusal_def s(3) refusal_from_i32_def)
  then obtain sess s' where client: "session_connect (tapped tape_ops) leb_hello (heard (fs @ [1]), [], []) ?c = (Ok sess, s', fs @ [1], MAGIC @ fc @ [1])"
    using tapped_connect[OF c(1) fc frame[OF s(2) fs] _ example_negotiation] by blast
  obtain sess' t' where server: "session_accept (tapped tape_ops) leb_hello (heard (MAGIC @ fc @ [1]), [], []) ?s = (Ok sess', t', MAGIC @ fc @ [1], fs @ [1])"
    using tapped_accept[OF s(1) fs frame[OF c(2) fc] turned] by blast
  have "negotiate ?c ?s = Inr (session_agreement sess)"
    using sessions_agree[OF exact_tape exact_tape leb_hello_ok c(2) s(2) client server] by simp
  then have "session_agreement sess = example_agreement" using example_negotiation by simp
  with client server show ?thesis by blast
qed

theorem exchange_settles_witness:
  "\<exists>t. fst (session_accept tape_ops leb_hello (heard (says (session_connect tape_ops leb_hello (heard (says
      (session_accept tape_ops leb_hello (heard (says (session_connect tape_ops leb_hello (heard []) (example_offer 3 1)))) (example_offer 9 0))))
      (example_offer 3 1)))) (example_offer 9 0)) = Ok (ready t example_agreement)"
proof -
  obtain fc fs where fc: "encode_frame leb_hello (example_offer 3 1) HELLO_LIMIT = Inr fc" and fs: "encode_frame leb_hello (example_offer 9 0) HELLO_LIMIT = Inr fs"
    using example_offers[of 3 1] example_offers[of 9 0] by auto
  have valid: "hello_validate (example_offer 3 1) = Inr ()" "hello_known leb (example_offer 3 1)"
    "hello_validate (example_offer 9 0) = Inr ()" "hello_known leb (example_offer 9 0)" "hello_refusal (example_offer 9 0) = 0"
    using example_offers[of 3 1] example_offers[of 9 0] by simp_all
  from exchange_settles[OF leb_hello_ok valid(2,4) leb_refusals_fit valid(1,3,5) fc fs, unfolded Let_def example_negotiation sum.case, THEN conjunct1]
  show ?thesis by (metis fst_conv)
qed

theorem refusals_reach_the_client_witness:
  "fst (session_connect tape_ops leb_hello (heard (says (session_refuse tape_ops leb_hello
     (heard (says (session_connect tape_ops leb_hello (heard []) (example_offer 3 1)))) (example_offer 9 0) Refused_Retiring))) (example_offer 3 1))
   = Err (Io_Refused Refused_Retiring)"
proof -
  obtain fc where fc: "encode_frame leb_hello (example_offer 3 1) HELLO_LIMIT = Inr fc" using example_offers[of 3 1] by auto
  have reads: "hello_reads_refusal (example_offer 3 1) \<and> same_service (example_offer 9 0) (example_offer 3 1)" by code_simp
  have valid: "hello_known leb (example_offer 3 1)" "hello_validate (example_offer 3 1) = Inr ()"
    using example_offers[of 3 1] by simp_all
  show ?thesis
    by (rule refusals_reach_the_client[where offer_s = "example_offer 9 0" and reason = Refused_Retiring,
          OF leb_hello_ok valid(1) leb_refusals_fit valid(2) fc,
          unfolded Let_def if_P[OF reads], THEN conjunct2])
qed

definition example_message :: "(nat \<times> nat) control_msg" where
  "example_message = control_default\<lparr>control_operation := 1, control_request_id := 7\<rparr>"

theorem sent_messages_arrive_witness:
  "case send_all tape_ops leb_control [example_message] (ready (heard []) example_agreement) of (rs, s) \<Rightarrow>
    (\<exists>out. s = ready \<lparr>tape_input = [], tape_output = out\<rparr> example_agreement \<and>
      receive_all tape_ops leb_control (length (sent [example_message] rs)) (ready (heard out) example_agreement) =
        (map Ok (sent [example_message] rs), ready (heard []) example_agreement))"
  by (rule sent_messages_arrive[OF leb_control_ok]) (simp_all add: example_message_def control_known_def control_default_def wire_constants)

theorem failed_sessions_stay_failed_witness:
  "session_agreement (snd (session_step tape_ops leb_control Op_Receive (ready (heard []) example_agreement))) = example_agreement"
  using failed_sessions_stay_failed[where ops = tape_ops and c = leb_control and op = Op_Receive and s = "ready (heard []) example_agreement"]
  by (auto simp: ready_def split: prod.splits)

end
