(* ===== verification/Wire_Async.thy ===== *)
theory Wire_Async
  imports Wire_Exchange
begin

text \<open>
  Asynchronous sessions: \<^verbatim>\<open>wire/asynchronous.rs\<close>. An awaited operation either completes or is cancelled; a
  cancelled one leaves the session as the failure of the same operation does, since the code
  after the await does not run. Every operation refines the blocking one.
\<close>

section \<open>The sessions\<close>

record 's async_session =
  as_io :: 's
  as_agreement :: agreement
  as_failed :: bool

definition unestablished :: "'s \<Rightarrow> 's async_session" where
  "unestablished s = \<lparr>as_io = s,
     as_agreement = \<lparr>agreement_version = VERSION, agreement_capabilities = 0, agreement_max_frame = HELLO_LIMIT\<rparr>,
     as_failed = False\<rparr>"

definition async_io :: "('s \<Rightarrow> (io_error + 'a) \<times> 's) \<Rightarrow> 's async_session \<Rightarrow> (wire_error + 'a) \<times> 's async_session" where
  "async_io f a = (let (r, s) = io (f (as_io a)) in (r, a\<lparr>as_io := s\<rparr>))"

definition async_leaving :: "(wire_error + 'a) \<times> 's async_session \<Rightarrow> (wire_error + 'a) \<times> 's" where
  "async_leaving r = (fst r, as_io (snd r))"

definition async_usable :: "'s async_session \<Rightarrow> wire_error + unit" where
  "async_usable a = (if as_failed a then Err (invalid ''session failed; reconnect without replay'') else Ok ())"

definition read_u8 :: "'s stream_ops \<Rightarrow> 's \<Rightarrow> (io_error + u8) \<times> 's" where
  "read_u8 ops s = (case read_exact ops 1 s of (Inl e, s) \<Rightarrow> (Inl e, s) | (Inr bytes, s) \<Rightarrow> (Inr (hd bytes), s))"

definition read_u32_le :: "'s stream_ops \<Rightarrow> 's \<Rightarrow> (io_error + nat) \<times> 's" where
  "read_u32_le ops s = (case read_exact ops 4 s of (Inl e, s) \<Rightarrow> (Inl e, s) | (Inr bytes, s) \<Rightarrow> (Inr (from_le_bytes bytes), s))"

definition async_send_message :: "'s stream_ops \<Rightarrow> 'm codec \<Rightarrow> 'm \<Rightarrow> 's async_session \<Rightarrow> (wire_error + unit) \<times> 's async_session" where
  "async_send_message ops c message a =
    (case async_usable a of
       Inl e \<Rightarrow> (Err e, a)
     | Inr _ \<Rightarrow> (case encode_frame c message (agreement_max_frame (as_agreement a)) of
         Inl e \<Rightarrow> (Err e, a)
       | Inr buffer \<Rightarrow>
           and_then (async_io (write_all ops buffer) (a\<lparr>as_failed := True\<rparr>)) (\<lambda>_ a.
           and_then (async_io (flush ops) a) (\<lambda>_ a.
           (Ok (), a\<lparr>as_failed := False\<rparr>)))))"

definition async_receive_message :: "'s stream_ops \<Rightarrow> 'm codec \<Rightarrow> 's async_session \<Rightarrow> (wire_error + 'm) \<times> 's async_session" where
  "async_receive_message ops c a =
    (case async_usable a of
       Inl e \<Rightarrow> (Err e, a)
     | Inr _ \<Rightarrow>
         and_then (async_io (read_u32_le ops) (a\<lparr>as_failed := True\<rparr>)) (\<lambda>len a.
         if len = 0 \<or> len > unat (agreement_max_frame (as_agreement a))
         then (Err (invalid ''received frame exceeds negotiated bounds''), a)
         else
         and_then (async_io (read_exact ops len) a) (\<lambda>buffer a.
         case decode_message c buffer (agreement_max_frame (as_agreement a)) of
           Inl e \<Rightarrow> (Err e, a)
         | Inr message \<Rightarrow> (Ok message, a\<lparr>as_failed := False\<rparr>))))"

definition async_read_acceptance :: "'s stream_ops \<Rightarrow> 's async_session \<Rightarrow> (wire_error + unit) \<times> 's async_session" where
  "async_read_acceptance ops a =
    and_then (async_io (read_u8 ops) a) (\<lambda>accepted a.
    if accepted \<noteq> 1 then (Err (invalid ''peer did not accept negotiation''), a)
    else (Ok (), a))"

definition async_connect :: "'s stream_ops \<Rightarrow> 'u hello codec \<Rightarrow> 's \<Rightarrow> 'u hello \<Rightarrow> (wire_error + 's async_session) \<times> 's" where
  "async_connect ops c s offer =
    (case hello_validate offer of
       Inl e \<Rightarrow> (Err e, s)
     | Inr _ \<Rightarrow> async_leaving (
         and_then (async_io (write_all ops MAGIC) (unestablished s)) (\<lambda>_ a.
         and_then (async_send_message ops c offer a) (\<lambda>_ a.
         and_then (async_receive_message ops c a) (\<lambda>remote a.
         case check_refusal remote of
           Inl e \<Rightarrow> (Err e, a)
         | Inr _ \<Rightarrow> (case negotiate offer remote of
             Inl e \<Rightarrow> (Err e, a)
           | Inr agreement \<Rightarrow>
               and_then (async_io (write_all ops [1]) a) (\<lambda>_ a.
               and_then (async_io (flush ops) a) (\<lambda>_ a.
               and_then (async_read_acceptance ops a) (\<lambda>_ a.
               let a = a\<lparr>as_agreement := agreement\<rparr> in (Ok a, a))))))))))"

definition async_offered :: "'s stream_ops \<Rightarrow> 'u hello codec \<Rightarrow> 's \<Rightarrow> (wire_error + 's async_session \<times> 'u hello) \<times> 's" where
  "async_offered ops c s = async_leaving (
    and_then (async_io (read_exact ops 8) (unestablished s)) (\<lambda>magic a.
    if magic \<noteq> MAGIC then (Err (invalid ''wrong binary protocol magic''), a)
    else and_then (async_receive_message ops c a) (\<lambda>remote a. (Ok (a, remote), a))))"

definition async_accept :: "'s stream_ops \<Rightarrow> 'u hello codec \<Rightarrow> 's \<Rightarrow> 'u hello \<Rightarrow> (wire_error + 's async_session) \<times> 's" where
  "async_accept ops c s offer =
    (case hello_validate offer of
       Inl e \<Rightarrow> (Err e, s)
     | Inr _ \<Rightarrow>
         and_then (async_offered ops c s) (\<lambda>(a, remote) _. async_leaving (
         case negotiate offer remote of
           Inl error \<Rightarrow>
             (case rejection offer remote of
                Some refusal \<Rightarrow> (Err error, snd (async_send_message ops c refusal a))
              | None \<Rightarrow> (Err error, a))
         | Inr agreement \<Rightarrow>
             and_then (async_send_message ops c offer a) (\<lambda>_ a.
             and_then (async_read_acceptance ops a) (\<lambda>_ a.
             and_then (async_io (write_all ops [1]) a) (\<lambda>_ a.
             and_then (async_io (flush ops) a) (\<lambda>_ a.
             let a = a\<lparr>as_agreement := agreement\<rparr> in (Ok a, a))))))))"

definition async_refuse :: "'s stream_ops \<Rightarrow> 'u hello codec \<Rightarrow> 's \<Rightarrow> 'u hello \<Rightarrow> refused \<Rightarrow> (wire_error + unit) \<times> 's" where
  "async_refuse ops c s offer reason =
    and_then (async_offered ops c s) (\<lambda>(a, remote) _. async_leaving (
    case refused_frame reason offer remote of
      Some refusal \<Rightarrow> async_send_message ops c refusal a
    | None \<Rightarrow> (Ok (), a)))"

definition async_check :: "'s async_session \<Rightarrow> 'u control_msg \<Rightarrow> wire_error + unit" where
  "async_check a message =
    (case required_capability message of
       Inl e \<Rightarrow> Err e
     | Inr capability \<Rightarrow>
         if and capability (agreement_capabilities (as_agreement a)) = 0
         then Err (invalid ''operation capability was not negotiated'')
         else Ok ())"

definition async_send :: "'s stream_ops \<Rightarrow> 'u control_msg codec \<Rightarrow> 'u control_msg \<Rightarrow> 's async_session \<Rightarrow> (wire_error + unit) \<times> 's async_session" where
  "async_send ops c message a =
    (case async_check a message of
       Inl e \<Rightarrow> (Err e, a)
     | Inr _ \<Rightarrow> async_send_message ops c message a)"

definition async_receive :: "'s stream_ops \<Rightarrow> 'u control_msg codec \<Rightarrow> 's async_session \<Rightarrow> (wire_error + 'u control_msg) \<times> 's async_session" where
  "async_receive ops c a =
    and_then (async_receive_message ops c a) (\<lambda>message a.
    case async_check a message of
      Inl error \<Rightarrow> (Err error, a\<lparr>as_failed := True\<rparr>)
    | Inr _ \<Rightarrow> (Ok message, a))"

text \<open>\<^verbatim>\<open>rd\<close> is the stream's \<^verbatim>\<open>read\<close>.\<close>

definition subscription_closed :: "'s reader \<Rightarrow> 's async_session \<Rightarrow> (wire_error + unit) \<times> 's async_session" where
  "subscription_closed rd a =
    (case async_usable a of
       Inl e \<Rightarrow> (Err e, a)
     | Inr _ \<Rightarrow>
         (let (result, s) = rd 1 (as_io a); a = a\<lparr>as_io := s, as_failed := True\<rparr> in
          case result of
            Inl e \<Rightarrow> (Err (Io e), a)
          | Inr bytes \<Rightarrow> if length bytes = 0 then (Ok (), a) else (Err (invalid ''request after WATCH''), a)))"

section \<open>Refinement\<close>

definition frames_of :: "'s async_session \<Rightarrow> 's framed" where
  "frames_of a = \<lparr>framed_io = as_io a, framed_limit = agreement_max_frame (as_agreement a), framed_failed = as_failed a\<rparr>"

definition session_of :: "'s async_session \<Rightarrow> 's session" where
  "session_of a = \<lparr>session_frames = frames_of a, session_agreement = as_agreement a\<rparr>"

lemma frames_of_simps [simp]:
  "framed_io (frames_of a) = as_io a" "framed_limit (frames_of a) = agreement_max_frame (as_agreement a)"
  "framed_failed (frames_of a) = as_failed a" "(frames_of a)\<lparr>framed_failed := b\<rparr> = frames_of (a\<lparr>as_failed := b\<rparr>)"
  "(frames_of a)\<lparr>framed_io := s\<rparr> = frames_of (a\<lparr>as_io := s\<rparr>)"
  "(frames_of a)\<lparr>framed_limit := agreement_max_frame ag\<rparr> = frames_of (a\<lparr>as_agreement := ag\<rparr>)"
  by (simp_all add: frames_of_def)

text \<open>A computation on asynchronous sessions that does the same to the frames.\<close>

definition same :: "('e + 'a) \<times> 's async_session \<Rightarrow> ('e + 'a) \<times> 's framed \<Rightarrow> bool" where
  "same x y \<longleftrightarrow> y = (fst x, frames_of (snd x))"

lemma same_step:
  "same x y \<Longrightarrow> (\<And>v a. same (k v a) (l v (frames_of a))) \<Longrightarrow> same (and_then x k) (and_then y l)"
  by (auto simp: same_def and_then_def split: prod.splits sum.splits)

lemma same_io: "same (async_io f a) (on_io f (frames_of a))"
  by (auto simp: same_def async_io_def on_io_def split: prod.splits)

lemma same_pure: "same (x, a) (x, frames_of a)"
  by (simp add: same_def)

lemma usable_same: "framed_usable (frames_of a) = async_usable a"
  by (simp add: framed_usable_def async_usable_def)

lemma same_send: "same (async_send_message ops c m a) (framed_send ops c m (frames_of a))"
  by (auto simp: async_send_message_def framed_send_def usable_same same_pure split: sum.split intro!: same_step same_io)

lemma read_u32_le_then:
  "and_then (async_io (read_u32_le ops) a) k = and_then (async_io (read_exact ops 4) a) (\<lambda>header. k (from_le_bytes header))"
  by (auto simp: and_then_def async_io_def io_def read_u32_le_def split: prod.splits sum.splits)

lemma same_receive: "same (async_receive_message ops c a) (framed_receive ops c (frames_of a))"
  unfolding async_receive_message_def framed_receive_def read_u32_le_then usable_same frames_of_simps Let_def
  by (auto simp: same_pure split: sum.split intro!: same_step same_io)

lemma same_acceptance:
  assumes "exact ops"
  shows "same (async_read_acceptance ops a) (read_acceptance ops (frames_of a))"
proof -
  obtain r s where read: "read_exact ops 1 (as_io a) = (r, s)" by (metis surj_pair)
  have one: "hd bytes = 1 \<longleftrightarrow> bytes = [1]" if "r = Inr bytes" for bytes
    using assms read that by (cases bytes) (auto simp: exact_def dest!: spec[of _ 1] spec[of _ "as_io a"])
  show ?thesis
    using read one
    by (cases r) (simp_all add: same_def async_read_acceptance_def read_acceptance_def and_then_def async_io_def on_io_def io_def read_u8_def)
qed

definition established_of :: "(wire_error + 's async_session) \<times> 's \<Rightarrow> (wire_error + 's session) \<times> 's" where
  "established_of x = (map_sum id session_of (fst x), snd x)"

text \<open>The same, of computations that return the session itself.\<close>

definition same_session :: "(wire_error + 's async_session) \<times> 's async_session \<Rightarrow> (wire_error + 's session) \<times> 's framed \<Rightarrow> bool" where
  "same_session x y \<longleftrightarrow> y = (map_sum id session_of (fst x), frames_of (snd x))"

lemma same_session_step:
  "same x y \<Longrightarrow> (\<And>v a. same_session (k v a) (l v (frames_of a))) \<Longrightarrow> same_session (and_then x k) (and_then y l)"
  by (auto simp: same_def same_session_def and_then_def split: prod.splits sum.splits)

lemma same_session_error: "same_session (Err e, a) (Err e, frames_of a)"
  by (simp add: same_session_def)

lemma same_session_done:
  "same_session (let a = a\<lparr>as_agreement := ag\<rparr> in (Ok a, a))
    (let f = (frames_of a)\<lparr>framed_limit := agreement_max_frame ag\<rparr> in (Ok \<lparr>session_frames = f, session_agreement = ag\<rparr>, f))"
  by (simp add: same_session_def session_of_def Let_def)

lemma same_session_leaving: "same_session x y \<Longrightarrow> leaving y = established_of (async_leaving x)"
  by (simp add: same_session_def leaving_def established_of_def async_leaving_def)

lemma unestablished_frames: "framed_new s HELLO_LIMIT = Inr (frames_of (unestablished s))"
  by (simp add: frames_of_def unestablished_def)

lemma async_connect_refines:
  assumes "exact ops"
  shows "session_connect ops c s offer = established_of (async_connect ops c s offer)"
proof (cases "hello_validate offer")
  case (Inl e)
  then show ?thesis by (simp add: session_connect_def async_connect_def established_of_def)
next
  case (Inr u)
  obtain w s1 where w: "write_all ops MAGIC s = (w, s1)" by (metis surj_pair)
  show ?thesis
  proof (cases w)
    case (Inl e)
    with w Inr show ?thesis
      by (simp add: session_connect_def async_connect_def established_of_def and_then_def io_def async_io_def unestablished_def async_leaving_def)
  next
    case (Inr v)
    have start: "async_io (write_all ops MAGIC) (unestablished s) = (Ok v, unestablished s1)"
      using w Inr by (simp add: async_io_def io_def unestablished_def)
    show ?thesis
      unfolding session_connect_def async_connect_def start using w Inr \<open>hello_validate offer = Inr u\<close>
      by (simp add: and_then_def[of "(Ok _, _)"] io_def unestablished_frames del: framed_new_hello)
         (auto intro!: same_session_leaving same_session_step same_send same_receive same_io same_acceptance assms
           same_session_done same_session_error split: sum.split)
  qed
qed

lemma async_offered_refines:
  "session_offered ops c s = (case async_offered ops c s of
      (Inl e, s) \<Rightarrow> (Inl e, s) | (Inr (a, remote), s) \<Rightarrow> (Inr (frames_of a, remote), s))"
proof -
  obtain r s1 where h: "read_exact ops 8 s = (r, s1)" by (metis surj_pair)
  have start: "async_io (read_exact ops 8) (unestablished s) =
      (case r of Inl e \<Rightarrow> Err (Io e) | Inr m \<Rightarrow> Ok m, unestablished s1)"
    using h by (simp add: async_io_def io_def unestablished_def split: sum.split)
  have received: "framed_receive ops c (frames_of (unestablished s1)) =
      (fst (async_receive_message ops c (unestablished s1)), frames_of (snd (async_receive_message ops c (unestablished s1))))"
    using same_receive[of ops c "unestablished s1"] by (simp add: same_def)
  show ?thesis
    unfolding session_offered_def async_offered_def start h io_def
    by (cases r)
       (auto simp: and_then_def leaving_def async_leaving_def unestablished_frames received unestablished_def[of s1, THEN arg_cong[where f = as_io]]
         simp del: framed_new_hello split: sum.split prod.split)
qed

lemma async_accept_refines:
  assumes "exact ops"
  shows "session_accept ops c s offer = established_of (async_accept ops c s offer)"
proof (cases "hello_validate offer")
  case (Inl e)
  then show ?thesis by (simp add: session_accept_def async_accept_def established_of_def)
next
  case (Inr u)
  obtain r s1 where offered: "async_offered ops c s = (r, s1)" by (metis surj_pair)
  show ?thesis
  proof (cases r)
    case (Inl e)
    with offered Inr show ?thesis
      by (simp add: session_accept_def async_accept_def async_offered_refines established_of_def and_then_def)
  next
    case inr: (Inr x)
    obtain a remote where x: "x = (a, remote)" by (metis surj_pair)
    have refusing: "same_session (Err e, snd (async_send_message ops c m a)) (Err e, snd (framed_send ops c m (frames_of a)))" for e m
      using same_send[of ops c m a] by (simp add: same_def same_session_def)
    show ?thesis
      unfolding session_accept_def async_accept_def async_offered_refines offered inr x using Inr
      by (simp add: and_then_def[of "(Ok _, _)"])
         (auto intro!: same_session_leaving same_session_step same_send same_receive same_io same_acceptance assms
           same_session_done same_session_error refusing split: sum.split option.split)
  qed
qed

lemma async_refuse_refines: "session_refuse ops c s offer reason = async_refuse ops c s offer reason"
proof -
  have leaving: "same x y \<Longrightarrow> leaving y = async_leaving x" for x :: "(wire_error + unit) \<times> _" and y
    by (simp add: same_def leaving_def async_leaving_def)
  show ?thesis
    unfolding session_refuse_def async_refuse_def async_offered_refines
    by (auto simp: and_then_def split: sum.split prod.split option.split intro!: leaving same_send same_pure)
qed

lemma async_check_refines: "session_check (session_of a) m = async_check a m"
  by (simp add: session_check_def async_check_def session_of_def split: sum.split)

lemma async_io_agreement: "async_io f a = (r, a') \<Longrightarrow> as_agreement a' = as_agreement a"
  by (auto simp: async_io_def split: prod.splits)

lemma async_messages_agreement:
  "async_send_message ops c m a = (r, a') \<Longrightarrow> as_agreement a' = as_agreement a"
  "async_receive_message ops d a = (q, a') \<Longrightarrow> as_agreement a' = as_agreement a"
  by (auto simp: async_send_message_def async_receive_message_def split: sum.splits if_splits elim!: and_thenE dest!: async_io_agreement)

lemma session_of_frames: "as_agreement a' = as_agreement a \<Longrightarrow> (session_of a)\<lparr>session_frames := frames_of a'\<rparr> = session_of a'"
  by (simp add: session_of_def)

lemma async_send_refines:
  "session_send ops c m (session_of a) = (case async_send ops c m a of (r, a) \<Rightarrow> (r, session_of a))"
proof -
  obtain r a' where send: "async_send_message ops c m a = (r, a')" by (metis surj_pair)
  have "framed_send ops c m (frames_of a) = (r, frames_of a')"
    using same_send[of ops c m a] send by (simp add: same_def)
  then show ?thesis
    using send session_of_frames[OF async_messages_agreement(1)[OF send]]
    by (simp add: session_send_def async_send_def async_check_refines session_of_def[of a, THEN arg_cong[where f = session_frames]] split: sum.split)
qed

lemma async_receive_refines:
  "session_receive ops c (session_of a) = (case async_receive ops c a of (r, a) \<Rightarrow> (r, session_of a))"
proof -
  obtain r a' where receive: "async_receive_message ops c a = (r, a')" by (metis surj_pair)
  have "framed_receive ops c (frames_of a) = (r, frames_of a')"
    using same_receive[of ops c a] receive by (simp add: same_def)
  moreover have "(session_of a')\<lparr>session_frames := session_frames (session_of a')\<lparr>framed_failed := True\<rparr>\<rparr> = session_of (a'\<lparr>as_failed := True\<rparr>)"
    by (simp add: session_of_def)
  ultimately show ?thesis
    using receive session_of_frames[OF async_messages_agreement(2)[OF receive]]
    by (simp add: session_receive_def async_receive_def async_check_refines and_then_def Let_def
        session_of_def[of a, THEN arg_cong[where f = session_frames]] split: sum.split)
qed

section \<open>Properties\<close>

text \<open>C19: The asynchronous sessions behave exactly like the blocking ones. Over the same stream,
  establishing, accepting or refusing a session has the same result and leaves the same stream;
  sending and receiving on an established one have the same result and leave the same session.\<close>

theorem async_sessions_refine:
  assumes "exact ops"
  shows "session_connect ops c s offer = established_of (async_connect ops c s offer)
    \<and> session_accept ops c s offer = established_of (async_accept ops c s offer)
    \<and> session_refuse ops c s offer reason = async_refuse ops c s offer reason
    \<and> session_send ops d m (session_of a) = (case async_send ops d m a of (r, a) \<Rightarrow> (r, session_of a))
    \<and> session_receive ops d (session_of a) = (case async_receive ops d a of (r, a) \<Rightarrow> (r, session_of a))"
  using async_connect_refines[OF assms] async_accept_refines[OF assms] async_refuse_refines async_send_refines async_receive_refines
  by (intro conjI)

theorem async_sessions_refine_witness:
  "exact tape_ops \<and>
   session_connect tape_ops leb_hello (heard []) (example_offer 3 1) = established_of (async_connect tape_ops leb_hello (heard []) (example_offer 3 1))"
  using async_sessions_refine[OF exact_tape, of leb_hello "heard []" "example_offer 3 1"] exact_tape by blast

end
