(* ===== verification/Command_Line.thy ===== *)
theory Command_Line
  imports Rust_Prelude "HOL-Library.List_Lexorder"
begin

text \<open>
  The command line and the environment block a Windows process is created with:
  \<^verbatim>\<open>local/command_line.rs\<close>, pure functions over UTF-16 units. How the C runtime and the loader take a
  command line apart, and how a process reads its environment block, are reference definitions;
  what is built is shown to come apart as it was put together.
\<close>

type_synonym units = "u16 list"

section \<open>Building\<close>

definition QUOTE :: u16 where "QUOTE = 0x22"
definition BACKSLASH :: u16 where "BACKSLASH = 0x5C"
definition EQUALS :: u16 where "EQUALS = 0x3D"
definition SPACE :: u16 where "SPACE = 0x20"
definition TAB :: u16 where "TAB = 0x09"

lemmas unit_defs = QUOTE_def BACKSLASH_def EQUALS_def SPACE_def TAB_def

definition invalid_input :: "string \<Rightarrow> io_error" where
  "invalid_input message = io_error_new ErrorKind_InvalidInput message"

definition needs_quotes :: "units \<Rightarrow> bool" where
  "needs_quotes arg \<longleftrightarrow> arg = [] \<or> list_ex (\<lambda>u. u \<in> {0x20, 0x09, 0x0A, 0x0B} \<or> u = QUOTE) arg"

text \<open>One round of the loop that quotes an argument: the line so far and the run of backslashes not yet written.\<close>

definition quote_unit :: "units \<times> nat \<Rightarrow> u16 \<Rightarrow> units \<times> nat" where
  "quote_unit s u = (case s of (line, backslashes) \<Rightarrow>
    if u = BACKSLASH then (line, backslashes + 1)
    else if u = QUOTE then (line @ replicate (backslashes * 2 + 1) BACKSLASH @ [u], 0)
    else (line @ replicate backslashes BACKSLASH @ [u], 0))"

definition append_argument :: "units \<Rightarrow> units \<Rightarrow> units" where
  "append_argument line arg =
    (if \<not> needs_quotes arg then line @ arg
     else case foldl quote_unit (line @ [QUOTE], 0) arg of (line, backslashes) \<Rightarrow>
       line @ replicate (backslashes * 2) BACKSLASH @ [QUOTE])"

definition command_line :: "units \<Rightarrow> units list \<Rightarrow> io_error + units" where
  "command_line program args =
    (if program = [] \<or> QUOTE \<in> set program then Err (invalid_input ''the program path is empty or contains a quote'')
     else if 0 \<in> set program \<or> list_ex (\<lambda>arg. 0 \<in> set arg) args
     then Err (invalid_input ''a command line cannot contain a NUL'')
     else Ok (foldl (\<lambda>line arg. append_argument (line @ [SPACE]) arg) ([QUOTE] @ program @ [QUOTE]) args))"

datatype env_change = EnvChange_Set units units | EnvChange_Remove units

fun env_change_name :: "env_change \<Rightarrow> units" where
  "env_change_name (EnvChange_Set name _) = name"
| "env_change_name (EnvChange_Remove name) = name"

definition folded :: "units \<Rightarrow> units" where
  "folded name = map (\<lambda>u. if 0x61 \<le> u \<and> u \<le> 0x7A then u - 0x20 else u) name"

definition same_name :: "units \<Rightarrow> units \<Rightarrow> bool" where
  "same_name a b \<longleftrightarrow> length a = length b \<and> folded a = folded b"

definition bad_name :: "units \<Rightarrow> bool" where
  "bad_name name \<longleftrightarrow> name = [] \<or> EQUALS \<in> set (tl name) \<or> 0 \<in> set name"

fun apply_changes :: "(units \<times> units) list \<Rightarrow> env_change list \<Rightarrow> io_error + (units \<times> units) list" where
  "apply_changes vars [] = Ok vars"
| "apply_changes vars (change # changes) =
    (let name = env_change_name change in
     if bad_name name then Err (invalid_input ''an environment name is empty or contains '=' or NUL'')
     else
       let vars = filter (\<lambda>(existing, _). \<not> same_name existing name) vars in
       case change of
         EnvChange_Set name value \<Rightarrow>
           if 0 \<in> set value then Err (invalid_input ''an environment value contains NUL'')
           else apply_changes (vars @ [(name, value)]) changes
       | EnvChange_Remove _ \<Rightarrow> apply_changes vars changes)"

definition environment_block :: "(units \<times> units) list \<Rightarrow> env_change list \<Rightarrow> io_error + units" where
  "environment_block inherited changes =
    (case apply_changes inherited changes of
       Inl e \<Rightarrow> Err e
     | Inr vars \<Rightarrow>
         let vars = sort_key (folded \<circ> fst) vars;
             block = concat (map (\<lambda>(name, value). name @ [EQUALS] @ value @ [0]) vars);
             block = (if block = [] then [0] else block) in
         Ok (block @ [0]))"

section \<open>Taking a command line apart\<close>

text \<open>
  The two rules for a doubled quote within quotes: the older runtime keeps the quotes open, the
  newer one ends them.
\<close>

datatype doubled_quote = StaysQuoted | EndsQuote

fun program_word :: "bool \<Rightarrow> units \<Rightarrow> units \<times> units" where
  "program_word quoted [] = ([], [])"
| "program_word quoted (u # us) =
    (if \<not> quoted \<and> (u = SPACE \<or> u = TAB) then ([], u # us)
     else if u = QUOTE then program_word (\<not> quoted) us
     else case program_word quoted us of (word, rest) \<Rightarrow> (u # word, rest))"

fun argument_word :: "doubled_quote \<Rightarrow> bool \<Rightarrow> nat \<Rightarrow> units \<Rightarrow> units \<times> units" where
  "argument_word d quoted n [] = (replicate n BACKSLASH, [])"
| "argument_word d quoted n (u # us) =
    (if u = BACKSLASH then argument_word d quoted (n + 1) us
     else if u = QUOTE then
       if odd n then (case argument_word d quoted 0 us of (word, rest) \<Rightarrow> (replicate (n div 2) BACKSLASH @ QUOTE # word, rest))
       else if quoted \<and> us \<noteq> [] \<and> hd us = QUOTE
       then (case argument_word d (d = StaysQuoted) 0 (tl us) of (word, rest) \<Rightarrow> (replicate (n div 2) BACKSLASH @ QUOTE # word, rest))
       else (case argument_word d (\<not> quoted) 0 us of (word, rest) \<Rightarrow> (replicate (n div 2) BACKSLASH @ word, rest))
     else if \<not> quoted \<and> (u = SPACE \<or> u = TAB) then (replicate n BACKSLASH, u # us)
     else case argument_word d quoted 0 us of (word, rest) \<Rightarrow> (replicate n BACKSLASH @ u # word, rest))"

text \<open>The number of units bounds the number of words.\<close>

fun argument_words :: "nat \<Rightarrow> doubled_quote \<Rightarrow> units \<Rightarrow> units list" where
  "argument_words 0 d us = []"
| "argument_words (Suc fuel) d us =
    (let us = dropWhile (\<lambda>u. u = SPACE \<or> u = TAB) us in
     if us = [] then []
     else case argument_word d False 0 us of (word, rest) \<Rightarrow> word # argument_words fuel d rest)"

definition split_line :: "doubled_quote \<Rightarrow> units \<Rightarrow> units list" where
  "split_line d line = (case program_word False line of (program, rest) \<Rightarrow> program # argument_words (length rest) d rest)"

section \<open>Reading an environment block\<close>

definition entry_of :: "units \<Rightarrow> units \<times> units" where
  "entry_of e = (let at = 1 + length (takeWhile (\<lambda>u. u \<noteq> EQUALS) (tl e)) in (take at e, drop (at + 1) e))"

function entries :: "units \<Rightarrow> (units \<times> units) list" where
  "entries block =
    (if block = [] \<or> hd block = 0 then []
     else let e = takeWhile (\<lambda>u. u \<noteq> 0) block in entry_of e # entries (drop (length e + 1) block))"
  by auto
termination by (relation "measure length") auto

declare entries.simps [simp del]

section \<open>Arguments come back\<close>

fun quoted_form :: "nat \<Rightarrow> units \<Rightarrow> units" where
  "quoted_form n [] = replicate (n * 2) BACKSLASH @ [QUOTE]"
| "quoted_form n (u # us) =
    (if u = BACKSLASH then quoted_form (n + 1) us
     else if u = QUOTE then replicate (n * 2 + 1) BACKSLASH @ QUOTE # quoted_form 0 us
     else replicate n BACKSLASH @ u # quoted_form 0 us)"

lemma foldl_quote_unit:
  "(case foldl quote_unit (line, n) arg of (line, n) \<Rightarrow> line @ replicate (n * 2) BACKSLASH @ [QUOTE]) = line @ quoted_form n arg"
  by (induction arg arbitrary: line n) (auto simp: quote_unit_def)

lemma append_argument_alt:
  "append_argument line arg = line @ (if needs_quotes arg then QUOTE # quoted_form 0 arg else arg)"
  using foldl_quote_unit[of "line @ [QUOTE]" 0 arg] by (simp add: append_argument_def)

lemma units_distinct [simp]:
  "BACKSLASH \<noteq> QUOTE" "QUOTE \<noteq> BACKSLASH" "SPACE \<noteq> QUOTE" "QUOTE \<noteq> SPACE" "SPACE \<noteq> BACKSLASH" "BACKSLASH \<noteq> SPACE"
  "TAB \<noteq> QUOTE" "QUOTE \<noteq> TAB" "TAB \<noteq> BACKSLASH" "BACKSLASH \<noteq> TAB" "QUOTE \<noteq> 0" "BACKSLASH \<noteq> 0" "SPACE \<noteq> 0" "EQUALS \<noteq> 0"
  "0 \<noteq> EQUALS"
  by (simp_all add: unit_defs)

lemma argument_word_backslashes:
  "argument_word d quoted n (replicate k BACKSLASH @ us) = argument_word d quoted (n + k) us"
  by (induction k arbitrary: n) simp_all

text \<open>What may follow an argument on a line.\<close>

definition ends_word :: "units \<Rightarrow> bool" where
  "ends_word rest \<longleftrightarrow> rest = [] \<or> hd rest = SPACE"

lemma argument_word_quoted:
  "ends_word rest \<Longrightarrow> argument_word d True 0 (quoted_form n arg @ rest) = (replicate n BACKSLASH @ arg, rest)"
proof (induction arg arbitrary: n)
  case Nil
  then show ?case
    by (cases rest) (auto simp: argument_word_backslashes ends_word_def)
next
  case (Cons u us)
  from Cons.IH[OF Cons.prems, of 0] Cons.IH[OF Cons.prems, of "n + 1"] show ?case
    by (auto simp: argument_word_backslashes replicate_append_same)
qed

lemma argument_word_plain:
  "ends_word rest \<Longrightarrow> list_all (\<lambda>u. u \<noteq> QUOTE \<and> u \<noteq> SPACE \<and> u \<noteq> TAB) arg \<Longrightarrow>
    argument_word d False n (arg @ rest) = (replicate n BACKSLASH @ arg, rest)"
proof (induction arg arbitrary: n)
  case Nil
  then show ?case by (cases rest) (auto simp: ends_word_def)
next
  case (Cons u us)
  from Cons.IH[of 0] Cons.IH[of "n + 1"] Cons.prems show ?case
    by (auto simp: replicate_append_same)
qed

lemma argument_word_appended:
  assumes "ends_word rest"
  shows "argument_word d False 0 (append_argument [] arg @ rest) = (arg, rest)"
proof (cases "needs_quotes arg")
  case True
  then show ?thesis using argument_word_quoted[OF assms, of d 0 arg] by (simp add: append_argument_alt)
next
  case False
  then have "list_all (\<lambda>u. u \<noteq> QUOTE \<and> u \<noteq> SPACE \<and> u \<noteq> TAB) arg"
    by (auto simp: needs_quotes_def list_all_iff list_ex_iff SPACE_def TAB_def)
  with argument_word_plain[OF assms, of arg d 0] False show ?thesis by (simp add: append_argument_alt)
qed

definition arguments :: "units list \<Rightarrow> units" where
  "arguments args = concat (map (\<lambda>arg. SPACE # append_argument [] arg) args)"

lemma foldl_arguments: "foldl (\<lambda>line arg. append_argument (line @ [SPACE]) arg) line args = line @ arguments args"
  by (induction args arbitrary: line) (simp_all add: arguments_def append_argument_alt)

lemma append_argument_start: "append_argument [] arg \<noteq> []" "hd (append_argument [] arg) \<noteq> SPACE" "hd (append_argument [] arg) \<noteq> TAB"
  by (cases arg; auto simp: append_argument_alt needs_quotes_def SPACE_def TAB_def QUOTE_def)+

lemma ends_word_arguments: "ends_word (arguments args)"
  by (cases args) (simp_all add: ends_word_def arguments_def)

lemma argument_words_arguments:
  "length args \<le> fuel \<Longrightarrow> argument_words fuel d (arguments args) = args"
proof (induction args arbitrary: fuel)
  case Nil
  then show ?case by (cases fuel) (simp_all add: arguments_def)
next
  case (Cons arg args)
  then obtain fuel' where fuel: "fuel = Suc fuel'" "length args \<le> fuel'" by (cases fuel) auto
  have split: "arguments (arg # args) = SPACE # append_argument [] arg @ arguments args" by (simp add: arguments_def)
  have "dropWhile (\<lambda>u. u = SPACE \<or> u = TAB) (append_argument [] arg @ x) = append_argument [] arg @ x" for x
    using append_argument_start[of arg] by (cases "append_argument [] arg") auto
  then show ?case
    using append_argument_start(1)[of arg] Cons.IH[OF fuel(2)] argument_word_appended[OF ends_word_arguments, of d arg args]
    by (simp add: fuel(1) split)
qed

lemma length_arguments: "length args \<le> length (arguments args)"
  by (induction args) (auto simp: arguments_def)

lemma program_word_quoted:
  "QUOTE \<notin> set program \<Longrightarrow> ends_word rest \<Longrightarrow> program_word True (program @ QUOTE # rest) = (program, rest)"
  by (induction program) (cases rest; auto simp: ends_word_def)+

text \<open>C22: A command line comes apart into the program and the arguments it was built from, under
  both rules for doubled quotes, and contains no NUL. It is refused exactly when the program is
  empty or has a quote, or something has a NUL.\<close>

theorem command_line_round_trip:
  "case command_line program args of
     Inr line \<Rightarrow> split_line d line = program # args \<and> 0 \<notin> set line
   | Inl e \<Rightarrow> io_kind e = ErrorKind_InvalidInput \<and>
       (program = [] \<or> QUOTE \<in> set program \<or> 0 \<in> set program \<or> (\<exists>arg \<in> set args. 0 \<in> set arg))"
proof (cases "command_line program args")
  case (Inl e)
  then show ?thesis
    by (auto simp: command_line_def invalid_input_def io_error_new_def list_ex_iff split: if_splits)
next
  case (Inr line)
  then have line: "line = QUOTE # program @ QUOTE # arguments args" "QUOTE \<notin> set program" "0 \<notin> set program"
      "\<forall>arg \<in> set args. 0 \<notin> set arg"
    by (auto simp: command_line_def foldl_arguments list_ex_iff split: if_splits)
  have "0 \<notin> set (quoted_form n arg)" if "0 \<notin> set arg" for n arg
    using that by (induction arg arbitrary: n) auto
  with line(4) have "0 \<notin> set (arguments args)" by (auto simp: arguments_def append_argument_alt split: if_splits)
  moreover have "split_line d line = program # args"
    using program_word_quoted[OF line(2) ends_word_arguments, of args] argument_words_arguments[OF length_arguments, where d = d]
    by (simp add: split_line_def line(1))
  ultimately show ?thesis using Inr line by simp
qed

section \<open>Environment blocks come back\<close>

definition good_var :: "units \<times> units \<Rightarrow> bool" where
  "good_var v \<longleftrightarrow> \<not> bad_name (fst v) \<and> 0 \<notin> set (snd v)"

lemma entry_of_joined: "\<not> bad_name name \<Longrightarrow> entry_of (name @ [EQUALS] @ value) = (name, value)"
proof -
  assume "\<not> bad_name name"
  then obtain u rest where name: "name = u # rest" "EQUALS \<notin> set rest" by (cases name) (auto simp: bad_name_def)
  then have "takeWhile (\<lambda>u. u \<noteq> EQUALS) (rest @ EQUALS # value) = rest" by (subst takeWhile_append2) auto
  with name show ?thesis by (simp add: entry_of_def)
qed

definition joined :: "(units \<times> units) list \<Rightarrow> units" where
  "joined vars = concat (map (\<lambda>(name, value). name @ [EQUALS] @ value @ [0]) vars)"

lemma entries_joined: "list_all good_var vars \<Longrightarrow> entries (joined vars @ 0 # rest) = vars"
proof (induction vars)
  case Nil
  then show ?case by (subst entries.simps) (simp add: joined_def)
next
  case (Cons v vars)
  obtain name "value" where v: "v = (name, value)" by (cases v)
  let ?e = "name @ [EQUALS] @ value"
  have good: "\<not> bad_name name" "0 \<notin> set ?e" "?e \<noteq> []" "hd ?e \<noteq> 0"
    using Cons.prems v by (cases name; auto simp: good_var_def bad_name_def)+
  have block: "joined (v # vars) @ 0 # rest = ?e @ 0 # joined vars @ 0 # rest" by (simp add: joined_def v)
  have "takeWhile (\<lambda>u. u \<noteq> 0) (?e @ 0 # joined vars @ 0 # rest) = ?e"
    using good(2) by (subst takeWhile_append2) auto
  moreover have "hd (?e @ 0 # joined vars @ 0 # rest) \<noteq> 0" using good(3,4) by (metis hd_append2)
  ultimately show ?case
    using Cons good(1) unfolding block by (subst entries.simps) (simp add: Let_def v entry_of_joined[simplified])
qed

lemma joined_empty: "joined vars = [] \<longleftrightarrow> vars = []"
  by (cases vars) (auto simp: joined_def split: prod.splits)

lemma environment_block_alt:
  "environment_block inherited changes = (case apply_changes inherited changes of
     Inl e \<Rightarrow> Err e
   | Inr vars \<Rightarrow> Ok ((if vars = [] then [0] else joined (sort_key (folded \<circ> fst) vars)) @ [0]))"
proof -
  have "sort_key (folded \<circ> fst) vars = [] \<longleftrightarrow> vars = []" for vars :: "(units \<times> units) list"
    by (metis length_0_conv length_sort)
  then show ?thesis
    using joined_empty by (auto simp: environment_block_def joined_def Let_def split: sum.splits)
qed

lemma apply_changes_good:
  "apply_changes vars changes = Inr vars' \<Longrightarrow> list_all good_var vars \<Longrightarrow> list_all good_var vars'"
proof (induction vars changes rule: apply_changes.induct)
  case (2 vars change changes)
  have kept: "list_all good_var (filter P vars)" for P using 2(4) by (auto simp: list_all_iff)
  have pushed: "good_var (name, value)" if "\<not> bad_name name" "0 \<notin> set value" for name "value"
    using that by (simp add: good_var_def)
  from 2 kept pushed show ?case
    by (auto simp: Let_def split: if_splits env_change.splits)
qed simp

lemma same_name_folded: "same_name a b \<longleftrightarrow> folded a = folded b"
  by (auto simp: same_name_def folded_def dest: map_eq_imp_length_eq)

text \<open>What an environment means: a value for each name up to the case of letters.\<close>

definition meaning :: "(units \<times> units) list \<Rightarrow> units \<Rightarrow> units option" where
  "meaning vars = map_of (map (\<lambda>(name, value). (folded name, value)) vars)"

fun changed :: "env_change \<Rightarrow> (units \<Rightarrow> units option) \<Rightarrow> units \<Rightarrow> units option" where
  "changed (EnvChange_Set name value) m = m(folded name \<mapsto> value)"
| "changed (EnvChange_Remove name) m = m(folded name := None)"

definition unique_names :: "(units \<times> units) list \<Rightarrow> bool" where
  "unique_names vars \<longleftrightarrow> distinct (map (folded \<circ> fst) vars)"

lemma meaning_Cons: "meaning ((n, v) # vars) = (meaning vars)(folded n \<mapsto> v)"
  by (simp add: meaning_def)

lemma meaning_filter:
  "meaning (filter (\<lambda>(existing, _). \<not> same_name existing name) vars) = (meaning vars)(folded name := None)"
  by (induction vars) (auto simp: meaning_def same_name_folded fun_eq_iff)

lemma meaning_snoc:
  "folded n \<notin> (folded \<circ> fst) ` set vars \<Longrightarrow> meaning (vars @ [(n, v)]) = (meaning vars)(folded n \<mapsto> v)"
  by (induction vars) (auto simp: meaning_def fun_eq_iff)

lemma apply_changes_meaning:
  "apply_changes vars changes = Inr vars' \<Longrightarrow> unique_names vars \<Longrightarrow>
    meaning vars' = fold changed changes (meaning vars) \<and> unique_names vars'"
proof (induction vars changes rule: apply_changes.induct)
  case (2 vars change changes)
  let ?vars = "filter (\<lambda>(existing, _). \<not> same_name existing (env_change_name change)) vars"
  have kept: "unique_names ?vars" "folded (env_change_name change) \<notin> (folded \<circ> fst) ` set ?vars"
    using 2(4) by (auto simp: unique_names_def same_name_folded distinct_map_filter)
  show ?case
  proof (cases change)
    case (EnvChange_Set name "value")
    then have "folded name \<notin> (folded \<circ> fst) ` set ?vars" "env_change_name change = name" using kept(2) by simp_all
    then have "meaning (?vars @ [(name, value)]) = (meaning vars)(folded name \<mapsto> value)"
      by (subst meaning_snoc) (simp_all add: meaning_filter)
    moreover have "unique_names (?vars @ [(name, value)])"
      using kept EnvChange_Set by (simp add: unique_names_def)
    ultimately have pushed: "meaning (?vars @ [(name, value)]) = (meaning vars)(folded name \<mapsto> value)" "unique_names (?vars @ [(name, value)])"
      by simp_all
    have good: "\<not> bad_name (env_change_name change)" "0 \<notin> set value" "apply_changes (?vars @ [(name, value)]) changes = Inr vars'"
      using 2(3) EnvChange_Set by (simp_all add: Let_def split: if_splits)
    from 2(1)[OF refl good(1) refl EnvChange_Set good(2,3) pushed(2)] show ?thesis
      unfolding pushed(1) by (simp only: EnvChange_Set fold_simps changed.simps)
  next
    case (EnvChange_Remove name)
    have good: "\<not> bad_name (env_change_name change)" "apply_changes ?vars changes = Inr vars'"
      using 2(3) EnvChange_Remove by (simp_all add: Let_def split: if_splits)
    from 2(2)[OF refl good(1) refl EnvChange_Remove good(2) kept(1)] show ?thesis
      unfolding meaning_filter by (simp only: EnvChange_Remove fold_simps changed.simps env_change_name.simps)
  qed
qed simp

lemma meaning_sorted: "unique_names vars \<Longrightarrow> meaning (sort_key (folded \<circ> fst) vars) = meaning vars"
proof -
  assume unique: "unique_names vars"
  let ?f = "map (\<lambda>(name, value). (folded name, value))"
  have "distinct (map fst (?f vars))" "distinct (map fst (?f (sort_key (folded \<circ> fst) vars)))"
    using unique by (simp_all add: unique_names_def comp_def case_prod_beta distinct_map inj_on_def) 
  then show ?thesis unfolding meaning_def by (simp add: map_of_inject_set)
qed

lemma sorted_names: "sorted (map (folded \<circ> fst) (sort_key (folded \<circ> fst) vars))"
  by (rule sorted_sort_key)

lemma unique_sorted: "unique_names vars \<Longrightarrow> unique_names (sort_key (folded \<circ> fst) vars)"
  by (simp add: unique_names_def distinct_map)

text \<open>A process created with a block reads back exactly the environment asked for. From
  well-formed inherited variables with distinct names, the entries of the block are in the order of
  their names, one per name, and give each name the value the last change to it set, nothing if
  that removed it, and what was inherited otherwise, all up to the case of letters. The block is
  refused only for a change with a name or a value that cannot be written.\<close>

theorem environment_round_trip:
  assumes "list_all good_var inherited" "unique_names inherited"
  shows "case environment_block inherited changes of
      Inr block \<Rightarrow> meaning (entries block) = fold changed changes (meaning inherited) \<and>
        unique_names (entries block) \<and> sorted (map (folded \<circ> fst) (entries block))
    | Inl e \<Rightarrow> io_kind e = ErrorKind_InvalidInput \<and>
        (\<exists>change \<in> set changes. bad_name (env_change_name change) \<or> (\<exists>name value. change = EnvChange_Set name value \<and> 0 \<in> set value))"
proof (cases "apply_changes inherited changes")
  case (Inl e)
  then have "io_kind e = ErrorKind_InvalidInput \<and>
      (\<exists>change \<in> set changes. bad_name (env_change_name change) \<or> (\<exists>name value. change = EnvChange_Set name value \<and> 0 \<in> set value))"
    by (induction inherited changes rule: apply_changes.induct)
       (auto simp: Let_def invalid_input_def io_error_new_def split: if_splits env_change.splits)
  with Inl show ?thesis by (simp add: environment_block_alt)
next
  case (Inr vars)
  have entries: "entries ((if vars = [] then [0] else joined (sort_key (folded \<circ> fst) vars)) @ [0]) = sort_key (folded \<circ> fst) vars"
  proof (cases "vars = []")
    case True
    then show ?thesis by (subst entries.simps) simp
  next
    case False
    have "list_all good_var (sort_key (folded \<circ> fst) vars)"
      using apply_changes_good[OF Inr assms(1)] by (simp add: list_all_iff)
    from entries_joined[OF this, of "[]"] False show ?thesis by simp
  qed
  show ?thesis
    using apply_changes_meaning[OF Inr assms(2)] meaning_sorted[of vars] unique_sorted[of vars] sorted_names[of vars]
    by (simp add: environment_block_alt Inr entries)
qed

theorem environment_round_trip_witness:
  "list_all good_var [([0x50], [0x31])] \<and> unique_names [([0x50], [0x31])] \<and>
   (case environment_block [([0x50], [0x31])] [EnvChange_Set [0x70] [0x32]] of
      Inr block \<Rightarrow> meaning (entries block) [0x50] = Some [0x32] | Inl _ \<Rightarrow> False)"
proof (intro conjI)
  show vars: "list_all good_var [([0x50], [0x31])]" by code_simp
  show unique: "unique_names [([0x50], [0x31])]" by code_simp
  have "(case environment_block [([0x50], [0x31])] [EnvChange_Set [0x70] [0x32]] of Inr _ \<Rightarrow> True | Inl _ \<Rightarrow> False)"
    by code_simp
  with environment_round_trip[OF vars unique, of "[EnvChange_Set [0x70] [0x32]]"]
  show "case environment_block [([0x50], [0x31])] [EnvChange_Set [0x70] [0x32]] of
      Inr block \<Rightarrow> meaning (entries block) [0x50] = Some [0x32] | Inl _ \<Rightarrow> False"
    by (auto simp: folded_def split: sum.splits)
qed

theorem command_line_round_trip_witness:
  "split_line StaysQuoted (case command_line [0x61] [[0x20, 0x5C, 0x22], []] of Inr line \<Rightarrow> line | Inl _ \<Rightarrow> []) = [[0x61], [0x20, 0x5C, 0x22], []]"
proof -
  have "(case command_line [0x61] [[0x20, 0x5C, 0x22], []] of Inr _ \<Rightarrow> True | Inl _ \<Rightarrow> False)" by code_simp
  with command_line_round_trip[of "[0x61]" "[[0x20, 0x5C, 0x22], []]" StaysQuoted] show ?thesis by (auto split: sum.splits)
qed

end
