(* ===== verification/File_System.thy ===== *)
theory File_System
  imports Text
begin

text \<open>
  The part of a Unix file system the crate uses through \<^verbatim>\<open>std::fs\<close>, and the path operations it uses of
  \<^verbatim>\<open>std::path\<close>. Names refer to nodes, so that a handle keeps the node it opened when the name is
  replaced. Any operation may fail: what the coming operations run into is a schedule of faults, of
  which a write may have stored a first part. Every state is noted, for what another process could
  have read then.
\<close>

section \<open>Paths\<close>

text \<open>A path read from its end, without trailing separators and dots.\<close>

fun trim_end :: "string \<Rightarrow> string" where
  "trim_end (c # rest) =
    (if c = CHR ''/'' then (if rest = [] then [c] else trim_end rest)
     else if c = CHR ''.'' \<and> rest \<noteq> [] \<and> hd rest = CHR ''/'' then trim_end rest
     else c # rest)"
| "trim_end [] = []"

definition parent :: "path \<Rightarrow> path option" where
  "parent p = (let r = trim_end (rev p) in
    if r = [] \<or> r = ''/'' then None else Some (rev (trim_end (dropWhile (\<lambda>c. c \<noteq> CHR ''/'') r))))"

definition file_name :: "path \<Rightarrow> path option" where
  "file_name p = (let r = trim_end (rev p); name = rev (takeWhile (\<lambda>c. c \<noteq> CHR ''/'') r) in
    if name = [] \<or> name = ''.'' \<or> name = ''..'' then None else Some name)"

definition file_stem :: "path \<Rightarrow> path option" where
  "file_stem p = (case file_name p of
      None \<Rightarrow> None
    | Some name \<Rightarrow>
        let back = dropWhile (\<lambda>c. c \<noteq> CHR ''.'') (rev name) in
        Some (if back = [] \<or> tl back = [] then name else rev (tl back)))"

text \<open>The directory that holds a path's name; an empty parent is the current directory.\<close>

definition directory_of :: "path \<Rightarrow> path" where
  "directory_of p = (case parent p of Some dir \<Rightarrow> if dir = [] then ''.'' else dir | None \<Rightarrow> ''.'')"

section \<open>Nodes and names\<close>

datatype node_kind = Regular | Directory | Symlink | Fifo

record node =
  node_kind :: node_kind
  node_mode :: nat
  node_owner :: nat
  node_bytes :: "u8 list"
  node_synced :: bool

record disk =
  disk_names :: "(path \<times> nat) list"
  disk_nodes :: "nat \<Rightarrow> node"
  disk_fresh :: nat
  disk_faults :: "(io_error \<times> nat) option list"
  disk_unsynced :: "path list"
  disk_log :: "(path \<Rightarrow> node option) list"

text \<open>What a process that opens a name finds.\<close>

definition view :: "disk \<Rightarrow> path \<Rightarrow> node option" where
  "view d p = map_option (disk_nodes d) (map_of (disk_names d) p)"

definition noting :: "disk \<Rightarrow> disk" where
  "noting d = d\<lparr>disk_log := disk_log d @ [view d]\<rparr>"

definition next_fault :: "disk \<Rightarrow> (io_error \<times> nat) option \<times> disk" where
  "next_fault d = (case disk_faults d of [] \<Rightarrow> (None, d) | f # fs \<Rightarrow> (f, d\<lparr>disk_faults := fs\<rparr>))"

text \<open>An operation that takes effect at once or fails without effect.\<close>

definition attempt :: "(disk \<Rightarrow> (io_error + 'a) \<times> disk) \<Rightarrow> disk \<Rightarrow> (io_error + 'a) \<times> disk" where
  "attempt f d = (case next_fault d of
      (Some (e, _), d) \<Rightarrow> (Err e, noting d)
    | (None, d) \<Rightarrow> (let (r, d) = f d in (r, noting d)))"

definition plain_error :: "error_kind \<Rightarrow> io_error" where
  "plain_error kind = io_error_new kind []"

definition is_directory :: io_error where
  "is_directory = plain_error ErrorKind_Other"

text \<open>\<^verbatim>\<open>OpenOptions::create_new\<close>.\<close>

definition create_new :: "nat \<Rightarrow> nat \<Rightarrow> path \<Rightarrow> disk \<Rightarrow> (io_error + nat) \<times> disk" where
  "create_new owner mode p = attempt (\<lambda>d.
    if map_of (disk_names d) p \<noteq> None then (Err (plain_error ErrorKind_AlreadyExists), d)
    else let n = disk_fresh d in
      (Ok n, d\<lparr>disk_names := (p, n) # disk_names d, disk_fresh := n + 1,
        disk_nodes := (disk_nodes d)(n := \<lparr>node_kind = Regular, node_mode = mode, node_owner = owner, node_bytes = [], node_synced = False\<rparr>)\<rparr>))"

definition set_mode :: "nat \<Rightarrow> nat \<Rightarrow> disk \<Rightarrow> (io_error + unit) \<times> disk" where
  "set_mode n mode = attempt (\<lambda>d. (Ok (), d\<lparr>disk_nodes := (disk_nodes d)(n := (disk_nodes d n)\<lparr>node_mode := mode\<rparr>)\<rparr>))"

definition store :: "nat \<Rightarrow> u8 list \<Rightarrow> disk \<Rightarrow> disk" where
  "store n bytes d = d\<lparr>disk_nodes := (disk_nodes d)(n := (disk_nodes d n)\<lparr>node_bytes := node_bytes (disk_nodes d n) @ bytes, node_synced := False\<rparr>)\<rparr>"

definition file_write_all :: "nat \<Rightarrow> u8 list \<Rightarrow> disk \<Rightarrow> (io_error + unit) \<times> disk" where
  "file_write_all n bytes d = (case next_fault d of
      (Some (e, k), d) \<Rightarrow> (Err e, noting (store n (take k bytes) d))
    | (None, d) \<Rightarrow> (Ok (), noting (store n bytes d)))"

definition sync_all :: "nat \<Rightarrow> disk \<Rightarrow> (io_error + unit) \<times> disk" where
  "sync_all n = attempt (\<lambda>d. (Ok (), d\<lparr>disk_nodes := (disk_nodes d)(n := (disk_nodes d n)\<lparr>node_synced := True\<rparr>)\<rparr>))"

definition without :: "path \<Rightarrow> (path \<times> nat) list \<Rightarrow> (path \<times> nat) list" where
  "without p names = filter (\<lambda>(q, _). q \<noteq> p) names"

definition rename :: "path \<Rightarrow> path \<Rightarrow> disk \<Rightarrow> (io_error + unit) \<times> disk" where
  "rename from to = attempt (\<lambda>d. case map_of (disk_names d) from of
      None \<Rightarrow> (Err (plain_error ErrorKind_NotFound), d)
    | Some n \<Rightarrow>
        if map_option node_kind (view d to) = Some Directory then (Err is_directory, d)
        else (Ok (), d\<lparr>disk_names := (to, n) # without to (without from (disk_names d)),
        disk_unsynced := to # disk_unsynced d\<rparr>))"

definition open_directory :: "path \<Rightarrow> disk \<Rightarrow> (io_error + path) \<times> disk" where
  "open_directory dir = attempt (\<lambda>d. (Ok dir, d))"

definition sync_directory :: "path \<Rightarrow> disk \<Rightarrow> (io_error + unit) \<times> disk" where
  "sync_directory dir = attempt (\<lambda>d. (Ok (), d\<lparr>disk_unsynced := filter (\<lambda>p. directory_of p \<noteq> dir) (disk_unsynced d)\<rparr>))"

definition remove_file :: "path \<Rightarrow> disk \<Rightarrow> (io_error + unit) \<times> disk" where
  "remove_file p = attempt (\<lambda>d.
    if map_of (disk_names d) p = None then (Err (plain_error ErrorKind_NotFound), d)
    else (Ok (), d\<lparr>disk_names := without p (disk_names d)\<rparr>))"

text \<open>Opening for reading, following a link or refusing it with \<^verbatim>\<open>ELOOP\<close>.\<close>

definition ELOOP :: nat where "ELOOP = 40"

definition link_target :: "node \<Rightarrow> path" where
  "link_target n = map (\<lambda>b. char_of (unat b)) (node_bytes n)"

fun resolve :: "nat \<Rightarrow> disk \<Rightarrow> path \<Rightarrow> error_kind + nat" where
  "resolve 0 d p = Inl ErrorKind_Other"
| "resolve (Suc k) d p = (case map_of (disk_names d) p of
      None \<Rightarrow> Inl ErrorKind_NotFound
    | Some n \<Rightarrow> if node_kind (disk_nodes d n) = Symlink then resolve k d (link_target (disk_nodes d n)) else Inr n)"

definition too_many_links :: io_error where
  "too_many_links = \<lparr>io_kind = ErrorKind_Other, io_os = Some ELOOP, io_message = []\<rparr>"

definition open_read :: "bool \<Rightarrow> path \<Rightarrow> disk \<Rightarrow> (io_error + nat) \<times> disk" where
  "open_read nofollow p = attempt (\<lambda>d.
    (if nofollow then (case map_of (disk_names d) p of
        None \<Rightarrow> Err (plain_error ErrorKind_NotFound)
      | Some n \<Rightarrow> if node_kind (disk_nodes d n) = Symlink then Err too_many_links else Ok n)
     else (case resolve 40 d p of
        Inl ErrorKind_NotFound \<Rightarrow> Err (plain_error ErrorKind_NotFound)
      | Inl _ \<Rightarrow> Err too_many_links
      | Inr n \<Rightarrow> Ok n), d))"

definition file_metadata :: "nat \<Rightarrow> disk \<Rightarrow> (io_error + node) \<times> disk" where
  "file_metadata n = attempt (\<lambda>d. (Ok (disk_nodes d n), d))"

definition read_to_end :: "nat \<Rightarrow> nat \<Rightarrow> disk \<Rightarrow> (io_error + u8 list) \<times> disk" where
  "read_to_end limit n = attempt (\<lambda>d.
    (if node_kind (disk_nodes d n) = Directory then Err is_directory else Ok (take limit (node_bytes (disk_nodes d n))), d))"

definition read_whole :: "nat \<Rightarrow> disk \<Rightarrow> (io_error + u8 list) \<times> disk" where
  "read_whole n = attempt (\<lambda>d.
    (if node_kind (disk_nodes d n) = Directory then Err is_directory else Ok (node_bytes (disk_nodes d n)), d))"

text \<open>Directories themselves are implicit: a missing one is a fault of the operation that needs it.\<close>

definition entries_of :: "path \<Rightarrow> disk \<Rightarrow> path list" where
  "entries_of dir d = map fst (filter (\<lambda>(p, _). directory_of p = rev (trim_end (rev dir))) (disk_names d))"

definition read_dir :: "path \<Rightarrow> disk \<Rightarrow> (io_error + path list) \<times> disk" where
  "read_dir dir = attempt (\<lambda>d. (Ok (entries_of dir d), d))"

definition next_entry :: "path \<Rightarrow> disk \<Rightarrow> (io_error + path) \<times> disk" where
  "next_entry p = attempt (\<lambda>d. (Ok p, d))"

definition symlink_metadata :: "path \<Rightarrow> disk \<Rightarrow> (io_error + node) \<times> disk" where
  "symlink_metadata p = attempt (\<lambda>d. case view d p of None \<Rightarrow> (Err (plain_error ErrorKind_NotFound), d) | Some n \<Rightarrow> (Ok n, d))"

section \<open>Paths inside a directory\<close>

lemma trim_end_idem [simp]: "trim_end (trim_end r) = trim_end r"
  by (induction r rule: trim_end.induct) auto

lemma trim_end_slash: "trim_end r \<noteq> [] \<Longrightarrow> hd (trim_end r) = CHR ''/'' \<Longrightarrow> trim_end r = ''/''"
  by (induction r rule: trim_end.induct) (auto split: if_splits)

lemma directory_trimmed: "trim_end (rev (directory_of p)) = rev (directory_of p)" "directory_of p \<noteq> []"
  by (auto simp: directory_of_def parent_def Let_def split: option.splits if_splits)

text \<open>A name of its own: no separator, and an end that is not trimmed.\<close>

definition plain_name :: "string \<Rightarrow> bool" where
  "plain_name name \<longleftrightarrow> name \<noteq> [] \<and> CHR ''/'' \<notin> set name \<and> last name \<noteq> CHR ''.''"

lemma path_join_parts:
  assumes "plain_name name" "trim_end (rev dir) = rev dir" "dir \<noteq> []"
  shows "parent (path_join dir name) = Some dir" "file_name (path_join dir name) = Some name"
    "directory_of (path_join dir name) = dir"
proof -
  obtain c cs where name: "rev name = c # cs" "c \<noteq> CHR ''/''" "c \<noteq> CHR ''.''" "CHR ''/'' \<notin> set (c # cs)"
    using assms(1) by (cases name rule: rev_cases) (auto simp: plain_name_def)
  then have keep: "trim_end (rev name @ rest) = rev name @ rest" for rest by simp
  have hd_name: "name \<noteq> []" "hd name \<noteq> CHR ''/''" using assms(1) by (cases name; auto simp: plain_name_def)+
  define sep where "sep = (if last dir = CHR ''/'' then [] else ''/'')"
  have join: "rev (path_join dir name) = rev name @ sep @ rev dir"
    using hd_name assms(3) by (simp add: path_join_def sep_def)
  have root: "dir = ''/''" if "last dir = CHR ''/''"
    using trim_end_slash[of "rev dir"] assms(2, 3) that by (simp add: hd_rev)
  have rest: "sep @ rev dir \<noteq> []" "hd (sep @ rev dir) = CHR ''/''" "trim_end (sep @ rev dir) = rev dir"
    using assms(2, 3) root by (auto simp: sep_def)
  then obtain r where r: "sep @ rev dir = CHR ''/'' # r" by (cases "sep @ rev dir") auto
  have "\<forall>x \<in> set (rev name). x \<noteq> CHR ''/''" using name by auto
  then have split: "dropWhile (\<lambda>c. c \<noteq> CHR ''/'') (rev name @ sep @ rev dir) = sep @ rev dir"
    "takeWhile (\<lambda>c. c \<noteq> CHR ''/'') (rev name @ sep @ rev dir) = rev name"
    by (auto simp: r dropWhile_append takeWhile_append)
  show p: "parent (path_join dir name) = Some dir"
    unfolding parent_def Let_def join keep split rest(3) using name by simp
  show "file_name (path_join dir name) = Some name"
    unfolding file_name_def Let_def join keep split using name by auto
  show "directory_of (path_join dir name) = dir"
    using p assms(3) by (simp add: directory_of_def)
qed

section \<open>What operations leave unchanged\<close>

definition faults_left :: "disk \<Rightarrow> nat" where
  "faults_left d = length (filter (\<lambda>f. f \<noteq> None) (disk_faults d))"

lemma view_simps [simp]:
  "view (d\<lparr>disk_log := l\<rparr>) = view d" "view (d\<lparr>disk_faults := f\<rparr>) = view d" "view (d\<lparr>disk_unsynced := u\<rparr>) = view d"
  "view (d\<lparr>disk_fresh := k\<rparr>) = view d"
  by (simp_all add: view_def fun_eq_iff)

lemma view_cong: "disk_names d' = disk_names d \<Longrightarrow> disk_nodes d' = disk_nodes d \<Longrightarrow> view d' = view d"
  by (rule ext) (simp add: view_def)

lemma noting_simps [simp]:
  "disk_names (noting d) = disk_names d" "disk_nodes (noting d) = disk_nodes d" "disk_fresh (noting d) = disk_fresh d"
  "disk_faults (noting d) = disk_faults d" "disk_unsynced (noting d) = disk_unsynced d"
  "disk_log (noting d) = disk_log d @ [view d]" "view (noting d) = view d" "faults_left (noting d) = faults_left d"
  by (simp_all add: noting_def faults_left_def)

text \<open>Two states that differ only in the schedule of faults.\<close>

definition same_disk :: "disk \<Rightarrow> disk \<Rightarrow> bool" where
  "same_disk d d' \<longleftrightarrow> (\<exists>f. d' = d\<lparr>disk_faults := f\<rparr>)"

lemma next_fault_cases:
  assumes "next_fault d = (f, d')"
  shows "same_disk d d'" "faults_left d' + (if f = None then 0 else 1) = faults_left d"
proof -
  show "same_disk d d'"
    using assms by (cases "disk_faults d") (auto simp: next_fault_def same_disk_def intro: exI[of _ "[]"])
  show "faults_left d' + (if f = None then 0 else 1) = faults_left d"
    using assms by (cases "disk_faults d") (auto simp: next_fault_def faults_left_def)
qed

lemma attemptE:
  assumes "attempt f d = (r, d')"
  obtains (fault) e d1 where "r = Inl e" "same_disk d d1" "faults_left d1 + 1 = faults_left d" "d' = noting d1"
  | (effect) d1 d2 where "same_disk d d1" "faults_left d1 = faults_left d" "f d1 = (r, d2)" "d' = noting d2"
proof -
  obtain x d1 where n: "next_fault d = (x, d1)" by (metis surj_pair)
  note facts = next_fault_cases[OF n]
  show thesis
  proof (cases x)
    case None
    obtain r' d2 where f: "f d1 = (r', d2)" by (metis surj_pair)
    with n None assms have "r' = r" "d' = noting d2" by (simp_all add: attempt_def)
    with f facts None effect show thesis by simp
  next
    case (Some y)
    with n assms obtain e where "r = Inl e" "d' = noting d1" by (cases y) (auto simp: attempt_def)
    with facts Some fault show thesis by simp
  qed
qed

lemma same_disk_simps:
  assumes "same_disk d d'"
  shows "disk_names d' = disk_names d" "disk_nodes d' = disk_nodes d" "disk_fresh d' = disk_fresh d"
    "disk_unsynced d' = disk_unsynced d" "disk_log d' = disk_log d" "view d' = view d"
  using assms by (auto simp: same_disk_def)

lemma map_of_without [simp]: "map_of (without p names) q = (if q = p then None else map_of names q)"
  by (induction names) (auto simp: without_def)

end
