(* ===== verification/Publication.thy ===== *)
theory Publication
  imports File_System
begin

text \<open>
  Atomic publication of discovery records: \<^verbatim>\<open>publication.rs\<close> on Unix. A record is written to a fresh
  temporary file, synced and renamed over the old one, so another process opens the old record or
  the new one at every moment, whatever fails.
\<close>

section \<open>Options and state\<close>

record record_options =
  ro_durable :: bool
  ro_mode :: nat
  ro_read_limit :: u64

text \<open>Permission bits are in hexadecimal: \<^verbatim>\<open>0o600\<close> is \<^verbatim>\<open>0x180\<close> and \<^verbatim>\<open>0o700\<close> is \<^verbatim>\<open>0x1C0\<close>.\<close>

definition record_options_new :: record_options where
  "record_options_new = \<lparr>ro_durable = False, ro_mode = 0x180, ro_read_limit = 64 * 1024\<rparr>"

definition record_options_durable :: "bool \<Rightarrow> record_options \<Rightarrow> record_options" where
  "record_options_durable durable opts = opts\<lparr>ro_durable := durable\<rparr>"

definition record_options_mode :: "nat \<Rightarrow> record_options \<Rightarrow> record_options" where
  "record_options_mode mode opts = opts\<lparr>ro_mode := mode\<rparr>"

definition record_options_read_limit :: "u64 \<Rightarrow> record_options \<Rightarrow> record_options" where
  "record_options_read_limit bytes opts = opts\<lparr>ro_read_limit := bytes\<rparr>"

text \<open>The disk and the process that publishes: its number, its user, and its counter \<^verbatim>\<open>NEXT\<close>.\<close>

record publisher =
  pub_disk :: disk
  pub_next :: u64
  pub_pid :: nat
  pub_uid :: nat

definition on_disk :: "(disk \<Rightarrow> (io_error + 'a) \<times> disk) \<Rightarrow> publisher \<Rightarrow> (io_error + 'a) \<times> publisher" where
  "on_disk f s = (let (r, d) = f (pub_disk s) in (r, s\<lparr>pub_disk := d\<rparr>))"

section \<open>Publishing\<close>

definition temporary_path :: "path \<Rightarrow> path \<Rightarrow> nat \<Rightarrow> u64 \<Rightarrow> path" where
  "temporary_path dir filename pid k =
    path_join dir (''.'' @ filename @ ''.'' @ decimal pid @ ''.'' @ decimal (unat k) @ ''.tmp'')"

definition temporary_drop :: "path \<Rightarrow> publisher \<Rightarrow> publisher" where
  "temporary_drop t s = snd (on_disk (remove_file t) s)"

definition create_temporary_round ::
    "path \<Rightarrow> path \<Rightarrow> publisher \<Rightarrow> ((io_error + path \<times> nat) \<times> publisher, publisher) control" where
  "create_temporary_round dir filename s =
    (let t = temporary_path dir filename (pub_pid s) (pub_next s); s = s\<lparr>pub_next := pub_next s + 1\<rparr> in
     case on_disk (create_new (pub_uid s) 0x180 t) s of
       (Inr n, s) \<Rightarrow> Break (Ok (t, n), s)
     | (Inl e, s) \<Rightarrow> if io_kind e = ErrorKind_AlreadyExists then Continue s else Break (Err e, s))"

text \<open>A temporary always has a directory (\<^verbatim>\<open>temporary_parts\<close>), so its \<^verbatim>\<open>expect\<close> does not panic.\<close>

definition record_replace :: "path \<Rightarrow> path \<Rightarrow> bool \<Rightarrow> publisher \<Rightarrow> (io_error + unit) \<times> publisher" where
  "record_replace from to durable s =
    and_then (on_disk (rename from to) s) (\<lambda>_ s.
    if durable then
      let directory = the (parent from) in
      and_then (on_disk (open_directory directory) s) (\<lambda>opened s. on_disk (sync_directory opened) s)
    else (Ok (), s))"

definition publish_record_with :: "path \<Rightarrow> u8 list \<Rightarrow> record_options \<Rightarrow> publisher \<Rightarrow> ((io_error + unit) \<times> publisher) option" where
  "publish_record_with p contents options s =
    (let dir = directory_of p in
     case file_name p of
       None \<Rightarrow> Some (Err (io_error_new ErrorKind_InvalidInput ''discovery path needs a filename''), s)
     | Some filename \<Rightarrow>
         (case iterate (create_temporary_round dir filename) s of
            None \<Rightarrow> None
          | Some (Inl e, s) \<Rightarrow> Some (Err e, s)
          | Some (Inr (t, n), s) \<Rightarrow>
              Some (case
                and_then (on_disk (set_mode n (ro_mode options)) s) (\<lambda>_ s.
                and_then (on_disk (file_write_all n contents) s) (\<lambda>_ s.
                and_then (on_disk (sync_all n) s) (\<lambda>_ s.
                record_replace t p (ro_durable options) s)))
              of (r, s) \<Rightarrow> (r, temporary_drop t s))))"

definition publish_record :: "path \<Rightarrow> u8 list \<Rightarrow> publisher \<Rightarrow> ((io_error + unit) \<times> publisher) option" where
  "publish_record p contents = publish_record_with p contents record_options_new"

section \<open>Reading\<close>

definition not_regular :: io_error where
  "not_regular = io_error_new ErrorKind_InvalidData ''record is not a regular file''"

definition open_record :: "bool \<Rightarrow> path \<Rightarrow> publisher \<Rightarrow> (io_error + nat) \<times> publisher" where
  "open_record nofollow p = on_disk (open_read nofollow p)"

definition read_regular :: "path \<Rightarrow> u64 \<Rightarrow> publisher \<Rightarrow> (io_error + u8 list option) \<times> publisher" where
  "read_regular p limit s =
    (case open_record True p s of
       (Inl e, s) \<Rightarrow>
         if io_kind e = ErrorKind_NotFound then (Ok None, s)
         else if io_os e = Some ELOOP then (Err not_regular, s)
         else (Err e, s)
     | (Inr n, s) \<Rightarrow>
         and_then (on_disk (file_metadata n) s) (\<lambda>metadata s.
         if node_kind metadata \<noteq> Regular then (Err not_regular, s)
         else
         and_then (on_disk (read_to_end (unat (saturating_add limit 1)) n) s) (\<lambda>contents s.
         if length contents > unat limit
         then (Err (io_error_new ErrorKind_InvalidData ''record is longer than its read limit''), s)
         else (Ok (Some contents), s))))"

text \<open>\<^verbatim>\<open>create_dir_all\<close> creates the missing directories of a path.\<close>

definition ensure_private_dir :: "(path \<Rightarrow> disk \<Rightarrow> (io_error + unit) \<times> disk) \<Rightarrow> path \<Rightarrow> publisher \<Rightarrow> (io_error + unit) \<times> publisher" where
  "ensure_private_dir create_dir_all dir s =
    and_then (on_disk (create_dir_all dir) s) (\<lambda>_ s.
    and_then (on_disk (symlink_metadata dir) s) (\<lambda>metadata s.
    if node_kind metadata \<noteq> Directory then (Err (plain_error ErrorKind_PermissionDenied), s)
    else if node_owner metadata \<noteq> pub_uid s then (Err (plain_error ErrorKind_PermissionDenied), s)
    else case map_of (disk_names (pub_disk s)) dir of
      None \<Rightarrow> (Err (plain_error ErrorKind_NotFound), s)
    | Some n \<Rightarrow> on_disk (set_mode n 0x1C0) s))"

section \<open>Slots\<close>

record record_slot =
  slot_path :: path
  slot_options :: record_options

definition record_slot_new :: "path \<Rightarrow> record_slot" where
  "record_slot_new p = \<lparr>slot_path = p, slot_options = record_options_new\<rparr>"

definition record_slot_options :: "record_options \<Rightarrow> record_slot \<Rightarrow> record_slot" where
  "record_slot_options opts slot = slot\<lparr>slot_options := opts\<rparr>"

definition slot_lock_path :: "record_slot \<Rightarrow> path" where
  "slot_lock_path slot = slot_path slot @ ''.record.lock''"

text \<open>
  \<^verbatim>\<open>acquired\<close> is what acquiring the lock at \<^verbatim>\<open>slot_lock_path\<close> within two seconds came to: held, not held
  in time, or an error.
\<close>

definition slot_lock :: "io_error + bool \<Rightarrow> io_error + unit" where
  "slot_lock acquired = (case acquired of
      Inl e \<Rightarrow> Err e
    | Inr held \<Rightarrow> if held then Ok () else Err (plain_error ErrorKind_TimedOut))"

definition slot_matches :: "record_slot \<Rightarrow> u8 list \<Rightarrow> publisher \<Rightarrow> (io_error + bool) \<times> publisher" where
  "slot_matches slot contents s =
    (case open_record False (slot_path slot) s of
       (Inl e, s) \<Rightarrow> if io_kind e = ErrorKind_NotFound then (Ok False, s) else (Err e, s)
     | (Inr n, s) \<Rightarrow>
         and_then (on_disk (read_to_end (length contents + 1) n) s) (\<lambda>current s. (Ok (current = contents), s)))"

definition slot_replace :: "io_error + bool \<Rightarrow> record_slot \<Rightarrow> u8 list \<Rightarrow> publisher \<Rightarrow> ((io_error + unit) \<times> publisher) option" where
  "slot_replace acquired slot contents s = (case slot_lock acquired of
      Inl e \<Rightarrow> Some (Err e, s)
    | Inr _ \<Rightarrow> publish_record_with (slot_path slot) contents (slot_options slot) s)"

text \<open>Publishing as the last step of an operation that reports whether it published.\<close>

definition published :: "((io_error + unit) \<times> publisher) option \<Rightarrow> ((io_error + bool) \<times> publisher) option" where
  "published r = map_option (\<lambda>(r, s). (case r of Inl e \<Rightarrow> Err e | Inr _ \<Rightarrow> Ok True, s)) r"

definition slot_repair :: "io_error + bool \<Rightarrow> record_slot \<Rightarrow> u8 list \<Rightarrow> publisher \<Rightarrow> ((io_error + bool) \<times> publisher) option" where
  "slot_repair acquired slot contents s = (case slot_lock acquired of
      Inl e \<Rightarrow> Some (Err e, s)
    | Inr _ \<Rightarrow> (case slot_matches slot contents s of
        (Inl e, s) \<Rightarrow> Some (Err e, s)
      | (Inr matches, s) \<Rightarrow>
          if matches then Some (Ok False, s)
          else published (publish_record_with (slot_path slot) contents (slot_options slot) s)))"

definition slot_replace_if ::
    "io_error + bool \<Rightarrow> record_slot \<Rightarrow> u8 list \<Rightarrow> (u8 list option \<Rightarrow> bool) \<Rightarrow> publisher \<Rightarrow> ((io_error + bool) \<times> publisher) option" where
  "slot_replace_if acquired slot contents accept s = (case slot_lock acquired of
      Inl e \<Rightarrow> Some (Err e, s)
    | Inr _ \<Rightarrow> (case read_regular (slot_path slot) (ro_read_limit (slot_options slot)) s of
        (Inl e, s) \<Rightarrow> Some (Err e, s)
      | (Inr current, s) \<Rightarrow>
          if \<not> accept current then Some (Ok False, s)
          else published (publish_record_with (slot_path slot) contents (slot_options slot) s)))"

definition slot_remove_if_matches :: "io_error + bool \<Rightarrow> record_slot \<Rightarrow> u8 list \<Rightarrow> publisher \<Rightarrow> (io_error + bool) \<times> publisher" where
  "slot_remove_if_matches acquired slot contents s = (case slot_lock acquired of
      Inl e \<Rightarrow> (Err e, s)
    | Inr _ \<Rightarrow>
        and_then (slot_matches slot contents s) (\<lambda>matches s.
        if \<not> matches then (Ok False, s)
        else and_then (on_disk (remove_file (slot_path slot)) s) (\<lambda>_ s. (Ok True, s))))"

definition slot_remove_if :: "io_error + bool \<Rightarrow> record_slot \<Rightarrow> (u8 list \<Rightarrow> bool) \<Rightarrow> publisher \<Rightarrow> (io_error + bool) \<times> publisher" where
  "slot_remove_if acquired slot accept s = (case slot_lock acquired of
      Inl e \<Rightarrow> (Err e, s)
    | Inr _ \<Rightarrow>
        and_then (read_regular (slot_path slot) (ro_read_limit (slot_options slot)) s) (\<lambda>current s.
        case current of
          None \<Rightarrow> (Ok False, s)
        | Some bytes \<Rightarrow>
            if \<not> accept bytes then (Ok False, s)
            else and_then (on_disk (remove_file (slot_path slot)) s) (\<lambda>_ s. (Ok True, s))))"

definition slot_read :: "record_slot \<Rightarrow> publisher \<Rightarrow> (io_error + u8 list option) \<times> publisher" where
  "slot_read slot s = read_regular (slot_path slot) (ro_read_limit (slot_options slot)) s"

section \<open>The phases of a publication\<close>

definition wf_disk :: "disk \<Rightarrow> bool" where
  "wf_disk d \<longleftrightarrow> (\<forall>(q, n) \<in> set (disk_names d). n < disk_fresh d)"

definition seen_since :: "disk \<Rightarrow> ((path \<Rightarrow> node option) \<Rightarrow> bool) \<Rightarrow> disk \<Rightarrow> bool" where
  "seen_since d0 P d \<longleftrightarrow> (\<exists>seen. disk_log d = disk_log d0 @ seen \<and> (\<forall>v \<in> set seen. P v))"

text \<open>Nothing but the log and the schedule has changed.\<close>

definition idle :: "disk \<Rightarrow> disk \<Rightarrow> bool" where
  "idle d0 d \<longleftrightarrow> disk_names d = disk_names d0 \<and> disk_nodes d = disk_nodes d0 \<and> disk_fresh d = disk_fresh d0
    \<and> disk_unsynced d = disk_unsynced d0 \<and> faults_left d \<le> faults_left d0 \<and> seen_since d0 (\<lambda>v. v = view d0) d"

text \<open>The temporary \<^verbatim>\<open>t\<close> names the new node \<^verbatim>\<open>n\<close>, so far \<^verbatim>\<open>f\<close>; every other name is as it was.\<close>

definition staged :: "disk \<Rightarrow> path \<Rightarrow> nat \<Rightarrow> node \<Rightarrow> disk \<Rightarrow> bool" where
  "staged d0 t n f d \<longleftrightarrow> disk_names d = (t, n) # disk_names d0 \<and> n = disk_fresh d0 \<and> disk_nodes d = (disk_nodes d0)(n := f)
    \<and> disk_unsynced d = disk_unsynced d0 \<and> faults_left d \<le> faults_left d0 \<and> seen_since d0 (\<lambda>v. \<forall>q. q \<noteq> t \<longrightarrow> v q = view d0 q) d"

lemma seen_since_note:
  "seen_since d0 P d \<Longrightarrow> disk_log d' = disk_log d \<Longrightarrow> P (view d') \<Longrightarrow> seen_since d0 P (noting d')"
  unfolding seen_since_def by (elim exE conjE, rule_tac x = "seen @ [view d']" in exI) auto

lemma seen_since_weaken: "seen_since d0 P d \<Longrightarrow> (\<And>v. P v \<Longrightarrow> Q v) \<Longrightarrow> seen_since d0 Q d"
  unfolding seen_since_def by blast

lemma wf_disk_view: "wf_disk d \<Longrightarrow> map_of (disk_names d) q \<noteq> Some (disk_fresh d)"
  by (auto simp: wf_disk_def dest!: map_of_SomeD)

lemma view_staged:
  "wf_disk d0 \<Longrightarrow> disk_names d = (t, disk_fresh d0) # disk_names d0 \<Longrightarrow> disk_nodes d = (disk_nodes d0)(disk_fresh d0 := f) \<Longrightarrow>
    q \<noteq> t \<Longrightarrow> view d q = view d0 q"
  using wf_disk_view[of d0 q] by (cases "map_of (disk_names d0) q") (auto simp: view_def)

lemma idle_note: "idle d0 d \<Longrightarrow> same_disk d d' \<Longrightarrow> faults_left d' \<le> faults_left d \<Longrightarrow> idle d0 (noting d')"
  unfolding idle_def by (intro conjI; (elim conjE)?; (rule seen_since_note[of _ _ d])?) (auto simp: same_disk_simps intro: view_cong)

lemma staged_note:
  "wf_disk d0 \<Longrightarrow> staged d0 t n f d \<Longrightarrow> disk_names d' = disk_names d \<Longrightarrow> disk_nodes d' = (disk_nodes d)(n := f') \<Longrightarrow>
    disk_unsynced d' = disk_unsynced d \<Longrightarrow> disk_log d' = disk_log d \<Longrightarrow> faults_left d' \<le> faults_left d \<Longrightarrow>
    staged d0 t n f' (noting d')"
  unfolding staged_def by (intro conjI; (elim conjE)?; (rule seen_since_note[of _ _ d])?) (auto simp: view_staged)

text \<open>Each operation on the temporary keeps it staged; an error used up a fault.\<close>

lemma create_stages:
  assumes "create_new owner mode t d = (r, d')" "idle d0 d" "wf_disk d0"
  shows "case r of
      Inl e \<Rightarrow> idle d0 d'
    | Inr n \<Rightarrow> map_of (disk_names d0) t = None \<and>
        staged d0 t n \<lparr>node_kind = Regular, node_mode = mode, node_owner = owner, node_bytes = [], node_synced = False\<rparr> d'"
  using assms(1) unfolding create_new_def
proof (cases rule: attemptE)
  case (fault e d1)
  then show ?thesis using idle_note[OF assms(2)] by simp
next
  case (effect d1 d2)
  note same = same_disk_simps[OF effect(1)]
  show ?thesis
  proof (cases "map_of (disk_names d1) t")
    case None
    then show ?thesis using effect assms(2, 3) same
      by (auto simp: staged_def idle_def Let_def view_staged faults_left_def elim!: seen_since_weaken intro!: seen_since_note[of _ _ d])
  next
    case (Some m)
    then show ?thesis using effect idle_note[OF assms(2)] by (auto simp: Let_def)
  qed
qed

lemma staged_fault:
  assumes "wf_disk d0" "staged d0 t n f d" "same_disk d d1" "faults_left d1 + 1 = faults_left d"
  shows "staged d0 t n f (noting d1) \<and> faults_left (noting d1) < faults_left d0"
proof -
  have "disk_nodes d n = f" "faults_left d \<le> faults_left d0" using assms(2) by (simp_all add: staged_def)
  then show ?thesis
    using staged_note[OF assms(1, 2), of d1 f] assms(3, 4) by (auto simp: same_disk_simps)
qed

lemma node_attempt_stages:
  assumes "attempt (\<lambda>d. (Ok (), d\<lparr>disk_nodes := (disk_nodes d)(n := g (disk_nodes d n))\<rparr>)) d = (r, d')"
    and "staged d0 t n f d" "wf_disk d0"
  shows "case r of Inl _ \<Rightarrow> staged d0 t n f d' \<and> faults_left d' < faults_left d0 | Inr _ \<Rightarrow> staged d0 t n (g f) d'"
  using assms(1)
proof (cases rule: attemptE)
  case (fault e d1)
  with staged_fault[OF assms(3, 2)] show ?thesis by simp
next
  case (effect d1 d2)
  have "disk_nodes d n = f" using assms(2) by (simp add: staged_def)
  with effect show ?thesis
    using staged_note[OF assms(3, 2), of d2 "g f"] by (auto simp: same_disk_simps faults_left_def)
qed

lemmas set_mode_stages = node_attempt_stages[where g = "node_mode_update (\<lambda>_. m)" for m, folded set_mode_def]
lemmas sync_all_stages = node_attempt_stages[where g = "node_synced_update (\<lambda>_. True)", folded sync_all_def]

lemma write_stages:
  assumes "file_write_all n bytes d = (r, d')" "staged d0 t n f d" "wf_disk d0"
  shows "case r of
      Inl _ \<Rightarrow> (\<exists>f'. staged d0 t n f' d') \<and> faults_left d' < faults_left d0
    | Inr _ \<Rightarrow> staged d0 t n (f\<lparr>node_bytes := node_bytes f @ bytes, node_synced := False\<rparr>) d'"
proof -
  obtain x d1 where n: "next_fault d = (x, d1)" by (metis surj_pair)
  note facts = next_fault_cases[OF n]
  have f: "disk_nodes d n = f" "faults_left d \<le> faults_left d0" using assms(2) by (simp_all add: staged_def)
  have stored: "staged d0 t n (f\<lparr>node_bytes := node_bytes f @ part, node_synced := False\<rparr>) (noting (store n part d1))" for part
    using staged_note[OF assms(3, 2), of "store n part d1" "f\<lparr>node_bytes := node_bytes f @ part, node_synced := False\<rparr>"] facts f
    by (auto simp: store_def same_disk_simps faults_left_def split: if_splits)
  have left: "faults_left (noting (store n part d1)) = faults_left d1" for part
    by (simp add: store_def faults_left_def)
  have some: "\<exists>f'. staged d0 t n f' (noting (store n part d1))" for part
    using stored by blast
  show ?thesis
    using assms(1) n stored some left facts f by (auto simp: file_write_all_def split: option.splits)
qed

text \<open>The new record is in place: what was seen before is the old state, and from then on the new one.\<close>

definition seen_switch :: "disk \<Rightarrow> path \<Rightarrow> path \<Rightarrow> node \<Rightarrow> disk \<Rightarrow> bool" where
  "seen_switch d0 p t f d \<longleftrightarrow> (\<exists>before after. disk_log d = disk_log d0 @ before @ after
    \<and> (\<forall>v \<in> set before. \<forall>q. q \<noteq> t \<longrightarrow> v q = view d0 q) \<and> (\<forall>v \<in> set after. v = (view d0)(p \<mapsto> f)))"

definition placed :: "disk \<Rightarrow> path \<Rightarrow> path \<Rightarrow> node \<Rightarrow> disk \<Rightarrow> bool" where
  "placed d0 p t f d \<longleftrightarrow> view d = (view d0)(p \<mapsto> f) \<and> map_of (disk_names d) t = None \<and> seen_switch d0 p t f d"

lemma seen_switch_start: "seen_since d0 (\<lambda>v. \<forall>q. q \<noteq> t \<longrightarrow> v q = view d0 q) d \<Longrightarrow> seen_switch d0 p t f d"
  unfolding seen_since_def seen_switch_def by (metis append_Nil2 empty_iff list.set(1))

lemma seen_switch_note:
  "seen_switch d0 p t f d \<Longrightarrow> disk_log d' = disk_log d \<Longrightarrow> view d' = (view d0)(p \<mapsto> f) \<Longrightarrow> seen_switch d0 p t f (noting d')"
  unfolding seen_switch_def by (elim exE conjE, rule_tac x = before in exI, rule_tac x = "after @ [view d']" in exI) auto

lemma placed_note:
  "placed d0 p t f d \<Longrightarrow> disk_names d' = disk_names d \<Longrightarrow> disk_nodes d' = disk_nodes d \<Longrightarrow> disk_log d' = disk_log d \<Longrightarrow>
    placed d0 p t f (noting d')"
  unfolding placed_def using view_cong[of d' d] by (auto intro!: seen_switch_note[of _ _ _ _ d] simp del: fun_upd_apply)

lemma rename_places:
  assumes "rename t p d = (r, d')" "staged d0 t n f d" "wf_disk d0" "map_of (disk_names d0) t = None" "t \<noteq> p"
  shows "case r of
      Inl _ \<Rightarrow> staged d0 t n f d' \<and> (faults_left d' < faults_left d0 \<or> map_option node_kind (view d0 p) = Some Directory)
    | Inr _ \<Rightarrow> placed d0 p t f d'"
  using assms(1) unfolding rename_def
proof (cases rule: attemptE)
  case (fault e d1)
  with staged_fault[OF assms(3, 2)] show ?thesis by simp
next
  case (effect d1 d2)
  note same = same_disk_simps[OF effect(1)]
  have st: "disk_names d = (t, n) # disk_names d0" "n = disk_fresh d0" "disk_nodes d = (disk_nodes d0)(n := f)"
    "seen_since d0 (\<lambda>v. \<forall>q. q \<noteq> t \<longrightarrow> v q = view d0 q) d" "disk_nodes d n = f"
    using assms(2) by (simp_all add: staged_def)
  have at_p: "view d1 p = view d0 p" using view_staged[OF assms(3), of d t f p] st assms(5) same by simp
  have m: "map_of (disk_names d1) t = Some n" by (simp add: same st)
  show ?thesis
  proof (cases "map_option node_kind (view d0 p) = Some Directory")
    case True
    then show ?thesis
      using effect staged_note[OF assms(3, 2), of d1 f] st same at_p by auto
  next
    case False
    have d2: "d2 = d1\<lparr>disk_names := (p, n) # without p (without t (disk_names d1)), disk_unsynced := p # disk_unsynced d1\<rparr>" and r: "r = Ok ()"
      using effect(3) unfolding m at_p option.case if_not_P[OF False] by auto
    have v: "view d2 = (view d0)(p \<mapsto> f)"
    proof
      fix q
      show "view d2 q = ((view d0)(p \<mapsto> f)) q"
        using wf_disk_view[OF assms(3), of q] assms(4) unfolding d2 view_def same st
        by (cases "map_of (disk_names d0) q") (auto simp: st same)
    qed
    have "map_of (disk_names d2) t = None" using assms(5) by (simp add: d2)
    then show ?thesis
      using r effect(4) v seen_switch_note[OF seen_switch_start[OF st(4)], of d2] same
      by (simp add: placed_def d2 del: fun_upd_apply)
  qed
qed

lemma sync_directory_keeps:
  assumes "sync_directory dir d = (r, d')" "placed d0 p t f d"
  shows "placed d0 p t f d' \<and> (r = Ok () \<longrightarrow> (\<forall>q \<in> set (disk_unsynced d'). directory_of q \<noteq> dir))"
  using assms(1) unfolding sync_directory_def
  by (cases rule: attemptE) (auto simp: same_disk_simps intro!: placed_note[OF assms(2)])

lemma open_directory_keeps:
  "open_directory dir d = (r, d') \<Longrightarrow> placed d0 p t f d \<Longrightarrow> placed d0 p t f d' \<and> (\<forall>x. r = Inr x \<longrightarrow> x = dir)"
  unfolding open_directory_def
  by (erule attemptE) (auto simp: same_disk_simps intro!: placed_note[of _ _ _ _ d])

lemma remove_keeps_placed:
  assumes "remove_file t d = (r, d')" "placed d0 p t f d"
  shows "placed d0 p t f d' \<and> disk_unsynced d' = disk_unsynced d"
proof -
  have "map_of (disk_names d) t = None" using assms(2) by (simp add: placed_def)
  with assms(1) show ?thesis unfolding remove_file_def
    by (elim attemptE) (auto simp: same_disk_simps intro!: placed_note[OF assms(2)])
qed

text \<open>Removing a staged temporary leaves the old state, unless the removal fails.\<close>

lemma remove_staged:
  assumes "remove_file t d = (r, d')" "staged d0 t n f d" "wf_disk d0" "map_of (disk_names d0) t = None"
  shows "seen_since d0 (\<lambda>v. \<forall>q. q \<noteq> t \<longrightarrow> v q = view d0 q) d' \<and> (\<forall>q. q \<noteq> t \<longrightarrow> view d' q = view d0 q)
    \<and> (faults_left d = 0 \<longrightarrow> view d' = view d0)"
  using assms(1) unfolding remove_file_def
proof (cases rule: attemptE)
  case (fault e d1)
  with staged_fault[OF assms(3, 2)] assms(3) show ?thesis by (auto simp: staged_def view_staged)
next
  case (effect d1 d2)
  note same = same_disk_simps[OF effect(1)]
  have st: "disk_names d = (t, n) # disk_names d0" "disk_nodes d = (disk_nodes d0)(n := f)" "n = disk_fresh d0"
    "seen_since d0 (\<lambda>v. \<forall>q. q \<noteq> t \<longrightarrow> v q = view d0 q) d"
    using assms(2) by (simp_all add: staged_def)
  have d2: "d2 = d1\<lparr>disk_names := without t (disk_names d1)\<rparr>" using effect(3) st same by (auto split: if_splits)
  have "view d2 q = view d0 q" for q
    using wf_disk_view[OF assms(3), of q] assms(4) unfolding d2 view_def same st
    by (cases "map_of (disk_names d0) q") (auto simp: st same)
  then show ?thesis
    using effect(4) seen_since_note[OF st(4), of d2] same by (auto simp: d2)
qed

section \<open>Creating the temporary\<close>

lemma file_name_plain: "file_name p = Some f \<Longrightarrow> CHR ''/'' \<notin> set f"
  by (auto simp: file_name_def Let_def split: if_splits dest: set_takeWhileD)

lemma temporary_parts:
  assumes "file_name p = Some f"
  shows "parent (temporary_path (directory_of p) f pid k) = Some (directory_of p)"
    "directory_of (temporary_path (directory_of p) f pid k) = directory_of p"
    "temporary_path (directory_of p) f pid k \<noteq> p"
proof -
  have digits: "CHR ''/'' \<notin> set (decimal m)" for m
    using decimal_digits[of m] by (auto simp: list_all_iff is_digit_def)
  have "plain_name (''.'' @ f @ ''.'' @ decimal pid @ ''.'' @ decimal (unat k) @ ''.tmp'')"
    using file_name_plain[OF assms] digits by (simp add: plain_name_def)
  note parts = path_join_parts[OF this directory_trimmed]
  show "parent (temporary_path (directory_of p) f pid k) = Some (directory_of p)"
    "directory_of (temporary_path (directory_of p) f pid k) = directory_of p"
    unfolding temporary_path_def by (rule parts)+
  have "length (''.'' @ f @ ''.'' @ decimal pid @ ''.'' @ decimal (unat k) @ ''.tmp'') \<noteq> length f" by simp
  then show "temporary_path (directory_of p) f pid k \<noteq> p"
    using parts(2)[of p] assms unfolding temporary_path_def by (metis option.inject)
qed

text \<open>A try that goes on used up a scheduled fault, or found the name taken.\<close>

lemma create_retry:
  assumes "create_temporary_round dir f s = Continue s'"
  shows "pub_next s' = pub_next s + 1 \<and> (length (disk_faults (pub_disk s')) < length (disk_faults (pub_disk s))
    \<or> disk_faults (pub_disk s') = disk_faults (pub_disk s)
      \<and> map_of (disk_names (pub_disk s)) (temporary_path dir f (pub_pid s) (pub_next s)) \<noteq> None)"
  using assms
  by (auto simp: create_temporary_round_def on_disk_def create_new_def attempt_def next_fault_def Let_def
      split: prod.splits sum.splits if_splits list.splits option.splits)

definition creating :: "publisher \<Rightarrow> publisher \<Rightarrow> bool" where
  "creating s0 s \<longleftrightarrow> idle (pub_disk s0) (pub_disk s) \<and> pub_pid s = pub_pid s0 \<and> pub_uid s = pub_uid s0"

definition created :: "publisher \<Rightarrow> path \<Rightarrow> path \<Rightarrow> (io_error + path \<times> nat) \<times> publisher \<Rightarrow> bool" where
  "created s0 dir f = (\<lambda>(r, s). case r of
      Inl _ \<Rightarrow> creating s0 s
    | Inr (t, n) \<Rightarrow> (\<exists>k. t = temporary_path dir f (pub_pid s0) k) \<and> map_of (disk_names (pub_disk s0)) t = None
        \<and> staged (pub_disk s0) t n \<lparr>node_kind = Regular, node_mode = 0x180, node_owner = pub_uid s0, node_bytes = [], node_synced = False\<rparr> (pub_disk s))"

lemma unat_closer: "x \<noteq> y \<Longrightarrow> unat (y - (x + 1)) < unat (y - x)" for x y :: u64
proof -
  assume "x \<noteq> y"
  then have "y - x \<noteq> 0" by simp
  then have "unat (y - x - 1) < unat (y - x)" by (metis measure_unat)
  then show ?thesis by (simp add: algebra_simps)
qed

lemma create_loop:
  assumes "wf_disk (pub_disk s0)" "map_of (disk_names (pub_disk s0)) (temporary_path dir f (pub_pid s0) k) = None"
  shows "\<exists>r. iterate (create_temporary_round dir f) s0 = Some r \<and> created s0 dir f r"
proof -
  let ?R = "measures [\<lambda>s. length (disk_faults (pub_disk s)), \<lambda>s. unat (k - pub_next s)]"
  have start: "creating s0 s0" by (auto simp: creating_def idle_def seen_since_def)
  have round: "case create_temporary_round dir f s of Break r \<Rightarrow> created s0 dir f r | Continue s' \<Rightarrow> creating s0 s'" if "creating s0 s" for s
  proof -
    let ?t = "temporary_path dir f (pub_pid s0) (pub_next s)"
    obtain r d' where c: "create_new (pub_uid s0) 0x180 ?t (pub_disk s) = (r, d')" by (metis surj_pair)
    note create_stages[OF c, of "pub_disk s0"]
    with that assms(1) show ?thesis
      by (auto simp: create_temporary_round_def on_disk_def Let_def c creating_def created_def split: sum.splits)
  qed
  have step: "creating s0 s' \<and> (s', s) \<in> ?R" if "creating s0 s" "create_temporary_round dir f s = Continue s'" for s s'
    using round[OF that(1)] create_retry[OF that(2)] unat_closer[of "pub_next s" k] that assms(2)
    by (cases "pub_next s = k") (auto simp: creating_def idle_def)
  obtain r where r: "iterate (create_temporary_round dir f) s0 = Some r"
    using iterate_total[of ?R "creating s0" s0 "create_temporary_round dir f"] start step by auto
  moreover have "created s0 dir f r"
    by (rule iterate_partial[where I = "creating s0", OF r start]) (use round in \<open>force split: control.splits\<close>)+
  ultimately show ?thesis by blast
qed

section \<open>Publication is atomic\<close>

definition new_record :: "publisher \<Rightarrow> record_options \<Rightarrow> u8 list \<Rightarrow> node" where
  "new_record s options contents =
    \<lparr>node_kind = Regular, node_mode = ro_mode options, node_owner = pub_uid s, node_bytes = contents, node_synced = True\<rparr>"

lemma on_diskD:
  assumes "on_disk f s = (r, s')"
  shows "f (pub_disk s) = (r, pub_disk s')" "pub_next s' = pub_next s" "pub_pid s' = pub_pid s" "pub_uid s' = pub_uid s"
  using assms by (auto simp: on_disk_def split: prod.splits)

lemma record_replace_outcome:
  assumes "record_replace t p durable s = (r, s')" "staged d0 t n f (pub_disk s)"
    and "wf_disk d0" "map_of (disk_names d0) t = None" "t \<noteq> p" "parent t = Some (directory_of p)"
  shows "case r of
      Inl _ \<Rightarrow> staged d0 t n f (pub_disk s') \<and> (faults_left (pub_disk s') < faults_left d0 \<or> map_option node_kind (view d0 p) = Some Directory)
        \<or> durable \<and> placed d0 p t f (pub_disk s')
    | Inr _ \<Rightarrow> placed d0 p t f (pub_disk s') \<and> (durable \<longrightarrow> p \<notin> set (disk_unsynced (pub_disk s')))"
  using assms(1) unfolding record_replace_def
proof (cases rule: and_thenE)
  case (error e)
  then show ?thesis using rename_places[OF on_diskD(1)[OF error(1)] assms(2-5)] by simp
next
  case (step u s1)
  then have p1: "placed d0 p t f (pub_disk s1)" using rename_places[OF on_diskD(1)[OF step(1)] assms(2-5)] by simp
  show ?thesis
  proof (cases durable)
    case False
    with step p1 show ?thesis by auto
  next
    case True
    with step(2) assms(6) have "and_then (on_disk (open_directory (directory_of p)) s1) (\<lambda>opened s. on_disk (sync_directory opened) s) = (r, s')"
      by simp
    then show ?thesis
    proof (cases rule: and_thenE)
      case (error e)
      then show ?thesis using open_directory_keeps[OF on_diskD(1)[OF error(1)] p1] True by simp
    next
      case (step dir s2)
      then have p2: "placed d0 p t f (pub_disk s2)" "dir = directory_of p"
        using open_directory_keeps[OF on_diskD(1)[OF step(1)] p1] by simp_all
      then show ?thesis using sync_directory_keeps[OF on_diskD(1)[OF step(2)] p2(1)] True by (auto split: sum.splits)
    qed
  qed
qed

lemma written_outcome:
  assumes "and_then (on_disk (set_mode n (ro_mode options)) s) (\<lambda>_ s. and_then (on_disk (file_write_all n contents) s) (\<lambda>_ s.
      and_then (on_disk (sync_all n) s) (\<lambda>_ s. record_replace t p (ro_durable options) s))) = (r, s')"
    and "staged d0 t n \<lparr>node_kind = Regular, node_mode = 0x180, node_owner = uid, node_bytes = [], node_synced = False\<rparr> (pub_disk s)"
    and "wf_disk d0" "map_of (disk_names d0) t = None" "t \<noteq> p" "parent t = Some (directory_of p)"
  defines "f \<equiv> \<lparr>node_kind = Regular, node_mode = ro_mode options, node_owner = uid, node_bytes = contents, node_synced = True\<rparr>"
  shows "case r of
      Inl _ \<Rightarrow> (\<exists>f. staged d0 t n f (pub_disk s')) \<and> (faults_left (pub_disk s') < faults_left d0 \<or> map_option node_kind (view d0 p) = Some Directory)
        \<or> ro_durable options \<and> placed d0 p t f (pub_disk s')
    | Inr _ \<Rightarrow> placed d0 p t f (pub_disk s') \<and> (ro_durable options \<longrightarrow> p \<notin> set (disk_unsynced (pub_disk s')))"
  using assms(1)
proof (cases rule: and_thenE)
  case (error e)
  then show ?thesis using set_mode_stages[OF on_diskD(1)[OF error(1)] assms(2, 3)] by auto
next
  case (step u s1)
  then have st1: "staged d0 t n (f\<lparr>node_bytes := [], node_synced := False\<rparr>) (pub_disk s1)"
    using set_mode_stages[OF on_diskD(1)[OF step(1)] assms(2, 3)] by (simp add: f_def)
  from step(2) show ?thesis
  proof (cases rule: and_thenE)
    case (error e)
    then show ?thesis using write_stages[OF on_diskD(1)[OF error(1)] st1 assms(3)] by auto
  next
    case (step u s2)
    then have st2: "staged d0 t n (f\<lparr>node_synced := False\<rparr>) (pub_disk s2)"
      using write_stages[OF on_diskD(1)[OF step(1)] st1 assms(3)] by (simp add: f_def)
    from step(2) show ?thesis
    proof (cases rule: and_thenE)
      case (error e)
      then show ?thesis using sync_all_stages[OF on_diskD(1)[OF error(1)] st2 assms(3)] by auto
    next
      case (step u s3)
      then have "staged d0 t n f (pub_disk s3)"
        using sync_all_stages[OF on_diskD(1)[OF step(1)] st2 assms(3)] by (simp add: f_def)
      then show ?thesis using record_replace_outcome[OF step(2) _ assms(3-6), of n f] by (auto split: sum.splits)
    qed
  qed
qed

lemma drop_outcome:
  fixes r :: "io_error + unit"
  assumes "case r of
      Inl _ \<Rightarrow> (\<exists>f. staged d0 t n f d) \<and> (faults_left d < faults_left d0 \<or> map_option node_kind (view d0 p) = Some Directory)
        \<or> durable \<and> placed d0 p t new d
    | Inr _ \<Rightarrow> placed d0 p t new d \<and> (durable \<longrightarrow> p \<notin> set (disk_unsynced d))"
    and "wf_disk d0" "map_of (disk_names d0) t = None" "remove_file t d = (x, d')"
  shows "seen_switch d0 p t new d' \<and> (case r of
            Inr _ \<Rightarrow> view d' = (view d0)(p \<mapsto> new) \<and> (durable \<longrightarrow> p \<notin> set (disk_unsynced d'))
          | Inl _ \<Rightarrow> (\<forall>q. q \<noteq> t \<longrightarrow> view d' q = view d0 q) \<or> durable \<and> view d' = (view d0)(p \<mapsto> new))
      \<and> (faults_left d0 \<le> 1 \<and> map_option node_kind (view d0 p) \<noteq> Some Directory \<longrightarrow> view d' = view d0 \<or> view d' = (view d0)(p \<mapsto> new))"
proof -
  have kept: ?thesis if "placed d0 p t new d" "r \<noteq> Ok () \<Longrightarrow> durable" "r = Ok () \<Longrightarrow> durable \<longrightarrow> p \<notin> set (disk_unsynced d)"
    using remove_keeps_placed[OF assms(4) that(1)] that(2, 3) by (cases r) (auto simp: placed_def)
  have failed: ?thesis if "staged d0 t n f d" "r = Inl e"
      "faults_left d < faults_left d0 \<or> map_option node_kind (view d0 p) = Some Directory" for f e
    using remove_staged[OF assms(4) that(1) assms(2, 3)] that(2, 3) by (auto intro: seen_switch_start)
  show ?thesis
  proof (cases r)
    case (Inl e)
    with assms(1) consider (staged) f where "staged d0 t n f d" "faults_left d < faults_left d0 \<or> map_option node_kind (view d0 p) = Some Directory"
      | (durable) "placed d0 p t new d" durable by auto
    then show ?thesis using failed[OF _ Inl] kept Inl by cases simp_all
  next
    case (Inr u)
    with assms(1) show ?thesis using kept by simp
  qed
qed

lemma publish_outcome:
  fixes options :: record_options and contents :: "u8 list"
  assumes "file_name p = Some f" "wf_disk (pub_disk s)"
    and "map_of (disk_names (pub_disk s)) (temporary_path (directory_of p) f (pub_pid s) k) = None"
  defines "old \<equiv> view (pub_disk s)" and "new \<equiv> new_record s options contents"
  shows "\<exists>r s' t. publish_record_with p contents options s = Some (r, s') \<and> t \<noteq> p \<and> directory_of t = directory_of p \<and> old t = None
    \<and> seen_switch (pub_disk s) p t new (pub_disk s')
    \<and> (case r of
         Inr _ \<Rightarrow> view (pub_disk s') = old(p \<mapsto> new) \<and> (ro_durable options \<longrightarrow> p \<notin> set (disk_unsynced (pub_disk s')))
       | Inl _ \<Rightarrow> (\<forall>q. q \<noteq> t \<longrightarrow> view (pub_disk s') q = old q) \<or> ro_durable options \<and> view (pub_disk s') = old(p \<mapsto> new))
    \<and> (faults_left (pub_disk s) \<le> 1 \<and> map_option node_kind (old p) \<noteq> Some Directory \<longrightarrow>
        view (pub_disk s') = old \<or> view (pub_disk s') = old(p \<mapsto> new))"
proof -
  let ?t = "temporary_path (directory_of p) f (pub_pid s)"
  note parts = temporary_parts[OF assms(1)]
  obtain c s1 where loop: "iterate (create_temporary_round (directory_of p) f) s = Some (c, s1)" and c: "created s (directory_of p) f (c, s1)"
    using create_loop[OF assms(2, 3)] by auto
  show ?thesis
  proof (cases c)
    case (Inl e)
    with c have "seen_since (pub_disk s) (\<lambda>v. v = old) (pub_disk s1)" and same: "view (pub_disk s1) = old"
      by (auto simp: created_def creating_def idle_def old_def intro: view_cong)
    then have "seen_switch (pub_disk s) p (?t k) new (pub_disk s1)"
      by (auto simp: old_def intro!: seen_switch_start elim!: seen_since_weaken)
    moreover have "publish_record_with p contents options s = Some (Err e, s1)"
      using loop Inl assms(1) by (simp add: publish_record_with_def)
    ultimately show ?thesis using same parts assms(3)
      by (rule_tac exI[of _ "Err e"], rule_tac exI[of _ s1], rule_tac exI[of _ "?t k"]) (auto simp: old_def view_def)
  next
    case (Inr x)
    with c obtain t n j where x: "x = (t, n)" and t: "t = ?t j" "map_of (disk_names (pub_disk s)) t = None"
        and st: "staged (pub_disk s) t n \<lparr>node_kind = Regular, node_mode = 0x180, node_owner = pub_uid s, node_bytes = [], node_synced = False\<rparr> (pub_disk s1)"
      by (cases x) (auto simp: created_def)
    obtain r s2 where w: "and_then (on_disk (set_mode n (ro_mode options)) s1) (\<lambda>_ s. and_then (on_disk (file_write_all n contents) s) (\<lambda>_ s.
        and_then (on_disk (sync_all n) s) (\<lambda>_ s. record_replace t p (ro_durable options) s))) = (r, s2)" by (metis surj_pair)
    obtain x' d' where rm: "remove_file t (pub_disk s2) = (x', d')" by (metis surj_pair)
    note pt = parts[of "pub_pid s" j, folded t(1)]
    note out = drop_outcome[OF written_outcome[OF w st assms(2) t(2) pt(3, 1)] assms(2) t(2) rm, folded new_record_def, folded old_def new_def]
    have "publish_record_with p contents options s = Some (r, s2\<lparr>pub_disk := d'\<rparr>)"
      using loop Inr x w rm assms(1) by (simp add: publish_record_with_def temporary_drop_def on_disk_def)
    moreover have "old t = None" using t(2) by (simp add: old_def view_def)
    ultimately show ?thesis
      using out pt by (rule_tac exI[of _ r], rule_tac exI[of _ "s2\<lparr>pub_disk := d'\<rparr>"], rule_tac exI[of _ t]) (simp split: sum.splits del: fun_upd_apply)
  qed
qed


text \<open>A record whose replacement fails on the way: the write stores two bytes and fails.\<close>

definition example_publisher :: publisher where
  "example_publisher = \<lparr>pub_disk = \<lparr>disk_names = [(''run/record'', 0)],
      disk_nodes = (\<lambda>_. \<lparr>node_kind = Regular, node_mode = 0x180, node_owner = 7, node_bytes = [1], node_synced = True\<rparr>),
      disk_fresh = 1, disk_faults = [None, None, Some (plain_error ErrorKind_Other, 2)], disk_unsynced = [], disk_log = []\<rparr>,
    pub_next = 0, pub_pid = 42, pub_uid = 7\<rparr>"

lemma example_facts:
  "file_name ''run/record'' = Some ''record''" "wf_disk (pub_disk example_publisher)"
  "map_of (disk_names (pub_disk example_publisher)) (temporary_path (directory_of ''run/record'') ''record'' (pub_pid example_publisher) 0) = None"
  "faults_left (pub_disk example_publisher) = 1"
  "map_option node_kind (view (pub_disk example_publisher) ''run/record'') = Some Regular"
  by code_simp+


section \<open>Reading and conditional updates\<close>

text \<open>No fault claims that a name is missing when it is there.\<close>

definition honest_faults :: "disk \<Rightarrow> bool" where
  "honest_faults d \<longleftrightarrow> (\<forall>(e, k) \<in> set (List.map_filter id (disk_faults d)). io_kind e \<noteq> ErrorKind_NotFound)"

lemma next_fault_honest:
  assumes "next_fault d = (x, d')" "honest_faults d"
  shows "honest_faults d' \<and> (\<forall>e k. x = Some (e, k) \<longrightarrow> io_kind e \<noteq> ErrorKind_NotFound)"
  using assms by (cases "disk_faults d") (auto simp: next_fault_def honest_faults_def map_filter_simps split: option.splits)

text \<open>Operations that only look: what they return is a function of the names and nodes.\<close>

definition looked :: "publisher \<Rightarrow> publisher \<Rightarrow> bool" where
  "looked s0 s \<longleftrightarrow> idle (pub_disk s0) (pub_disk s) \<and> honest_faults (pub_disk s)
    \<and> pub_next s = pub_next s0 \<and> pub_pid s = pub_pid s0 \<and> pub_uid s = pub_uid s0"

lemma looked_start: "honest_faults (pub_disk s) \<Longrightarrow> looked s s"
  by (auto simp: looked_def idle_def seen_since_def)

lemma looked_view: "looked s0 s \<Longrightarrow> view (pub_disk s) = view (pub_disk s0)"
  by (auto simp: looked_def idle_def intro: view_cong)

lemma looking:
  assumes "on_disk (attempt (\<lambda>d. (g d, d))) s = (r, s')" "looked s0 s"
    and "\<And>d d'. disk_names d' = disk_names d \<Longrightarrow> disk_nodes d' = disk_nodes d \<Longrightarrow> g d' = g d"
  shows "looked s0 s' \<and> (r = g (pub_disk s0) \<or> (\<exists>e. r = Inl e \<and> io_kind e \<noteq> ErrorKind_NotFound))"
proof -
  obtain x d1 where n: "next_fault (pub_disk s) = (x, d1)" by (metis surj_pair)
  have s: "idle (pub_disk s0) (pub_disk s)" "honest_faults (pub_disk s)" using assms(2) by (simp_all add: looked_def)
  note facts = next_fault_cases[OF n] and honest = next_fault_honest[OF n s(2)]
  have "g d1 = g (pub_disk s0)"
    using assms(3)[of d1 "pub_disk s0"] s(1) same_disk_simps[OF facts(1)] by (simp add: idle_def)
  moreover have "idle (pub_disk s0) (noting d1)" using idle_note[OF s(1) facts(1)] facts(2) by (simp split: if_splits)
  moreover have "honest_faults (noting d1)" using honest by (simp add: honest_faults_def)
  ultimately show ?thesis
    using assms(1, 2) n honest by (auto simp: on_disk_def attempt_def looked_def split: option.splits)
qed

lemma resolve_cong: "disk_names d' = disk_names d \<Longrightarrow> disk_nodes d' = disk_nodes d \<Longrightarrow> resolve k d' p = resolve k d p"
  by (induction k arbitrary: p) (simp_all split: option.splits)

definition find_record :: "bool \<Rightarrow> path \<Rightarrow> disk \<Rightarrow> io_error + nat" where
  "find_record nofollow p d = (if nofollow then (case map_of (disk_names d) p of
        None \<Rightarrow> Err (plain_error ErrorKind_NotFound)
      | Some n \<Rightarrow> if node_kind (disk_nodes d n) = Symlink then Err too_many_links else Ok n)
     else (case resolve 40 d p of
        Inl ErrorKind_NotFound \<Rightarrow> Err (plain_error ErrorKind_NotFound)
      | Inl _ \<Rightarrow> Err too_many_links
      | Inr n \<Rightarrow> Ok n))"

lemma open_record_looks:
  assumes "open_record nofollow p s = (r, s')" "looked s0 s"
  shows "looked s0 s' \<and> (r = find_record nofollow p (pub_disk s0) \<or> (\<exists>e. r = Inl e \<and> io_kind e \<noteq> ErrorKind_NotFound))"
proof (rule looking[where g = "find_record nofollow p", OF _ assms(2)])
  show "on_disk (attempt (\<lambda>d. (find_record nofollow p d, d))) s = (r, s')"
    using assms(1) unfolding open_record_def open_read_def find_record_def .
next
  fix d d' :: disk
  assume same: "disk_names d' = disk_names d" "disk_nodes d' = disk_nodes d"
  show "find_record nofollow p d' = find_record nofollow p d"
    unfolding find_record_def resolve_cong[OF same] same ..
qed

lemma file_metadata_looks:
  assumes "on_disk (file_metadata n) s = (r, s')" "looked s0 s"
  shows "looked s0 s' \<and> (r = Ok (disk_nodes (pub_disk s0) n) \<or> (\<exists>e. r = Inl e))"
  using looking[where g = "\<lambda>d. Ok (disk_nodes d n)", OF assms(1)[unfolded file_metadata_def] assms(2)] by fastforce

lemma read_to_end_looks:
  assumes "on_disk (read_to_end limit n) s = (r, s')" "looked s0 s"
  shows "looked s0 s' \<and> (r = Ok (take limit (node_bytes (disk_nodes (pub_disk s0) n))) \<or> (\<exists>e. r = Inl e))"
  using looking[where g = "\<lambda>d. if node_kind (disk_nodes d n) = Directory then Err is_directory else Ok (take limit (node_bytes (disk_nodes d n)))",
      OF assms(1)[unfolded read_to_end_def] assms(2)] by (fastforce split: if_splits)

text \<open>What reading a slot should return for what its name refers to.\<close>

definition current_record :: "u64 \<Rightarrow> node option \<Rightarrow> io_error + u8 list option" where
  "current_record limit v = (case v of
      None \<Rightarrow> Ok None
    | Some f \<Rightarrow>
        if node_kind f \<noteq> Regular then Err not_regular
        else if length (node_bytes f) > unat limit then Err (io_error_new ErrorKind_InvalidData ''record is longer than its read limit'')
        else Ok (Some (node_bytes f)))"

lemma saturating_take:
  fixes limit :: u64
  assumes "length xs < 2 ^ 64"
  defines "c \<equiv> take (unat (saturating_add limit 1)) xs"
  shows "length c > unat limit \<longleftrightarrow> length xs > unat limit" "length xs \<le> unat limit \<Longrightarrow> c = xs"
proof -
  have "unat (saturating_add limit 1) = min (unat limit + 1) (2 ^ 64 - 1)" by (simp add: unat_saturating_add)
  moreover have "unat limit < 2 ^ 64" using unsigned_less[of limit] by simp
  ultimately show "length c > unat limit \<longleftrightarrow> length xs > unat limit" "length xs \<le> unat limit \<Longrightarrow> c = xs"
    using assms(1) unfolding c_def by (auto simp del: unat_saturating_add)
qed

lemma read_bounded_looks:
  fixes limit :: u64
  assumes "and_then (on_disk (read_to_end (unat (saturating_add limit 1)) n) s1) (\<lambda>contents s. if length contents > unat limit
       then (Err too_long, s) else (Ok (Some contents), s)) = (r, s')" "looked s s1"
    and "length (node_bytes (disk_nodes (pub_disk s) n)) < 2 ^ 64"
  shows "looked s s' \<and> (r = (if length (node_bytes (disk_nodes (pub_disk s) n)) > unat limit then Err too_long
    else Ok (Some (node_bytes (disk_nodes (pub_disk s) n)))) \<or> (\<exists>e. r = Inl e))"
  using assms(1)
proof (cases rule: and_thenE)
  case (error e)
  then show ?thesis using read_to_end_looks[OF _ assms(2)] by blast
next
  case (step c s2)
  then have c: "looked s s2" "c = take (unat (saturating_add limit 1)) (node_bytes (disk_nodes (pub_disk s) n))"
    using read_to_end_looks[OF step(1) assms(2)] by auto
  note bounded = saturating_take[OF assms(3), of limit, folded c(2)]
  show ?thesis
  proof (cases "length c > unat limit")
    case True
    with step(2) have "r = Err too_long" "s' = s2" by simp_all
    with c(1) show ?thesis by simp
  next
    case False
    with step(2) have "r = Ok (Some c)" "s' = s2" by simp_all
    with c(1) False bounded show ?thesis by simp
  qed
qed

lemma read_regular_looks:
  assumes "read_regular p limit s = (r, s')" "honest_faults (pub_disk s)"
    and short: "\<And>f. view (pub_disk s) p = Some f \<Longrightarrow> length (node_bytes f) < 2 ^ 64"
  shows "looked s s' \<and> (r = current_record limit (view (pub_disk s) p) \<or> (\<exists>e. r = Inl e))"
proof -
  obtain o1 s1 where o1: "open_record True p s = (o1, s1)" by (metis surj_pair)
  note l1 = open_record_looks[OF o1 looked_start[OF assms(2)]]
  show ?thesis
  proof (cases o1)
    case (Inl e)
    have missing: "map_of (disk_names (pub_disk s)) p = None" if "io_kind e = ErrorKind_NotFound"
      using l1 Inl that by (auto simp: find_record_def too_many_links_def split: option.splits if_splits)
    have "s' = s1" "r = (if io_kind e = ErrorKind_NotFound then Ok None else if io_os e = Some ELOOP then Err not_regular else Err e)"
      using assms(1) o1 Inl by (auto simp: read_regular_def split: if_splits)
    then show ?thesis using l1 missing by (auto simp: current_record_def view_def)
  next
    case (Inr n)
    then have n: "view (pub_disk s) p = Some (disk_nodes (pub_disk s) n)"
      using l1 by (auto simp: find_record_def view_def split: option.splits if_splits)
    from assms(1) o1 Inr have "and_then (on_disk (file_metadata n) s1) (\<lambda>metadata s. if node_kind metadata \<noteq> Regular then (Err not_regular, s)
         else and_then (on_disk (read_to_end (unat (saturating_add limit 1)) n) s) (\<lambda>contents s. if length contents > unat limit
         then (Err (io_error_new ErrorKind_InvalidData ''record is longer than its read limit''), s) else (Ok (Some contents), s))) = (r, s')"
      by (simp add: read_regular_def)
    then show ?thesis
    proof (cases rule: and_thenE)
      case (error e)
      then show ?thesis using file_metadata_looks[OF _ conjunct1[OF l1]] by blast
    next
      case (step f s2)
      then have f: "looked s s2" "f = disk_nodes (pub_disk s) n" using file_metadata_looks[OF _ conjunct1[OF l1]] by blast+
      show ?thesis
      proof (cases "node_kind f = Regular")
        case False
        then show ?thesis using step(2) f n by (simp add: current_record_def)
      next
        case True
        with step(2) show ?thesis using read_bounded_looks[OF _ f(1), of limit n] short[OF n] f(2) n by (simp add: current_record_def)
      qed
    qed
  qed
qed

text \<open>Publishing after having only looked.\<close>

lemma publish_after_look:
  assumes "looked s s1" "file_name p = Some f" "wf_disk (pub_disk s)"
    and "map_of (disk_names (pub_disk s)) (temporary_path (directory_of p) f (pub_pid s) k) = None"
  shows "\<exists>r s'. publish_record_with p contents options s1 = Some (r, s')
    \<and> (case r of
         Inr _ \<Rightarrow> view (pub_disk s') p = Some (new_record s options contents)
       | Inl _ \<Rightarrow> view (pub_disk s') p = view (pub_disk s) p \<or> ro_durable options \<and> view (pub_disk s') p = Some (new_record s options contents))"
proof -
  have s1: "disk_names (pub_disk s1) = disk_names (pub_disk s)" "disk_fresh (pub_disk s1) = disk_fresh (pub_disk s)"
    "pub_pid s1 = pub_pid s" "pub_uid s1 = pub_uid s" using assms(1) by (simp_all add: looked_def idle_def)
  have wf: "wf_disk (pub_disk s1)" using assms(3) s1 by (simp add: wf_disk_def)
  have nr: "new_record s1 options contents = new_record s options contents" using s1 by (simp add: new_record_def)
  have free: "map_of (disk_names (pub_disk s1)) (temporary_path (directory_of p) f (pub_pid s1) k) = None" using assms(4) s1 by simp
  obtain r s' t where "publish_record_with p contents options s1 = Some (r, s')" "t \<noteq> p"
    "case r of
         Inr _ \<Rightarrow> view (pub_disk s') = (view (pub_disk s))(p \<mapsto> new_record s options contents) \<and> (ro_durable options \<longrightarrow> p \<notin> set (disk_unsynced (pub_disk s')))
       | Inl _ \<Rightarrow> (\<forall>q. q \<noteq> t \<longrightarrow> view (pub_disk s') q = view (pub_disk s) q) \<or>
           ro_durable options \<and> view (pub_disk s') = (view (pub_disk s))(p \<mapsto> new_record s options contents)"
    using publish_outcome[OF assms(2) wf free, of contents options] unfolding nr looked_view[OF assms(1)]
    by (elim exE conjE) (rule that)
  then show ?thesis by (rule_tac exI[of _ r], rule_tac exI[of _ s']) (auto split: sum.splits)
qed

lemma remove_after_look:
  assumes "looked s s1" "on_disk (remove_file p) s1 = (r, s')" "view (pub_disk s) p \<noteq> None"
  shows "view (pub_disk s') = (case r of Inr _ \<Rightarrow> (view (pub_disk s))(p := None) | Inl _ \<Rightarrow> view (pub_disk s))"
  using on_diskD(1)[OF assms(2)] unfolding remove_file_def
proof (cases rule: attemptE)
  case (fault e d1)
  then show ?thesis using looked_view[OF assms(1)] by (simp add: same_disk_simps)
next
  case (effect d1 d2)
  note same = same_disk_simps[OF effect(1)]
  have "map_of (disk_names (pub_disk s1)) p \<noteq> None" using assms(3) looked_view[OF assms(1)] by (metis view_def option.simps(8))
  with effect(3) same have d2: "r = Ok ()" "d2 = d1\<lparr>disk_names := without p (disk_names d1)\<rparr>" by auto
  have "view d2 = (view (pub_disk s1))(p := None)" by (rule ext) (simp add: d2 view_def same)
  then show ?thesis using effect(4) d2(1) looked_view[OF assms(1)] by (simp del: fun_upd_apply)
qed

lemma replace_if_conditional:
  assumes "file_name (slot_path slot) = Some f" "wf_disk (pub_disk s)" "honest_faults (pub_disk s)"
    and "map_of (disk_names (pub_disk s)) (temporary_path (directory_of (slot_path slot)) f (pub_pid s) k) = None"
    and "\<And>r. view (pub_disk s) (slot_path slot) = Some r \<Longrightarrow> length (node_bytes r) < 2 ^ 64"
  defines "current \<equiv> current_record (ro_read_limit (slot_options slot)) (view (pub_disk s) (slot_path slot))"
  shows "case slot_replace_if (Ok True) slot contents accept s of
      None \<Rightarrow> False
    | Some (Inl _, s') \<Rightarrow> view (pub_disk s') (slot_path slot) = view (pub_disk s) (slot_path slot) \<or>
        ro_durable (slot_options slot) \<and> view (pub_disk s') (slot_path slot) = Some (new_record s (slot_options slot) contents) \<and> (\<exists>c. current = Ok c \<and> accept c)
    | Some (Inr changed, s') \<Rightarrow> \<exists>c. current = Ok c \<and> changed = accept c \<and>
        view (pub_disk s') (slot_path slot) = (if changed then Some (new_record s (slot_options slot) contents) else view (pub_disk s) (slot_path slot))"
proof -
  obtain r s1 where rd: "read_regular (slot_path slot) (ro_read_limit (slot_options slot)) s = (r, s1)" by (metis surj_pair)
  note l = read_regular_looks[OF rd assms(3, 5), folded current_def]
  note v = looked_view[OF conjunct1[OF l]]
  show ?thesis
  proof (cases r)
    case (Inl e)
    then show ?thesis by (simp add: slot_replace_if_def slot_lock_def rd v)
  next
    case (Inr c)
    with l have c: "current = Ok c" by auto
    obtain x s' where "publish_record_with (slot_path slot) contents (slot_options slot) s1 = Some (x, s')"
      "case x of
         Inr _ \<Rightarrow> view (pub_disk s') (slot_path slot) = Some (new_record s (slot_options slot) contents)
       | Inl _ \<Rightarrow> view (pub_disk s') (slot_path slot) = view (pub_disk s) (slot_path slot) \<or>
           ro_durable (slot_options slot) \<and> view (pub_disk s') (slot_path slot) = Some (new_record s (slot_options slot) contents)"
      using publish_after_look[OF conjunct1[OF l] assms(1, 2, 4), of contents "slot_options slot"] by blast
    then show ?thesis using Inr c
      by (cases "accept c"; cases x) (auto simp: slot_replace_if_def slot_lock_def rd v published_def)
  qed
qed

lemma remove_if_conditional:
  assumes "honest_faults (pub_disk s)" and "\<And>r. view (pub_disk s) (slot_path slot) = Some r \<Longrightarrow> length (node_bytes r) < 2 ^ 64"
  defines "current \<equiv> current_record (ro_read_limit (slot_options slot)) (view (pub_disk s) (slot_path slot))"
  shows "case slot_remove_if (Ok True) slot accept s of
      (Inl _, s') \<Rightarrow> view (pub_disk s') = view (pub_disk s)
    | (Inr removed, s') \<Rightarrow> \<exists>c. current = Ok c \<and> removed = (case c of None \<Rightarrow> False | Some bytes \<Rightarrow> accept bytes) \<and>
        view (pub_disk s') = (if removed then (view (pub_disk s))(slot_path slot := None) else view (pub_disk s))"
proof -
  obtain r s1 where rd: "read_regular (slot_path slot) (ro_read_limit (slot_options slot)) s = (r, s1)" by (metis surj_pair)
  note l = read_regular_looks[OF rd assms(1, 2), folded current_def]
  note v = looked_view[OF conjunct1[OF l]]
  obtain x s2 where rm: "on_disk (remove_file (slot_path slot)) s1 = (x, s2)" by (metis surj_pair)
  show ?thesis
  proof (cases r)
    case (Inl e)
    then show ?thesis by (simp add: slot_remove_if_def slot_lock_def rd v and_then_def)
  next
    case (Inr c)
    with l have c: "current = Ok c" by auto
    then have there: "view (pub_disk s) (slot_path slot) \<noteq> None" if "c \<noteq> None"
      using that by (auto simp: current_def current_record_def split: option.splits)
    note gone = remove_after_look[OF conjunct1[OF l] rm]
    show ?thesis using Inr c there gone
      by (cases c; cases x) (auto simp: slot_remove_if_def slot_lock_def rd v rm and_then_def simp del: fun_upd_apply)
  qed
qed

text \<open>C37: A slot changes only a record its caller accepts. Under the slot lock, whatever operations
  fail: \<^verbatim>\<open>replace_if\<close> returns, reports true exactly when the predicate accepts the record that is there,
  with the new record then in place, and otherwise leaves it; \<^verbatim>\<open>remove_if\<close> reports true exactly when a
  record is there and accepted, which is then gone while every other name stays, and otherwise changes
  nothing. A record that is not a regular file or too long is refused by both.
\<close>

theorem slot_updates_are_conditional:
  fixes contents :: "u8 list"
  assumes "file_name (slot_path slot) = Some f" "wf_disk (pub_disk s)" "honest_faults (pub_disk s)"
    and "map_of (disk_names (pub_disk s)) (temporary_path (directory_of (slot_path slot)) f (pub_pid s) k) = None"
    and "\<And>r. view (pub_disk s) (slot_path slot) = Some r \<Longrightarrow> length (node_bytes r) < 2 ^ 64"
  defines "p \<equiv> slot_path slot" and "old \<equiv> view (pub_disk s)" and "new \<equiv> new_record s (slot_options slot) contents"
    and "current \<equiv> current_record (ro_read_limit (slot_options slot)) (view (pub_disk s) (slot_path slot))"
  shows "(case slot_replace_if (Ok True) slot contents accept s of
      None \<Rightarrow> False
    | Some (Inl _, s') \<Rightarrow> view (pub_disk s') p = old p \<or>
        ro_durable (slot_options slot) \<and> view (pub_disk s') p = Some new \<and> (\<exists>c. current = Ok c \<and> accept c)
    | Some (Inr changed, s') \<Rightarrow> \<exists>c. current = Ok c \<and> changed = accept c \<and>
        view (pub_disk s') p = (if changed then Some new else old p))
   \<and> (case slot_remove_if (Ok True) slot accept_bytes s of
      (Inl _, s') \<Rightarrow> view (pub_disk s') = old
    | (Inr removed, s') \<Rightarrow> \<exists>c. current = Ok c \<and> removed = (case c of None \<Rightarrow> False | Some bytes \<Rightarrow> accept_bytes bytes) \<and>
        view (pub_disk s') = (if removed then old(p := None) else old))"
  unfolding p_def old_def new_def current_def
  by (rule conjI, rule replace_if_conditional[OF assms(1-4)], erule assms(5), rule remove_if_conditional[OF assms(3)], erule assms(5))

theorem slot_updates_are_conditional_witness:
  "case slot_remove_if (Ok True) (record_slot_new ''run/record'') (\<lambda>bytes. bytes = [1]) (example_publisher\<lparr>pub_disk := (pub_disk example_publisher)\<lparr>disk_faults := []\<rparr>\<rparr>) of
     (Inl _, s') \<Rightarrow> False
   | (Inr removed, s') \<Rightarrow> removed \<and> view (pub_disk s') ''run/record'' = None"
proof -
  let ?s = "example_publisher\<lparr>pub_disk := (pub_disk example_publisher)\<lparr>disk_faults := []\<rparr>\<rparr>" and ?slot = "record_slot_new ''run/record''"
  have facts: "file_name (slot_path ?slot) = Some ''record''" "wf_disk (pub_disk ?s)" "honest_faults (pub_disk ?s)"
    "map_of (disk_names (pub_disk ?s)) (temporary_path (directory_of (slot_path ?slot)) ''record'' (pub_pid ?s) 0) = None"
    "view (pub_disk ?s) (slot_path ?slot) = Some \<lparr>node_kind = Regular, node_mode = 0x180, node_owner = 7, node_bytes = [1], node_synced = True\<rparr>"
    "current_record (ro_read_limit (slot_options ?slot)) (view (pub_disk ?s) (slot_path ?slot)) = Ok (Some [1])"
    "\<not> isl (fst (slot_remove_if (Ok True) ?slot (\<lambda>bytes. bytes = [1]) ?s))"
    by code_simp+
  have len: "length (node_bytes r) < 2 ^ 64" if "view (pub_disk ?s) (slot_path ?slot) = Some r" for r
    using facts(5) that by auto
  obtain b s' where out: "slot_remove_if (Ok True) ?slot (\<lambda>bytes. bytes = [1]) ?s = (Inr b, s')"
    using facts(7) by (metis isl_def surj_pair sum.collapse(2) fst_conv)
  note C = slot_updates_are_conditional[OF facts(1-4) len, of "[]" "\<lambda>_. True" "\<lambda>bytes. bytes = [1]", THEN conjunct2, unfolded out facts(6)]
  then show ?thesis unfolding out by (auto simp: record_slot_new_def)
qed

end
