(* ===== verification/Allocation.thy ===== *)
theory Allocation
  imports Publication
begin

text \<open>
  Allocation of generation numbers: \<^verbatim>\<open>generation::allocate\<close>, with what it uses of \<^verbatim>\<open>str\<close>: decoding
  UTF-8, trimming white space and parsing a number with its errors. The lock the caller holds is
  that no other process changes the disk meanwhile.
\<close>

section \<open>Text\<close>

text \<open>The first scalar value of well-formed UTF-8, and the bytes after it.\<close>

definition continuation :: "u8 \<Rightarrow> bool" where
  "continuation b \<longleftrightarrow> 0x80 \<le> b \<and> b \<le> 0xBF"

definition utf8_next :: "u8 list \<Rightarrow> (nat \<times> u8 list) option" where
  "utf8_next bytes = (case bytes of
      [] \<Rightarrow> None
    | a # r1 \<Rightarrow>
        if a < 0x80 then Some (unat a, r1)
        else (case r1 of
          [] \<Rightarrow> None
        | b # r2 \<Rightarrow>
            if 0xC2 \<le> a \<and> a \<le> 0xDF \<and> continuation b then Some ((unat a - 0xC0) * 64 + (unat b - 0x80), r2)
            else (case r2 of
              [] \<Rightarrow> None
            | c # r3 \<Rightarrow>
                if 0xE0 \<le> a \<and> a \<le> 0xEF \<and> continuation b \<and> continuation c \<and> (a = 0xE0 \<longrightarrow> 0xA0 \<le> b) \<and> (a = 0xED \<longrightarrow> b \<le> 0x9F)
                then Some ((unat a - 0xE0) * 4096 + (unat b - 0x80) * 64 + (unat c - 0x80), r3)
                else (case r3 of
                  [] \<Rightarrow> None
                | d # r4 \<Rightarrow>
                    if 0xF0 \<le> a \<and> a \<le> 0xF4 \<and> continuation b \<and> continuation c \<and> continuation d \<and> (a = 0xF0 \<longrightarrow> 0x90 \<le> b) \<and> (a = 0xF4 \<longrightarrow> b \<le> 0x8F)
                    then Some ((unat a - 0xF0) * 262144 + (unat b - 0x80) * 4096 + (unat c - 0x80) * 64 + (unat d - 0x80), r4)
                    else None))))"

function utf8_decode :: "u8 list \<Rightarrow> nat list option" where
  "utf8_decode bytes = (if bytes = [] then Some []
    else case utf8_next bytes of
      None \<Rightarrow> None
    | Some (c, rest) \<Rightarrow> map_option (\<lambda>cs. c # cs) (utf8_decode rest))"
  by auto
termination
  by (relation "measure length") (auto simp: utf8_next_def split: list.splits if_splits)

declare utf8_decode.simps [simp del]

text \<open>\<^verbatim>\<open>char::is_whitespace\<close>, and \<^verbatim>\<open>str::trim\<close> on scalar values.\<close>

definition white_space :: "nat \<Rightarrow> bool" where
  "white_space c \<longleftrightarrow> c \<in> {0x09, 0x0A, 0x0B, 0x0C, 0x0D, 0x20, 0x85, 0xA0, 0x1680, 0x2028, 0x2029, 0x202F, 0x205F, 0x3000}
    \<or> 0x2000 \<le> c \<and> c \<le> 0x200A"

definition trim_scalars :: "nat list \<Rightarrow> nat list" where
  "trim_scalars cs = rev (dropWhile white_space (rev (dropWhile white_space cs)))"

text \<open>\<^verbatim>\<open>str::parse::<u64>\<close>, digit by digit, with the text of its error.\<close>

fun parse_digits :: "nat \<Rightarrow> nat list \<Rightarrow> string + nat" where
  "parse_digits acc [] = Ok acc"
| "parse_digits acc (c # cs) =
    (if c < 48 \<or> 57 < c then Err ''invalid digit found in string''
     else if 10 * acc + (c - 48) \<ge> 2 ^ 64 then Err ''number too large to fit in target type''
     else parse_digits (10 * acc + (c - 48)) cs)"

definition parse_number :: "nat list \<Rightarrow> string + u64" where
  "parse_number cs = (case cs of
      [] \<Rightarrow> Err ''cannot parse integer from empty string''
    | c # rest \<Rightarrow>
        if rest = [] \<and> (c = 43 \<or> c = 45) then Err ''invalid digit found in string''
        else map_sum id of_nat (parse_digits 0 (if c = 43 then rest else cs)))"

section \<open>Allocating\<close>

definition read_to_string :: "path \<Rightarrow> publisher \<Rightarrow> (io_error + nat list) \<times> publisher" where
  "read_to_string p s =
    and_then (on_disk (open_read False p) s) (\<lambda>n s.
    and_then (on_disk (read_whole n) s) (\<lambda>bytes s.
    case utf8_decode bytes of
      None \<Rightarrow> (Err (io_error_new ErrorKind_InvalidData ''stream did not contain valid UTF-8''), s)
    | Some text \<Rightarrow> (Ok text, s)))"

definition prior_generation :: "path \<Rightarrow> publisher \<Rightarrow> (io_error + u64) \<times> publisher" where
  "prior_generation counter s = (case read_to_string counter s of
      (Inr text, s) \<Rightarrow> (map_sum io_error_other id (parse_number (trim_scalars text)), s)
    | (Inl e, s) \<Rightarrow> if io_kind e = ErrorKind_NotFound then (Ok 0, s) else (Err e, s))"

definition stem_number :: "path \<Rightarrow> u64 option" where
  "stem_number p = (case file_stem p of None \<Rightarrow> None | Some name \<Rightarrow> parse_u64 name)"

fun max_entries :: "path list \<Rightarrow> u64 \<Rightarrow> publisher \<Rightarrow> (io_error + u64) \<times> publisher" where
  "max_entries [] maximum s = (Ok maximum, s)"
| "max_entries (p # ps) maximum s =
    and_then (on_disk (next_entry p) s) (\<lambda>entry s.
    max_entries ps (case stem_number entry of Some v \<Rightarrow> max maximum v | None \<Rightarrow> maximum) s)"

definition checked_succ :: "u64 \<Rightarrow> u64 option" where
  "checked_succ n = (if n = - 1 then None else Some (n + 1))"

definition allocate :: "path \<Rightarrow> path \<Rightarrow> u64 \<Rightarrow> publisher \<Rightarrow> ((io_error + u64) \<times> publisher) option" where
  "allocate directory counter selected s =
    (case
       and_then (prior_generation counter s) (\<lambda>prior s.
       and_then (on_disk (read_dir directory) s) (\<lambda>names s.
       max_entries names (max prior selected) s))
     of
       (Inl e, s) \<Rightarrow> Some (Err e, s)
     | (Inr maximum, s) \<Rightarrow>
         (case checked_succ maximum of
            None \<Rightarrow> Some (Err (io_error_other ''generation exhausted''), s)
          | Some n \<Rightarrow>
              (case publish_record counter (ascii (decimal (unat n))) s of
                 None \<Rightarrow> None
               | Some (Inl e, s) \<Rightarrow> Some (Err e, s)
               | Some (Inr _, s) \<Rightarrow> Some (Ok n, s))))"

section \<open>What the counter holds\<close>

text \<open>The number a record holds, read as the next allocation reads it; none for no record.\<close>

definition counter_value :: "node option \<Rightarrow> u64 option" where
  "counter_value v = (case v of
      None \<Rightarrow> Some 0
    | Some f \<Rightarrow> (case utf8_decode (node_bytes f) of
        None \<Rightarrow> None
      | Some text \<Rightarrow> (case parse_number (trim_scalars text) of Inr n \<Rightarrow> Some n | Inl _ \<Rightarrow> None)))"

lemma utf8_decode_ascii: "\<forall>b \<in> set bytes. b < 0x80 \<Longrightarrow> utf8_decode bytes = Some (map unat bytes)"
  by (induction bytes) (simp_all add: utf8_decode.simps utf8_next_def)

lemma foldl_value_mono: "acc \<le> foldl (\<lambda>n c. 10 * n + digit_value c) acc cs"
proof (induction cs arbitrary: acc)
  case (Cons c cs)
  have "acc \<le> 10 * acc + digit_value c" by simp
  also have "\<dots> \<le> foldl (\<lambda>n c. 10 * n + digit_value c) acc (c # cs)" using Cons by simp
  finally show ?case .
qed simp

lemma parse_digits_value:
  "list_all is_digit cs \<Longrightarrow> foldl (\<lambda>n c. 10 * n + digit_value c) acc cs < 2 ^ 64 \<Longrightarrow>
    parse_digits acc (map of_char cs) = Ok (foldl (\<lambda>n c. 10 * n + digit_value c) acc cs)"
proof (induction cs arbitrary: acc)
  case (Cons c cs)
  have "10 * acc + digit_value c < 2 ^ 64"
    using foldl_value_mono[of "10 * acc + digit_value c" cs] Cons.prems(2) by simp
  with Cons show ?case by (auto simp: is_digit_def digit_value_def)
qed simp

lemma digit_scalar: "is_digit c \<Longrightarrow> \<not> white_space (of_char c) \<and> (of_char c :: nat) \<noteq> 43 \<and> (of_char c :: nat) \<noteq> 45"
  by (auto simp: is_digit_def white_space_def)

lemma trim_scalars_decimal: "trim_scalars (map of_char (decimal n)) = map of_char (decimal n)"
proof -
  have "\<not> white_space x" if "x \<in> set (map of_char (decimal n))" for x
    using decimal_digits[of n] that digit_scalar by (auto simp: list_all_iff)
  then have "dropWhile white_space (map of_char (decimal n)) = map of_char (decimal n)"
    "dropWhile white_space (rev (map of_char (decimal n))) = rev (map of_char (decimal n))"
    by (metis dropWhile_eq_self_iff hd_in_set set_rev)+
  then show ?thesis by (simp add: trim_scalars_def)
qed

lemma parse_number_decimal:
  assumes "n < 2 ^ 64"
  shows "parse_number (map of_char (decimal n)) = Ok (of_nat n)"
proof -
  obtain c cs where d: "decimal n = c # cs" "is_digit c" using decimal_digits[of n] by (cases "decimal n") auto
  have "parse_digits 0 (map of_char (decimal n)) = Ok n"
    using parse_digits_value[of "decimal n" 0] decimal_digits[of n] decimal_value_decimal[of n] assms by (simp add: decimal_value_def)
  with d digit_scalar[OF d(2)] show ?thesis by (simp add: parse_number_def)
qed

lemma unat_of_char: "unat (of_char c :: u8) = of_char c"
proof -
  have "unat (of_nat (of_char c) :: u8) = (of_char c :: nat)"
    using nat_of_char_less_256[of c] by (simp add: unsigned_of_nat take_bit_nat_eq_self)
  then show ?thesis by (simp only: of_nat_of_char)
qed

lemma counter_value_decimal:
  assumes "node_bytes f = ascii (decimal (unat n))"
  shows "counter_value (Some f) = Some n"
proof -
  have small: "(of_char c :: nat) < 0x80" if "c \<in> set (decimal (unat n))" for c
    using decimal_digits[of "unat n"] that by (auto simp: list_all_iff is_digit_def)
  then have "map unat (ascii (decimal (unat n))) = map of_char (decimal (unat n))" "\<forall>b \<in> set (ascii (decimal (unat n))). b < 0x80"
    by (auto simp: ascii_def unat_of_char word_less_nat_alt)
  moreover have "unat n < 2 ^ 64" using unsigned_less[of n] by simp
  ultimately show ?thesis
    using utf8_decode_ascii parse_number_decimal[of "unat n"]
    by (simp add: counter_value_def assms trim_scalars_decimal)
qed

section \<open>Allocation\<close>

lemma max_entries_looks:
  assumes "max_entries ps m s = (r, s')" "looked s0 s"
  shows "looked s0 s' \<and> (\<forall>top. r = Ok top \<longrightarrow> m \<le> top \<and> (\<forall>p \<in> set ps. \<forall>v. stem_number p = Some v \<longrightarrow> v \<le> top))"
  using assms
proof (induction ps arbitrary: m s)
  case (Cons p ps)
  from Cons.prems(1) show ?case unfolding max_entries.simps
  proof (cases rule: and_thenE)
    case (error e)
    then show ?thesis using looking[OF _ Cons.prems(2), of "\<lambda>_. Ok p"] by (auto simp: next_entry_def)
  next
    case (step q s1)
    then have "looked s0 s1" "q = p" using looking[OF _ Cons.prems(2), of "\<lambda>_. Ok p"] by (auto simp: next_entry_def)
    with Cons.IH[OF step(2)] show ?thesis by (cases "stem_number p") auto
  qed
qed auto

lemma read_whole_looks:
  assumes "on_disk (read_whole n) s = (r, s')" "looked s0 s"
  shows "looked s0 s' \<and> (r = Ok (node_bytes (disk_nodes (pub_disk s0) n)) \<or>
    (\<exists>e. r = Inl e \<and> io_kind e \<noteq> ErrorKind_NotFound))"
  using looking[where g = "\<lambda>d. if node_kind (disk_nodes d n) = Directory then Err is_directory else Ok (node_bytes (disk_nodes d n))",
      OF assms(1)[unfolded read_whole_def] assms(2)]
  by (fastforce simp: is_directory_def plain_error_def io_error_new_def split: if_splits)

lemma find_regular:
  assumes "map_option node_kind (view d p) \<in> {None, Some Regular}"
  shows "find_record False p d = (case map_of (disk_names d) p of None \<Rightarrow> Err (plain_error ErrorKind_NotFound) | Some n \<Rightarrow> Ok n)"
proof -
  have "resolve (Suc k) d p = (case map_of (disk_names d) p of None \<Rightarrow> Inl ErrorKind_NotFound | Some n \<Rightarrow> Inr n)" for k
    using assms by (cases "map_of (disk_names d) p") (auto simp: view_def)
  from this[of 39] have "resolve 40 d p = (case map_of (disk_names d) p of None \<Rightarrow> Inl ErrorKind_NotFound | Some n \<Rightarrow> Inr n)" by simp
  then show ?thesis by (simp add: find_record_def split: option.splits)
qed

lemma prior_looks:
  assumes "prior_generation counter s = (r, s')" "honest_faults (pub_disk s)"
    and "map_option node_kind (view (pub_disk s) counter) \<in> {None, Some Regular}"
  shows "looked s s' \<and> (\<forall>v. r = Ok v \<longrightarrow> counter_value (view (pub_disk s) counter) = Some v)"
proof -
  obtain t s1 where rd: "read_to_string counter s = (t, s1)" by (metis surj_pair)
  have "looked s s1 \<and> (case t of
      Inr text \<Rightarrow> \<exists>f. view (pub_disk s) counter = Some f \<and> utf8_decode (node_bytes f) = Some text
    | Inl e \<Rightarrow> io_kind e = ErrorKind_NotFound \<longrightarrow> view (pub_disk s) counter = None)"
    using rd unfolding read_to_string_def
  proof (cases rule: and_thenE)
    case (error e)
    with open_record_looks[OF _ looked_start[OF assms(2)], of False counter] show ?thesis
      by (auto simp: open_record_def find_regular[OF assms(3)] view_def split: option.splits)
  next
    case (step n s2)
    then have n: "looked s s2" "view (pub_disk s) counter = Some (disk_nodes (pub_disk s) n)"
      using open_record_looks[OF _ looked_start[OF assms(2)], of False counter]
      by (auto simp: open_record_def find_regular[OF assms(3)] view_def split: option.splits)
    from step(2) show ?thesis
      by (rule and_thenE) (use read_whole_looks[OF _ n(1)] n(2) in \<open>fastforce simp: io_error_new_def split: option.splits\<close>)+
  qed
  with assms(1) rd show ?thesis
    by (auto simp: prior_generation_def counter_value_def map_sum_def split: sum.splits if_splits)
qed

lemma above_successor: "checked_succ m = Some n \<Longrightarrow> x \<le> m \<Longrightarrow> x < n" for x m n :: u64
proof -
  assume a: "checked_succ m = Some n" "x \<le> m"
  then have n: "n = 1 + m" "1 + m \<noteq> 0" by (auto simp: checked_succ_def add_eq_0_iff split: if_splits)
  with unatSuc[of m] a(2) show "x < n" by (simp add: word_less_nat_alt word_le_nat_alt)
qed

text \<open>Allocating under the lock is fresh and remembered. Whatever operations fail, \<^verbatim>\<open>allocate\<close> returns;
  the generation it returns is above the selected one, above what the counter held, and above the
  number in every name in the directory, and the counter then holds it, so that the next allocation
  is above it. On an error, exhaustion included, the counter is as it was.
\<close>

theorem allocation_is_fresh:
  assumes "file_name counter = Some f" "wf_disk (pub_disk s)" "honest_faults (pub_disk s)"
    and "map_of (disk_names (pub_disk s)) (temporary_path (directory_of counter) f (pub_pid s) k) = None"
    and "map_option node_kind (view (pub_disk s) counter) \<in> {None, Some Regular}"
  shows "case allocate directory counter selected s of
      None \<Rightarrow> False
    | Some (Inl _, s') \<Rightarrow> view (pub_disk s') counter = view (pub_disk s) counter
    | Some (Inr n, s') \<Rightarrow> selected < n
        \<and> (\<exists>prior. counter_value (view (pub_disk s) counter) = Some prior \<and> prior < n)
        \<and> (\<forall>p \<in> set (entries_of directory (pub_disk s)). \<forall>v. stem_number p = Some v \<longrightarrow> v < n)
        \<and> counter_value (view (pub_disk s') counter) = Some n"
proof -
  obtain r s1 where chain: "and_then (prior_generation counter s) (\<lambda>prior s. and_then (on_disk (read_dir directory) s) (\<lambda>names s.
      max_entries names (max prior selected) s)) = (r, s1)" by (metis surj_pair)
  have l: "looked s s1 \<and> (\<forall>top. r = Ok top \<longrightarrow> selected \<le> top
      \<and> (\<exists>prior. counter_value (view (pub_disk s) counter) = Some prior \<and> prior \<le> top)
      \<and> (\<forall>p \<in> set (entries_of directory (pub_disk s)). \<forall>v. stem_number p = Some v \<longrightarrow> v \<le> top))"
    using chain
  proof (cases rule: and_thenE)
    case (error e)
    then show ?thesis using prior_looks[OF _ assms(3, 5)] by auto
  next
    case (step prior s2)
    then have p: "looked s s2" "counter_value (view (pub_disk s) counter) = Some prior" using prior_looks[OF _ assms(3, 5)] by auto
    have d: "looked s t \<and> (\<forall>names. x = Ok names \<longrightarrow> names = entries_of directory (pub_disk s))" if "on_disk (read_dir directory) s2 = (x, t)" for x t
      using looking[OF that[unfolded read_dir_def] p(1)] by (auto simp: entries_of_def)
    from step(2) show ?thesis
      by (rule and_thenE) (use d max_entries_looks p(2) in fastforce)+
  qed
  note v = looked_view[OF conjunct1[OF l]]
  have not_durable: "\<not> ro_durable record_options_new" by (simp add: record_options_new_def)
  show ?thesis
  proof (cases r)
    case (Inl e)
    then show ?thesis using chain v by (simp add: allocate_def)
  next
    case (Inr top)
    show ?thesis
    proof (cases "checked_succ top")
      case None
      then show ?thesis using chain Inr v by (simp add: allocate_def)
    next
      case (Some n)
      obtain x s' where x: "publish_record_with counter (ascii (decimal (unat n))) record_options_new s1 = Some (x, s')"
        "case x of
         Inr _ \<Rightarrow> view (pub_disk s') counter = Some (new_record s record_options_new (ascii (decimal (unat n))))
       | Inl _ \<Rightarrow> view (pub_disk s') counter = view (pub_disk s) counter"
        using publish_after_look[OF conjunct1[OF l] assms(1, 2, 4), of "ascii (decimal (unat n))" record_options_new]
        using not_durable by (elim exE conjE) (rule that, assumption, simp split: sum.splits)
      have "counter_value (Some (new_record s record_options_new (ascii (decimal (unat n))))) = Some n"
        by (rule counter_value_decimal) (simp add: new_record_def)
      with x chain Inr Some l above_successor[OF Some] show ?thesis
        by (cases x) (auto simp: allocate_def publish_record_def)
    qed
  qed
qed

definition example_counter :: publisher where
  "example_counter = \<lparr>pub_disk = \<lparr>disk_names = [(''run/7.sock'', 0), (''run/counter'', 1)],
      disk_nodes = (\<lambda>_. \<lparr>node_kind = Regular, node_mode = 0x180, node_owner = 7, node_bytes = ascii ''3'', node_synced = True\<rparr>),
      disk_fresh = 2, disk_faults = [], disk_unsynced = [], disk_log = []\<rparr>, pub_next = 0, pub_pid = 42, pub_uid = 7\<rparr>"

theorem allocation_is_fresh_witness:
  "case allocate ''run'' ''run/counter'' 5 example_counter of
      None \<Rightarrow> False
    | Some (Inl _, s') \<Rightarrow> view (pub_disk s') ''run/counter'' = view (pub_disk example_counter) ''run/counter''
    | Some (Inr n, s') \<Rightarrow> 5 < n \<and> 7 < n \<and> counter_value (view (pub_disk s') ''run/counter'') = Some n"
proof -
  have facts: "file_name ''run/counter'' = Some ''counter''" "wf_disk (pub_disk example_counter)" "honest_faults (pub_disk example_counter)"
    "map_of (disk_names (pub_disk example_counter)) (temporary_path (directory_of ''run/counter'') ''counter'' (pub_pid example_counter) 0) = None"
    "map_option node_kind (view (pub_disk example_counter) ''run/counter'') \<in> {None, Some Regular}"
    "''run/7.sock'' \<in> set (entries_of ''run'' (pub_disk example_counter))" "stem_number ''run/7.sock'' = Some 7"
    by code_simp+
  then show ?thesis
    using allocation_is_fresh[OF facts(1-5), where directory = "''run''" and selected = 5] by (auto split: option.splits sum.splits)
qed

end
