(* ===== verification/Peer.thy ===== *)
theory Peer
  imports Text
begin

text \<open>
  Process numbers (\<^verbatim>\<open>pid.rs\<close>) and the authentication of the process at the other end of a
  connection (\<^verbatim>\<open>peer.rs\<close>). A policy is a function of the credentials the operating system
  reports; what an expected process closure returns when it is asked is a value.
\<close>

section \<open>Process numbers\<close>

typedef process_id = "{n :: u32. n \<noteq> 0}"
  by (rule exI[of _ 1]) simp

definition process_id_get :: "process_id \<Rightarrow> u32" where
  "process_id_get p = Rep_process_id p"

definition process_id_new :: "u32 \<Rightarrow> process_id option" where
  "process_id_new n = (if n = 0 then None else Some (Abs_process_id n))"

lemma process_id_get_nonzero [simp]: "process_id_get p \<noteq> 0"
  using Rep_process_id[of p] by (simp add: process_id_get_def)

lemma process_id_get_inj [simp]: "process_id_get p = process_id_get q \<longleftrightarrow> p = q"
  by (simp add: process_id_get_def Rep_process_id_inject)

lemma process_id_new_get [simp]: "process_id_new (process_id_get p) = Some p"
  using process_id_get_nonzero[of p] by (simp add: process_id_new_def process_id_get_def Rep_process_id_inverse)

lemma process_id_get_new: "process_id_new n = Some p \<longleftrightarrow> process_id_get p = n"
  by (auto simp: process_id_new_def process_id_get_def Abs_process_id_inverse split: if_splits)
     (use Rep_process_id[of p] in \<open>simp_all add: Rep_process_id_inverse\<close>)

instantiation process_id :: "{equal, linorder}"
begin

definition equal_process_id :: "process_id \<Rightarrow> process_id \<Rightarrow> bool" where
  "equal_process_id p q \<longleftrightarrow> process_id_get p = process_id_get q"

definition less_eq_process_id :: "process_id \<Rightarrow> process_id \<Rightarrow> bool" where
  "less_eq_process_id p q \<longleftrightarrow> process_id_get p \<le> process_id_get q"

definition less_process_id :: "process_id \<Rightarrow> process_id \<Rightarrow> bool" where
  "less_process_id p q \<longleftrightarrow> process_id_get p < process_id_get q"

instance
  by standard (auto simp: equal_process_id_def less_eq_process_id_def less_process_id_def process_id_get_inj[symmetric] simp del: process_id_get_inj)

end

definition process_id_display :: "process_id \<Rightarrow> string" where
  "process_id_display p = decimal (unat (process_id_get p))"

section \<open>Credentials\<close>

datatype user_evidence = UserEvidence_Connection | UserEvidence_PidLookup

record credentials =
  cred_pid :: "process_id option"
  cred_same_user :: bool
  cred_user_evidence :: user_evidence

definition credentials_new :: "process_id option \<Rightarrow> bool \<Rightarrow> credentials" where
  "credentials_new pid same_user =
    \<lparr>cred_pid = pid, cred_same_user = same_user, cred_user_evidence = UserEvidence_Connection\<rparr>"

definition with_user_evidence :: "user_evidence \<Rightarrow> credentials \<Rightarrow> credentials" where
  "with_user_evidence evidence c = c\<lparr>cred_user_evidence := evidence\<rparr>"

definition credentials_eq :: "credentials \<Rightarrow> credentials \<Rightarrow> bool" where
  "credentials_eq a b \<longleftrightarrow> cred_pid a = cred_pid b \<and> cred_same_user a = cred_same_user b"

section \<open>Policies\<close>

datatype rejected =
    Rejected_OtherUser | Rejected_Unreported | Rejected_NoExpectedProcess
  | Rejected_OtherProcess (rejected_expected: process_id) (rejected_observed: process_id)
  | Rejected_NoPolicy | Rejected_Custom string

fun rejected_display :: "rejected \<Rightarrow> string" where
  "rejected_display Rejected_OtherUser = ''the peer runs as another OS user''"
| "rejected_display Rejected_Unreported = ''the connection's peer PID is not available''"
| "rejected_display Rejected_NoExpectedProcess = ''no expected process to compare with''"
| "rejected_display (Rejected_OtherProcess expected observed) =
    ''peer PID '' @ process_id_display observed @ '' is not the expected PID '' @ process_id_display expected"
| "rejected_display Rejected_NoPolicy = ''no policy accepts any peer''"
| "rejected_display (Rejected_Custom reason) = reason"

type_synonym 'g policy = "credentials \<Rightarrow> rejected + 'g"

record pid_match =
  pm_pid :: process_id

definition match_pid :: "process_id option \<Rightarrow> process_id \<Rightarrow> rejected + pid_match" where
  "match_pid observed expected = (case observed of
      None \<Rightarrow> Err Rejected_Unreported
    | Some observed \<Rightarrow>
        if observed = expected then Ok \<lparr>pm_pid = observed\<rparr>
        else Err (Rejected_OtherProcess expected observed))"

definition same_user :: "unit policy" where
  "same_user c = (if cred_same_user c then Ok () else Err Rejected_OtherUser)"

definition expected_process :: "process_id option \<Rightarrow> pid_match policy" where
  "expected_process expected c = (case same_user c of
      Inl r \<Rightarrow> Err r
    | Inr _ \<Rightarrow> (case expected of
        None \<Rightarrow> Err Rejected_NoExpectedProcess
      | Some expected \<Rightarrow> match_pid (cred_pid c) expected))"

text \<open>\<^verbatim>\<open>First\<close>: its tiers in the order they were added.\<close>

type_synonym 'g first = "(credentials \<Rightarrow> rejected + 'g) list"

definition first_default :: "'g first" where
  "first_default = []"

definition first_then :: "'p policy \<Rightarrow> 'g \<Rightarrow> 'g first \<Rightarrow> 'g first" where
  "first_then policy g tiers = tiers @ [\<lambda>c. map_sum id (\<lambda>_. g) (policy c)]"

fun first_tiers :: "rejected \<Rightarrow> 'g first \<Rightarrow> credentials \<Rightarrow> rejected + 'g" where
  "first_tiers rejected [] c = Err rejected"
| "first_tiers rejected (tier # tiers) c = (case tier c of
      Inr g \<Rightarrow> Ok g
    | Inl reason \<Rightarrow> first_tiers reason tiers c)"

definition first_grant :: "'g first \<Rightarrow> 'g policy" where
  "first_grant tiers c = first_tiers Rejected_NoPolicy tiers c"

section \<open>Authenticated connections\<close>

record ('c, 'g) authenticated =
  auth_connection :: 'c
  auth_grant :: 'g
  auth_credentials :: credentials

definition authenticate :: "'c \<Rightarrow> credentials \<Rightarrow> 'g policy \<Rightarrow> rejected + ('c, 'g) authenticated" where
  "authenticate connection c policy = (case policy c of
      Inl r \<Rightarrow> Err r
    | Inr g \<Rightarrow> Ok \<lparr>auth_connection = connection, auth_grant = g, auth_credentials = c\<rparr>)"

definition into_parts :: "('c, 'g) authenticated \<Rightarrow> 'c \<times> 'g \<times> credentials" where
  "into_parts a = (auth_connection a, auth_grant a, auth_credentials a)"

section \<open>What a grant rests on\<close>

text \<open>The contract of a policy that never grants to another user.\<close>

locale own_user_policy =
  fixes policy :: "'g policy"
  assumes grants_own_user: "policy c = Inr g \<Longrightarrow> cred_same_user c"
begin

lemma authenticated_own_user:
  "authenticate connection c policy = Inr a \<Longrightarrow> cred_same_user (auth_credentials a) \<and> auth_connection a = connection"
  using grants_own_user by (auto simp: authenticate_def split: sum.splits)

end

interpretation same_user: own_user_policy same_user
  by unfold_locales (simp add: same_user_def split: if_splits)

interpretation expected: own_user_policy "expected_process e" for e
  by unfold_locales (auto simp: expected_process_def same_user_def split: if_splits)

text \<open>The built-in rules of a list of tiers, and how such a list is built.\<close>

datatype rule = Rule_SameUser | Rule_ExpectedProcess "process_id option"

fun rule_accepts :: "rule \<Rightarrow> credentials \<Rightarrow> bool" where
  "rule_accepts Rule_SameUser c \<longleftrightarrow> cred_same_user c"
| "rule_accepts (Rule_ExpectedProcess e) c \<longleftrightarrow> cred_same_user c \<and> e \<noteq> None \<and> cred_pid c = e"

fun add_rule :: "rule \<times> 'g \<Rightarrow> 'g first \<Rightarrow> 'g first" where
  "add_rule (Rule_SameUser, g) tiers = first_then same_user g tiers"
| "add_rule (Rule_ExpectedProcess e, g) tiers = first_then (expected_process e) g tiers"

definition rule_reason :: "rule \<Rightarrow> credentials \<Rightarrow> rejected" where
  "rule_reason r c = (if \<not> cred_same_user c then Rejected_OtherUser
    else case r of
      Rule_SameUser \<Rightarrow> Rejected_OtherUser
    | Rule_ExpectedProcess None \<Rightarrow> Rejected_NoExpectedProcess
    | Rule_ExpectedProcess (Some e) \<Rightarrow> (case cred_pid c of None \<Rightarrow> Rejected_Unreported | Some p \<Rightarrow> Rejected_OtherProcess e p))"

definition rule_tier :: "rule \<times> 'g \<Rightarrow> credentials \<Rightarrow> rejected + 'g" where
  "rule_tier = (\<lambda>(r, g) c. if rule_accepts r c then Ok g else Err (rule_reason r c))"

lemma add_rule_tier: "add_rule x tiers = tiers @ [rule_tier x]"
proof (cases x)
  case (Pair r g)
  have "map_sum id (\<lambda>_. g) (same_user c) = rule_tier (Rule_SameUser, g) c" for c
    by (simp add: rule_tier_def same_user_def rule_reason_def)
  moreover have "map_sum id (\<lambda>_. g) (expected_process e c) = rule_tier (Rule_ExpectedProcess e, g) c" for e c
    by (auto simp: rule_tier_def expected_process_def same_user_def match_pid_def rule_reason_def split: option.splits)
  ultimately show ?thesis using Pair by (cases r) (simp_all add: first_then_def)
qed

lemma fold_add_rule: "fold add_rule xs tiers = tiers @ map rule_tier xs"
  by (induction xs arbitrary: tiers) (simp_all add: add_rule_tier)

lemma first_tiers_find:
  "first_tiers rejected (map rule_tier xs) c = (case find (\<lambda>(r, _). rule_accepts r c) xs of
      Some (_, g) \<Rightarrow> Ok g
    | None \<Rightarrow> Err (if xs = [] then rejected else rule_reason (fst (last xs)) c))"
  by (induction xs arbitrary: rejected) (auto simp: rule_tier_def split: option.splits)

interpretation listed: own_user_policy "first_grant (fold add_rule rules first_default)" for rules
proof unfold_locales
  fix c g
  assume "first_grant (fold add_rule rules first_default) c = Inr g"
  then obtain r where "rule_accepts r c"
    by (auto simp: first_grant_def fold_add_rule first_default_def first_tiers_find find_Some_iff case_prod_beta split: option.splits)
  then show "cred_same_user c" by (cases r) auto
qed



end
