(* ===== verification/Connect.thy ===== *)
theory Connect
  imports Peer
begin

text \<open>
  Connecting to a local endpoint: the platform-independent part of \<^verbatim>\<open>local/mod.rs\<close>. One attempt is a
  parameter: a function of the time it starts and of the state of the host, which answers after some
  time.
\<close>

section \<open>Failures\<close>

datatype connect_error =
    ConnectError_ConnectTimeout | ConnectError_PermissionDenied | ConnectError_EndpointTooLong
  | ConnectError_Failed error_kind

text \<open>\<^verbatim>\<open>kind_text\<close> is how the standard library prints an \<^verbatim>\<open>ErrorKind\<close>.\<close>

fun connect_error_display :: "(error_kind \<Rightarrow> string) \<Rightarrow> connect_error \<Rightarrow> string" where
  "connect_error_display kind_text ConnectError_ConnectTimeout = ''daemon connection timed out''"
| "connect_error_display kind_text ConnectError_PermissionDenied = ''daemon endpoint permission denied''"
| "connect_error_display kind_text ConnectError_EndpointTooLong = ''daemon endpoint path is too long for a Unix socket''"
| "connect_error_display kind_text (ConnectError_Failed kind) = ''daemon connection failed: '' @ kind_text kind"

definition connect_error_is_transient :: "connect_error \<Rightarrow> bool" where
  "connect_error_is_transient e \<longleftrightarrow> e = ConnectError_ConnectTimeout"

definition ERROR_PIPE_BUSY :: nat where "ERROR_PIPE_BUSY = 231"

text \<open>\<^verbatim>\<open>windows\<close> says which platform the crate is built for.\<close>

definition busy_pipe :: "bool \<Rightarrow> io_error \<Rightarrow> bool" where
  "busy_pipe windows e \<longleftrightarrow> windows \<and> io_os e = Some ERROR_PIPE_BUSY"

definition is_transient :: "bool \<Rightarrow> io_error \<Rightarrow> bool" where
  "is_transient windows e \<longleftrightarrow>
    io_kind e \<in> {ErrorKind_NotFound, ErrorKind_ConnectionRefused, ErrorKind_ConnectionReset, ErrorKind_ConnectionAborted,
      ErrorKind_NotConnected, ErrorKind_UnexpectedEof, ErrorKind_BrokenPipe, ErrorKind_TimedOut, ErrorKind_WouldBlock,
      ErrorKind_Interrupted}
    \<or> busy_pipe windows e"

definition connect_error_of :: "bool \<Rightarrow> io_error \<Rightarrow> connect_error" where
  "connect_error_of windows e =
    (if io_kind e = ErrorKind_PermissionDenied then ConnectError_PermissionDenied
     else if is_transient windows e then ConnectError_ConnectTimeout
     else ConnectError_Failed (io_kind e))"

section \<open>Attempts\<close>

definition CONNECT_BUDGET :: duration where "CONNECT_BUDGET = from_millis 5000"
definition RETRY_INTERVAL :: duration where "RETRY_INTERVAL = from_millis 50"

type_synonym ('h, 's) attempts = "instant \<Rightarrow> instant \<Rightarrow> 'h \<Rightarrow> (connect_error + 's) \<times> duration \<times> 'h"

definition connect_once_until :: "('h, 's) attempts \<Rightarrow> instant \<Rightarrow> 'h \<times> clock \<Rightarrow> (connect_error + 's) \<times> 'h \<times> clock" where
  "connect_once_until attempt deadline = (\<lambda>(h, c).
    let (r, took, h) = attempt deadline (time c) h in (r, h, elapse took c))"

definition connect_round ::
    "('h, 's) attempts \<Rightarrow> instant \<Rightarrow> 'h \<times> clock \<Rightarrow> ((connect_error + 's) \<times> 'h \<times> clock, 'h \<times> clock) control" where
  "connect_round attempt deadline hc =
    (case connect_once_until attempt deadline hc of
       (Inr connected, hc) \<Rightarrow> Break (Ok connected, hc)
     | (Inl e, h, c) \<Rightarrow>
         if \<not> connect_error_is_transient e then Break (Err e, h, c)
         else let (left, c) = remaining deadline c in
           if left = 0 then Break (Err e, h, c)
           else Continue (h, sleep (min RETRY_INTERVAL left) c))"

definition connect_until ::
    "('h, 's) attempts \<Rightarrow> instant \<Rightarrow> 'h \<times> clock \<Rightarrow> ((connect_error + 's) \<times> 'h \<times> clock) option" where
  "connect_until attempt deadline hc = iterate (connect_round attempt deadline) hc"

text \<open>\<^verbatim>\<open>None\<close> stands for the panic of \<^verbatim>\<open>Instant::now() + CONNECT_BUDGET\<close> past the last instant.\<close>

definition connect_once :: "('h, 's) attempts \<Rightarrow> 'h \<times> clock \<Rightarrow> ((connect_error + 's) \<times> 'h \<times> clock) option" where
  "connect_once attempt = (\<lambda>(h, c).
    let (deadline, c) = now_plus CONNECT_BUDGET c in
    map_option (\<lambda>deadline. connect_once_until attempt deadline (h, c)) deadline)"

definition connect :: "('h, 's) attempts \<Rightarrow> 'h \<times> clock \<Rightarrow> ((connect_error + 's) \<times> 'h \<times> clock) option" where
  "connect attempt = (\<lambda>(h, c).
    let (deadline, c) = now_plus CONNECT_BUDGET c in
    case deadline of None \<Rightarrow> None | Some deadline \<Rightarrow> connect_until attempt deadline (h, c))"

section \<open>Retrying\<close>

text \<open>An attempt that also writes down when it started and what it came to.\<close>

definition noted_attempt :: "('h, 's) attempts \<Rightarrow> ('h \<times> (instant \<times> (connect_error + 's)) list, 's) attempts" where
  "noted_attempt attempt deadline t = (\<lambda>(h, log). let (r, took, h) = attempt deadline t h in (r, took, h, log @ [(t, r)]))"

definition transient :: "connect_error + 's \<Rightarrow> bool" where
  "transient r \<longleftrightarrow> r = Inl ConnectError_ConnectTimeout"

definition connect_inv :: "instant \<Rightarrow> instant \<Rightarrow> ('h \<times> (instant \<times> (connect_error + 's)) list) \<times> clock \<Rightarrow> bool" where
  "connect_inv start deadline = (\<lambda>((h, log), c). (\<forall>(t, r) \<in> set log. t < deadline \<and> transient r)
     \<and> (log \<noteq> [] \<longrightarrow> start + (length log - 1) * RETRY_INTERVAL < deadline)
     \<and> (time c < deadline \<longrightarrow> start + length log * RETRY_INTERVAL \<le> time c))"

definition connect_post :: "instant \<Rightarrow> instant \<Rightarrow> (connect_error + 's) \<times> ('h \<times> (instant \<times> (connect_error + 's)) list) \<times> clock \<Rightarrow> bool" where
  "connect_post start deadline = (\<lambda>(r, (h, log), c). \<exists>before t. log = before @ [(t, r)]
     \<and> (\<forall>(t, r) \<in> set before. t < deadline \<and> transient r) \<and> (transient r \<longrightarrow> deadline \<le> time c)
     \<and> length log \<le> (deadline - start) div RETRY_INTERVAL + 2)"

lemma interval_pos: "0 < RETRY_INTERVAL"
  by (simp add: RETRY_INTERVAL_def from_millis_def)

lemma attempts_bound: "start + n * RETRY_INTERVAL < deadline \<Longrightarrow> n \<le> (deadline - start) div RETRY_INTERVAL"
  using interval_pos by (simp add: less_eq_div_iff_mult_less_eq)

lemma connect_round_noted:
  fixes attempt :: "('h, 's) attempts"
  assumes "connect_inv start deadline ((h, log), c)"
  shows "case connect_round (noted_attempt attempt) deadline ((h, log), c) of
      Break r \<Rightarrow> connect_post start deadline r
    | Continue s' \<Rightarrow> connect_inv start deadline s' \<and> (s', ((h, log), c)) \<in> measure (\<lambda>(_, c). deadline - time c)"
proof -
  obtain r took h' where a: "attempt deadline (time c) h = (r, took, h')" by (metis surj_pair)
  let ?c = "elapse took c" and ?log = "log @ [(time c, r)]"
  have once: "connect_once_until (noted_attempt attempt) deadline ((h, log), c) = (r, (h', ?log), ?c)"
    by (simp add: connect_once_until_def noted_attempt_def a)
  have grows: "time c \<le> time ?c" "time ?c \<le> time (tick ?c)" by (auto simp: elapse_def)
  have inv: "\<forall>(t, r) \<in> set log. t < deadline \<and> transient r"
    "log \<noteq> [] \<longrightarrow> start + (length log - 1) * RETRY_INTERVAL < deadline" "time c < deadline \<longrightarrow> start + length log * RETRY_INTERVAL \<le> time c"
    using assms by (simp_all add: connect_inv_def)
  have few: "length ?log \<le> (deadline - start) div RETRY_INTERVAL + 2"
    using inv(2) attempts_bound[of start "length log - 1" deadline] by (cases "log = []") auto
  show ?thesis
  proof (cases "transient r")
    case False
    then show ?thesis using inv few
      by (cases r) (auto simp: connect_round_def once connect_post_def transient_def connect_error_is_transient_def)
  next
    case True
    then have r: "r = Inl ConnectError_ConnectTimeout" by (simp add: transient_def)
    show ?thesis
    proof (cases "deadline \<le> time (tick ?c)")
      case late: True
      then show ?thesis using True inv(1) few
        by (simp add: connect_round_def once r connect_error_is_transient_def time_simps connect_post_def)
    next
      case False
      let ?c' = "sleep (min RETRY_INTERVAL (deadline - time (tick ?c))) (tick ?c)"
      have t: "time (tick ?c) + min RETRY_INTERVAL (deadline - time (tick ?c)) \<le> time ?c'"
        by (rule sleep_lasts)
      define t1 t2 where "t1 = time (tick ?c)" and "t2 = time ?c'"
      have times: "t1 + min RETRY_INTERVAL (deadline - t1) \<le> t2" "time c \<le> t1" "t1 < deadline"
        using t grows False unfolding t1_def t2_def by linarith+
      have c: "time c < deadline" using times by linarith
      have last: "start + length log * RETRY_INTERVAL < deadline" using inv(3) c by linarith
      have paced: "start + Suc (length log) * RETRY_INTERVAL \<le> t2" if "t2 < deadline"
        using that times inv(3) c by (simp add: min_def split: if_splits)
      have next_inv: "connect_inv start deadline ((h', ?log), ?c')"
        using inv(1) c True last paced unfolding connect_inv_def t2_def by simp
      have "time c < time ?c'" using times interval_pos unfolding t2_def[symmetric] by (simp add: min_def split: if_splits)
      with next_inv c False show ?thesis
        by (simp add: connect_round_def once r connect_error_is_transient_def time_simps)
    qed
  qed
qed

interpretation connecting: ending_loop "connect_round (noted_attempt attempt) deadline" "connect_inv start deadline"
    "connect_post start deadline" "measure (\<lambda>(_, c). deadline - time c)"
  for attempt :: "('h, 's) attempts" and start deadline
proof unfold_locales
  fix s s' :: "('h \<times> (instant \<times> (connect_error + 's)) list) \<times> clock"
  assume "connect_inv start deadline s" "connect_round (noted_attempt attempt) deadline s = Continue s'"
  then show "connect_inv start deadline s'" "(s', s) \<in> measure (\<lambda>(_, c). deadline - time c)"
    using connect_round_noted[of start deadline "fst (fst s)" "snd (fst s)" "snd s" attempt] by simp_all
next
  fix s :: "('h \<times> (instant \<times> (connect_error + 's)) list) \<times> clock" and r
  assume "connect_inv start deadline s" "connect_round (noted_attempt attempt) deadline s = Break r"
  then show "connect_post start deadline r"
    using connect_round_noted[of start deadline "fst (fst s)" "snd (fst s)" "snd s" attempt] by simp
qed simp

text \<open>Connecting retries only what waiting can fix, and ends. Whatever each attempt comes to and however
  long it and each pause take, \<^verbatim>\<open>connect_until\<close> returns what its last attempt came to; every attempt before it
  started before the deadline and failed only because nothing accepted in time; it gives up on such a
  failure only at the deadline, and attempts no more often than once per retry interval.
\<close>

theorem connecting_retries_and_ends:
  "\<exists>r h log c'. connect_until (noted_attempt attempt) deadline ((h0, []), c) = Some (r, (h, log), c')
    \<and> (\<exists>before t. log = before @ [(t, r)] \<and> list_all (\<lambda>(t, r). t < deadline \<and> transient r) before)
    \<and> (if transient r then deadline \<le> time c' else True)
    \<and> length log \<le> (deadline - time c) div RETRY_INTERVAL + 2"
proof -
  have "connect_inv (time c) deadline ((h0, []), c)" by (simp add: connect_inv_def)
  from connecting.ends_well[OF this, of attempt] show ?thesis
    unfolding connect_until_def connect_post_def if_bool_eq_disj by (auto simp: list_all_iff split del: if_split)
qed

end
