(* ===== verification/Control.thy ===== *)
theory Control
  imports Lifecycle Wire_Async
begin

text \<open>
  The control service and its subscriptions: \<^verbatim>\<open>control.rs\<close> and \<^verbatim>\<open>control/watch.rs\<close>. Awaiting under a
  deadline is an operation that may fail with \<^verbatim>\<open>TimedOut\<close>. The tasks of a service run in turn: what
  the others do between two steps of the one that serves a subscription is a schedule of moments.
\<close>

section \<open>The service\<close>

record published_state =
  ps_generation :: "u64 option"
  ps_build :: string
  ps_retiring :: bool

text \<open>\<^verbatim>\<open>cs_version\<close> counts the values sent on the watch channel of \<^verbatim>\<open>Published\<close>.\<close>

record control_service =
  cs_lifecycle :: lifecycle
  cs_ready :: bool
  cs_published :: published_state
  cs_version :: nat
  cs_process_id :: u32
  cs_generation :: u64
  cs_build :: string
  cs_revision :: u64

definition publisher_new :: published_state where
  "publisher_new = \<lparr>ps_generation = None, ps_build = [], ps_retiring = False\<rparr>"

definition control_service_new :: "u32 \<Rightarrow> lifecycle \<Rightarrow> u64 \<Rightarrow> string \<Rightarrow> u64 \<Rightarrow> control_service" where
  "control_service_new pid lifecycle generation build revision =
    \<lparr>cs_lifecycle = lifecycle, cs_ready = False, cs_published = publisher_new, cs_version = 0,
     cs_process_id = pid, cs_generation = generation, cs_build = build, cs_revision = revision\<rparr>"

definition publisher_notify :: "control_service \<Rightarrow> control_service" where
  "publisher_notify s = s\<lparr>cs_version := cs_version s + 1\<rparr>"

definition mark_ready :: "control_service \<Rightarrow> control_service" where
  "mark_ready s = (if cs_ready s then s else publisher_notify (s\<lparr>cs_ready := True\<rparr>))"

definition control_snapshot :: "control_service \<Rightarrow> 'u health \<times> control_service" where
  "control_snapshot s =
    (let (state, l) = lifecycle_snapshot_of (cs_lifecycle s); s = s\<lparr>cs_lifecycle := l\<rparr> in
     (health_default\<lparr>
        health_process_id := cs_process_id s,
        health_generation := cs_generation s,
        health_build := cs_build s,
        health_revision := cs_revision s,
        health_ready := cs_ready s \<and> \<not> lsnap_draining state,
        health_draining := lsnap_draining state,
        health_active := of_nat (lsnap_active state)\<rparr>, s))"

definition lifecycle_start_drain :: "control_service \<Rightarrow> control_service" where
  "lifecycle_start_drain s = s\<lparr>cs_lifecycle := snd (start_drain (cs_lifecycle s))\<rparr>"

definition control_handle ::
    "'u health codec \<Rightarrow> 'u control_msg \<Rightarrow> control_service \<Rightarrow> (wire_error + 'u control_msg) \<times> control_service" where
  "control_handle c request s =
    (if control_kind request \<noteq> message_kind_to_i32 MessageKind_Lifecycle
       \<or> control_payload request \<noteq> [] \<or> control_token request \<noteq> [] \<or> control_offset request \<noteq> None
       \<or> control_generation request \<noteq> 0 \<and> control_generation request \<noteq> cs_generation s
     then (Err (invalid ''invalid lifecycle request''), s)
     else if control_operation request = operation_HEALTH then
       (let (h, s) = control_snapshot s in (health_response c h request, s))
     else if control_operation request = operation_DRAIN then
       (let (h, s) = control_snapshot (lifecycle_start_drain s) in (health_response c h request, s))
     else (Err (invalid ''unsupported lifecycle request''), s))"

definition selection_committed :: "u64 \<Rightarrow> string \<Rightarrow> control_service \<Rightarrow> (wire_error + unit) \<times> control_service" where
  "selection_committed generation build s =
    (if generation = cs_generation s \<and> build \<noteq> cs_build s
     then (Err (invalid ''selection does not match serving build''), s)
     else let state = cs_published s in
       if (case ps_generation state of Some previous \<Rightarrow> generation < previous | None \<Rightarrow> False)
         \<or> Some generation = ps_generation state \<and> build \<noteq> ps_build state
       then (Err (invalid ''selection must advance monotonically''), s)
       else if Some generation = ps_generation state then (Ok (), s)
       else (Ok (), publisher_notify (s\<lparr>cs_published := state\<lparr>ps_generation := Some generation, ps_build := build\<rparr>\<rparr>)))"

definition mark_retiring :: "control_service \<Rightarrow> control_service" where
  "mark_retiring s =
    (let s = lifecycle_start_drain s; state = cs_published s in
     if ps_retiring state then s
     else publisher_notify (s\<lparr>cs_published := state\<lparr>ps_retiring := True\<rparr>\<rparr>))"

definition validate_watch :: "'u control_msg \<Rightarrow> control_service \<Rightarrow> wire_error + unit" where
  "validate_watch request s =
    (if control_payload request \<noteq> [] \<or> control_token request \<noteq> [] \<or> control_offset request \<noteq> None
       \<or> control_generation request \<noteq> 0 \<and> control_generation request \<noteq> cs_generation s
     then Err (invalid ''invalid WATCH request'')
     else Ok ())"

section \<open>Other tasks\<close>

text \<open>
  What other tasks do to a service in one step. \<^verbatim>\<open>mark_ready\<close> and \<^verbatim>\<open>mark_retiring\<close> are two steps each; a
  step between them is a notification, or a drain, of its own.
\<close>

datatype control_op =
    Op_MarkReady | Op_Notify | Op_SelectionCommitted u64 string | Op_MarkRetiring | Op_StartDrain
  | Op_Begin | Op_GuardDrop

fun perform :: "control_op \<Rightarrow> control_service \<Rightarrow> control_service" where
  "perform Op_MarkReady s = mark_ready s"
| "perform Op_Notify s = publisher_notify s"
| "perform (Op_SelectionCommitted g b) s = snd (selection_committed g b s)"
| "perform Op_MarkRetiring s = mark_retiring s"
| "perform Op_StartDrain s = lifecycle_start_drain s"
| "perform Op_Begin s = s\<lparr>cs_lifecycle := snd (lifecycle_begin (cs_lifecycle s))\<rparr>"
| "perform Op_GuardDrop s = s\<lparr>cs_lifecycle := guard_drop (cs_lifecycle s)\<rparr>"

datatype moment = Others "control_op list" | Hangup

section \<open>Serving a subscription\<close>

text \<open>\<^verbatim>\<open>wt_sent\<close> remembers the events sent so far, \<^verbatim>\<open>wt_closed\<close> that the subscriber was waited for to the end.\<close>

record ('s, 'u) watch_task =
  wt_service :: control_service
  wt_session :: "'s async_session"
  wt_moments :: "moment list"
  wt_seen :: nat
  wt_previous :: "'u lifecycle_event option"
  wt_sequence :: u64
  wt_sent :: "'u lifecycle_event list"
  wt_closed :: bool

definition interlude :: "('s, 'u) watch_task \<Rightarrow> ('s, 'u) watch_task" where
  "interlude t = (case wt_moments t of
      Others ops # rest \<Rightarrow> t\<lparr>wt_service := fold perform ops (wt_service t), wt_moments := rest\<rparr>
    | _ \<Rightarrow> t)"

definition borrow_and_update :: "('s, 'u) watch_task \<Rightarrow> published_state \<times> ('s, 'u) watch_task" where
  "borrow_and_update t = (cs_published (wt_service t), t\<lparr>wt_seen := cs_version (wt_service t)\<rparr>)"

definition sample_draining :: "('s, 'u) watch_task \<Rightarrow> bool \<times> ('s, 'u) watch_task" where
  "sample_draining t =
    (let (state, l) = lifecycle_snapshot_of (cs_lifecycle (wt_service t)) in
     (lsnap_draining state, t\<lparr>wt_service := (wt_service t)\<lparr>cs_lifecycle := l\<rparr>\<rparr>))"

definition sample_event :: "('s, 'u) watch_task \<Rightarrow> ('u lifecycle_event \<times> bool) \<times> ('s, 'u) watch_task" where
  "sample_event t =
    (let (published, t) = borrow_and_update (interlude t);
         (draining, t) = sample_draining (interlude t);
         t = interlude t;
         s = wt_service t in
     ((lifecycle_event_default\<lparr>
         le_process_id := cs_process_id s,
         le_generation := cs_generation s,
         le_build := cs_build s,
         le_ready := cs_ready s \<and> \<not> draining,
         le_draining := draining,
         le_selected_generation := ps_generation published,
         le_selected_build := ps_build published,
         le_retiring := ps_retiring published\<rparr>, draining), t))"

definition changed_kinds :: "'u lifecycle_event \<Rightarrow> 'u lifecycle_event \<Rightarrow> lifecycle_change list" where
  "changed_kinds old event =
    map snd (filter fst [
      (le_ready event \<noteq> le_ready old \<and> le_ready event, LifecycleChange_Ready),
      (le_draining event \<noteq> le_draining old, LifecycleChange_Draining),
      (le_selected_generation event \<noteq> le_selected_generation old, LifecycleChange_SelectionChanged),
      (le_retiring event \<noteq> le_retiring old, LifecycleChange_Retiring)])"

text \<open>\<^verbatim>\<open>select!\<close>: the subscriber hung up, or a change or a drain woke the task.\<close>

definition woken :: "bool \<Rightarrow> ('s, 'u) watch_task \<Rightarrow> bool" where
  "woken draining t \<longleftrightarrow> cs_version (wt_service t) \<noteq> wt_seen t \<or> \<not> draining \<and> draining_ready (cs_lifecycle (wt_service t))"

function wait_change :: "bool \<Rightarrow> ('s, 'u) watch_task \<Rightarrow> bool \<times> ('s, 'u) watch_task" where
  "wait_change draining t =
    (case wt_moments t of
       Hangup # _ \<Rightarrow> (False, t)
     | [] \<Rightarrow> (woken draining t, t)
     | Others ops # _ \<Rightarrow> if woken draining t then (True, t) else wait_change draining (interlude t))"
  by auto
termination
  by (relation "measure (\<lambda>(_, t). length (wt_moments t))") (auto simp: interlude_def)

declare wait_change.simps [simp del]

definition watch_frame :: "'u lifecycle_event codec \<Rightarrow> 'u control_msg \<Rightarrow> u64 \<Rightarrow> 'u lifecycle_event \<Rightarrow> 'u control_msg" where
  "watch_frame ec request generation event =
    control_default\<lparr>control_operation := operation_WATCH, control_request_id := control_request_id request,
      control_generation := generation, control_payload := encode_to_vec ec event\<rparr>"

definition send_event ::
    "'s stream_ops \<Rightarrow> 'u control_msg codec \<Rightarrow> 'u lifecycle_event codec \<Rightarrow> 'u control_msg \<Rightarrow> 'u lifecycle_event \<Rightarrow> ('s, 'u) watch_task
     \<Rightarrow> ((wire_error + unit) \<times> ('s, 'u) watch_task, ('s, 'u) watch_task) control" where
  "send_event ops c ec request event t =
    (if wt_sequence t = - 1 then Break (Err (invalid ''WATCH sequence exhausted''), t)
     else let n = wt_sequence t + 1;
              event = event\<lparr>le_sequence := n\<rparr>;
              t = t\<lparr>wt_sequence := n\<rparr> in
       case async_send ops c (watch_frame ec request (cs_generation (wt_service t)) event) (wt_session t) of
         (Inl e, a) \<Rightarrow> Break (Err e, t\<lparr>wt_session := a\<rparr>)
       | (Inr _, a) \<Rightarrow> Continue (t\<lparr>wt_session := a, wt_previous := Some event, wt_sent := wt_sent t @ [event]\<rparr>))"

definition watch_round ::
    "'s stream_ops \<Rightarrow> 's reader \<Rightarrow> 'u control_msg codec \<Rightarrow> 'u lifecycle_event codec \<Rightarrow> 'u control_msg \<Rightarrow> ('s, 'u) watch_task
     \<Rightarrow> ((wire_error + unit) \<times> ('s, 'u) watch_task, ('s, 'u) watch_task) control" where
  "watch_round ops rd c ec request t =
    (let ((event, draining), t) = sample_event t in
     case wt_previous t of
       None \<Rightarrow> send_event ops c ec request event t
     | Some old \<Rightarrow>
         (case changed_kinds old event of
            [] \<Rightarrow>
              (case wait_change draining t of
                 (True, t) \<Rightarrow> Continue t
               | (False, t) \<Rightarrow>
                   (let (r, a) = subscription_closed rd (wt_session t) in Break (r, t\<lparr>wt_session := a, wt_closed := True\<rparr>)))
          | first # others \<Rightarrow>
              send_event ops c ec request
                (event\<lparr>le_change := lifecycle_change_to_i32 (if others = [] then first else LifecycleChange_Snapshot)\<rparr>) t))"

definition serve_watch ::
    "'s stream_ops \<Rightarrow> 's reader \<Rightarrow> 'u control_msg codec \<Rightarrow> 'u lifecycle_event codec \<Rightarrow> 's async_session \<Rightarrow> 'u control_msg \<Rightarrow> moment list
     \<Rightarrow> control_service \<Rightarrow> ((wire_error + unit) \<times> ('s, 'u) watch_task) option" where
  "serve_watch ops rd c ec session request moments s =
    iterate (watch_round ops rd c ec request)
      \<lparr>wt_service = s, wt_session = session, wt_moments = moments, wt_seen = cs_version s, wt_previous = None,
       wt_sequence = 0, wt_sent = [], wt_closed = False\<rparr>"

section \<open>Serving a connection\<close>

text \<open>The setup of a connection: the subscription to serve, if any.\<close>

definition serve_setup ::
    "'s stream_ops \<Rightarrow> 'u hello codec \<Rightarrow> 'u control_msg codec \<Rightarrow> 'u health codec \<Rightarrow> 's \<Rightarrow> 'u hello \<Rightarrow> control_service
     \<Rightarrow> (wire_error + ('s async_session \<times> 'u control_msg) option) \<times> control_service" where
  "serve_setup ops hc c ec stream offer s =
    (case async_accept ops hc stream offer of
       (Inl e, _) \<Rightarrow> (Err e, s)
     | (Inr session, _) \<Rightarrow>
         (case async_receive ops c session of
            (Inl e, _) \<Rightarrow> (Err e, s)
          | (Inr request, session) \<Rightarrow>
              if control_operation request = operation_WATCH \<and> control_kind request = message_kind_to_i32 MessageKind_Lifecycle then
                (case validate_watch request s of
                   Inl e \<Rightarrow> (Err e, s)
                 | Inr _ \<Rightarrow> (Ok (Some (session, request)), s))
              else if and (agreement_capabilities (as_agreement session)) capability_HEALTH_DETAILS = 0 then
                (Err (invalid ''typed health not negotiated''), s)
              else
                and_then (control_handle ec request s) (\<lambda>reply s.
                case async_send ops c reply session of
                  (Inl e, _) \<Rightarrow> (Err e, s)
                | (Inr _, _) \<Rightarrow> (Ok None, s))))"

definition control_serve ::
    "'s stream_ops \<Rightarrow> 's reader \<Rightarrow> 'u hello codec \<Rightarrow> 'u control_msg codec \<Rightarrow> 'u health codec \<Rightarrow> 'u lifecycle_event codec
     \<Rightarrow> 's \<Rightarrow> 'u hello \<Rightarrow> moment list \<Rightarrow> control_service \<Rightarrow> ((wire_error + unit) \<times> control_service) option" where
  "control_serve ops rd hc c hec ec stream offer moments s =
    (case serve_setup ops hc c hec stream offer s of
       (Inl e, s) \<Rightarrow> Some (Err e, s)
     | (Inr None, s) \<Rightarrow> Some (Ok (), s)
     | (Inr (Some (session, request)), s) \<Rightarrow>
         map_option (\<lambda>(r, t). (r, wt_service t)) (serve_watch ops rd c ec session request moments s))"

section \<open>Subscribing\<close>

record ('s, 'u) watch_client =
  wc_session :: "'s async_session"
  wc_request :: "'u control_msg"
  wc_latest :: "'u lifecycle_event"
  wc_failed :: bool

definition decode_event :: "'u lifecycle_event codec \<Rightarrow> 'u control_msg \<Rightarrow> 'u control_msg \<Rightarrow> wire_error + 'u lifecycle_event" where
  "decode_event ec reply request =
    (if control_kind reply \<noteq> message_kind_to_i32 MessageKind_Lifecycle
       \<or> control_operation reply \<noteq> operation_WATCH
       \<or> control_request_id reply \<noteq> control_request_id request
       \<or> control_token reply \<noteq> []
       \<or> control_offset reply \<noteq> None
     then Err (invalid ''unexpected WATCH response'')
     else case decode_message ec (control_payload reply) MAX_FRAME of
       Inl e \<Rightarrow> Err e
     | Inr event \<Rightarrow>
         if lifecycle_change_from_i32 (le_change event) = None
           \<or> le_process_id event = 0
           \<or> le_generation event \<noteq> control_generation reply
           \<or> le_selected_generation event = None \<and> le_selected_build event \<noteq> []
           \<or> le_selected_generation event = Some (le_generation event) \<and> le_selected_build event \<noteq> le_build event
           \<or> le_change event = lifecycle_change_to_i32 LifecycleChange_SelectionChanged \<and> le_selected_generation event = None
           \<or> le_ready event \<and> le_draining event
           \<or> le_retiring event \<and> \<not> le_draining event
           \<or> le_change event = lifecycle_change_to_i32 LifecycleChange_Ready \<and> \<not> le_ready event
           \<or> le_change event = lifecycle_change_to_i32 LifecycleChange_Draining \<and> \<not> le_draining event
           \<or> le_change event = lifecycle_change_to_i32 LifecycleChange_Retiring \<and> \<not> le_retiring event
         then Err (invalid ''invalid WATCH state'')
         else Ok event)"

text \<open>The first event of a subscription, and the order of optional generations.\<close>

definition first_event :: "'u lifecycle_event codec \<Rightarrow> 'u control_msg \<Rightarrow> 'u control_msg \<Rightarrow> wire_error + 'u lifecycle_event" where
  "first_event ec reply request = (case decode_event ec reply request of
      Inl e \<Rightarrow> Err e
    | Inr latest \<Rightarrow>
        if le_sequence latest \<noteq> 1 \<or> le_change latest \<noteq> lifecycle_change_to_i32 LifecycleChange_Snapshot
        then Err (invalid ''WATCH must start with a snapshot'')
        else Ok latest)"

fun option_less :: "u64 option \<Rightarrow> u64 option \<Rightarrow> bool" where
  "option_less None (Some _) \<longleftrightarrow> True"
| "option_less (Some a) (Some b) \<longleftrightarrow> a < b"
| "option_less _ _ \<longleftrightarrow> False"

definition next_event ::
    "'u lifecycle_event codec \<Rightarrow> 'u control_msg \<Rightarrow> 'u control_msg \<Rightarrow> 'u lifecycle_event \<Rightarrow> wire_error + 'u lifecycle_event" where
  "next_event ec reply request latest = (case decode_event ec reply request of
      Inl e \<Rightarrow> Err e
    | Inr event \<Rightarrow>
        if le_sequence latest = - 1 \<or> le_sequence latest + 1 \<noteq> le_sequence event
          \<or> le_process_id event \<noteq> le_process_id latest
          \<or> le_generation event \<noteq> le_generation latest
          \<or> le_build event \<noteq> le_build latest
          \<or> option_less (le_selected_generation event) (le_selected_generation latest)
          \<or> le_selected_generation event = le_selected_generation latest \<and> le_selected_build event \<noteq> le_selected_build latest
          \<or> le_draining latest \<and> \<not> le_draining event
          \<or> le_retiring latest \<and> \<not> le_retiring event
        then Err (invalid ''inconsistent WATCH event'')
        else Ok event)"

definition watch_connect ::
    "'s stream_ops \<Rightarrow> 'u hello codec \<Rightarrow> 'u control_msg codec \<Rightarrow> 'u lifecycle_event codec \<Rightarrow> 's \<Rightarrow> 'u hello
     \<Rightarrow> wire_error + ('s, 'u) watch_client option" where
  "watch_connect ops hc c ec stream offer =
    (if and (hello_supported offer) capability_WATCH = 0 then Err (invalid ''client offer does not support WATCH'')
     else case async_connect ops hc stream offer of
       (Inl e, _) \<Rightarrow> Err e
     | (Inr session, _) \<Rightarrow>
         if and (agreement_capabilities (as_agreement session)) capability_WATCH = 0 then Ok None
         else
           let request = control_default\<lparr>control_operation := operation_WATCH\<rparr> in
           case and_then (async_send ops c request session) (\<lambda>_ session. async_receive ops c session) of
             (Inl e, _) \<Rightarrow> Err e
           | (Inr reply, session) \<Rightarrow>
               (case first_event ec reply request of
                  Inl e \<Rightarrow> Err e
                | Inr latest \<Rightarrow> Ok (Some \<lparr>wc_session = session, wc_request = request, wc_latest = latest, wc_failed = False\<rparr>)))"

definition watch_changed ::
    "'s stream_ops \<Rightarrow> 'u control_msg codec \<Rightarrow> 'u lifecycle_event codec \<Rightarrow> ('s, 'u) watch_client
     \<Rightarrow> (wire_error + 'u lifecycle_event) \<times> ('s, 'u) watch_client" where
  "watch_changed ops c ec w =
    (if wc_failed w then (Err (invalid ''WATCH failed; reconnect''), w)
     else let w = w\<lparr>wc_failed := True\<rparr> in
       case async_receive ops c (wc_session w) of
         (Inl e, a) \<Rightarrow> (Err e, w\<lparr>wc_session := a\<rparr>)
       | (Inr reply, a) \<Rightarrow>
           (case next_event ec reply (wc_request w) (wc_latest w) of
              Inl e \<Rightarrow> (Err e, w\<lparr>wc_session := a\<rparr>)
            | Inr event \<Rightarrow> (Ok event, w\<lparr>wc_session := a, wc_latest := event, wc_failed := False\<rparr>)))"

section \<open>What operations keep\<close>

definition service_ok :: "control_service \<Rightarrow> bool" where
  "service_ok s \<longleftrightarrow> cs_process_id s \<noteq> 0
    \<and> (ps_retiring (cs_published s) \<longrightarrow> lc_draining (cs_lifecycle s))
    \<and> (ps_generation (cs_published s) = None \<longrightarrow> ps_build (cs_published s) = [])
    \<and> (ps_generation (cs_published s) = Some (cs_generation s) \<longrightarrow> ps_build (cs_published s) = cs_build s)"

text \<open>How a service may have changed: nothing it announced is taken back, and the version tells changes.\<close>

definition later :: "control_service \<Rightarrow> control_service \<Rightarrow> bool" where
  "later s s' \<longleftrightarrow> cs_process_id s' = cs_process_id s \<and> cs_generation s' = cs_generation s \<and> cs_build s' = cs_build s
    \<and> (lc_draining (cs_lifecycle s) \<longrightarrow> lc_draining (cs_lifecycle s')) \<and> (cs_ready s \<longrightarrow> cs_ready s')
    \<and> (ps_retiring (cs_published s) \<longrightarrow> ps_retiring (cs_published s'))
    \<and> \<not> option_less (ps_generation (cs_published s')) (ps_generation (cs_published s))
    \<and> (ps_generation (cs_published s') = ps_generation (cs_published s) \<longrightarrow> ps_build (cs_published s') = ps_build (cs_published s))
    \<and> cs_version s \<le> cs_version s' \<and> (cs_version s' = cs_version s \<longrightarrow> cs_published s' = cs_published s \<and> cs_ready s' = cs_ready s)"

lemma option_less_facts:
  "\<not> option_less x x" "\<not> option_less y x \<Longrightarrow> \<not> option_less z y \<Longrightarrow> \<not> option_less z x"
  "\<not> option_less y x \<Longrightarrow> \<not> option_less x y \<Longrightarrow> x = y"
  by (cases x; cases y; cases z; simp)+

lemma later_refl [simp]: "later s s"
  by (simp add: later_def option_less_facts)

lemma later_trans: "later s t \<Longrightarrow> later t u \<Longrightarrow> later s u"
proof -
  assume st: "later s t" and tu: "later t u"
  have "\<not> option_less (ps_generation (cs_published u)) (ps_generation (cs_published s))"
    using st tu option_less_facts(2) unfolding later_def by blast
  moreover have "ps_generation (cs_published t) = ps_generation (cs_published s)" if "ps_generation (cs_published u) = ps_generation (cs_published s)"
    using st tu that option_less_facts(3) unfolding later_def by metis
  moreover have "cs_version t = cs_version s" "cs_version u = cs_version t" if "cs_version u = cs_version s"
    using st tu that unfolding later_def by linarith+
  ultimately show ?thesis using st tu unfolding later_def by (simp; metis)
qed

lemma selection_later:
  assumes "service_ok s"
  shows "service_ok (snd (selection_committed g b s)) \<and> later s (snd (selection_committed g b s))"
proof (cases "snd (selection_committed g b s) = s")
  case False
  then have new: "snd (selection_committed g b s) = publisher_notify (s\<lparr>cs_published := (cs_published s)\<lparr>ps_generation := Some g, ps_build := b\<rparr>\<rparr>)"
    and own: "g = cs_generation s \<longrightarrow> b = cs_build s" and up: "\<not> option_less (Some g) (ps_generation (cs_published s))" "ps_generation (cs_published s) \<noteq> Some g"
    by (auto simp: selection_committed_def Let_def split: if_splits option.splits)
  show ?thesis unfolding new using assms own up by (simp add: publisher_notify_def service_ok_def later_def)
qed (use assms in simp)

lemma perform_later:
  assumes "service_ok s"
  shows "service_ok (perform x s) \<and> later s (perform x s)"
proof (cases x)
  case (Op_SelectionCommitted g b)
  then show ?thesis using selection_later[OF assms] by simp
next
  case Op_MarkReady
  then show ?thesis using assms by (simp add: mark_ready_def publisher_notify_def service_ok_def later_def option_less_facts)
next
  case Op_Notify
  then show ?thesis using assms by (simp add: publisher_notify_def service_ok_def later_def option_less_facts)
next
  case Op_MarkRetiring
  then show ?thesis using assms
    by (simp add: mark_retiring_def lifecycle_start_drain_def publisher_notify_def service_ok_def later_def option_less_facts Let_def)
next
  case Op_StartDrain
  then show ?thesis using assms by (simp add: lifecycle_start_drain_def service_ok_def later_def option_less_facts)
next
  case Op_Begin
  then show ?thesis using assms by (simp add: lifecycle_begin_def service_ok_def later_def option_less_facts)
next
  case Op_GuardDrop
  then show ?thesis using assms by (simp add: service_ok_def later_def option_less_facts)
qed

lemma fold_perform_later: "service_ok s \<Longrightarrow> service_ok (fold perform ops s) \<and> later s (fold perform ops s)"
proof (induction ops arbitrary: s)
  case (Cons x ops)
  with perform_later[of s x] show ?case using later_trans by fastforce
qed simp

lemma interlude_later: "service_ok (wt_service t) \<Longrightarrow> service_ok (wt_service (interlude t)) \<and> later (wt_service t) (wt_service (interlude t))"
  by (auto simp: interlude_def fold_perform_later split: list.splits moment.splits)

lemma interlude_simps [simp]:
  "wt_seen (interlude t) = wt_seen t" "wt_previous (interlude t) = wt_previous t" "wt_sequence (interlude t) = wt_sequence t"
  "wt_sent (interlude t) = wt_sent t" "wt_session (interlude t) = wt_session t" "wt_closed (interlude t) = wt_closed t"
  by (simp_all add: interlude_def split: list.splits moment.splits)

section \<open>What a subscription sends\<close>

definition sound_event :: "'u lifecycle_event \<Rightarrow> bool" where
  "sound_event e \<longleftrightarrow> le_process_id e \<noteq> 0 \<and> le_unknown e = []
    \<and> (le_selected_generation e = None \<longrightarrow> le_selected_build e = [])
    \<and> (le_selected_generation e = Some (le_generation e) \<longrightarrow> le_selected_build e = le_build e)
    \<and> \<not> (le_ready e \<and> le_draining e) \<and> (le_retiring e \<longrightarrow> le_draining e)"

text \<open>An event that was true of a service some time before.\<close>

definition was_true :: "'u lifecycle_event \<Rightarrow> control_service \<Rightarrow> bool" where
  "was_true e s \<longleftrightarrow> le_process_id e = cs_process_id s \<and> le_generation e = cs_generation s \<and> le_build e = cs_build s
    \<and> (le_draining e \<longrightarrow> lc_draining (cs_lifecycle s)) \<and> (le_ready e \<longrightarrow> cs_ready s)
    \<and> (le_retiring e \<longrightarrow> ps_retiring (cs_published s))
    \<and> \<not> option_less (ps_generation (cs_published s)) (le_selected_generation e)
    \<and> (ps_generation (cs_published s) = le_selected_generation e \<longrightarrow> ps_build (cs_published s) = le_selected_build e)"

definition is_true :: "'u lifecycle_event \<Rightarrow> control_service \<Rightarrow> bool" where
  "is_true e s \<longleftrightarrow> le_process_id e = cs_process_id s \<and> le_generation e = cs_generation s \<and> le_build e = cs_build s
    \<and> le_draining e = lc_draining (cs_lifecycle s) \<and> le_ready e = (cs_ready s \<and> \<not> lc_draining (cs_lifecycle s))
    \<and> le_retiring e = ps_retiring (cs_published s) \<and> le_selected_generation e = ps_generation (cs_published s)
    \<and> le_selected_build e = ps_build (cs_published s)"

definition follows :: "'u lifecycle_event \<Rightarrow> 'u lifecycle_event \<Rightarrow> bool" where
  "follows e old \<longleftrightarrow> le_process_id e = le_process_id old \<and> le_generation e = le_generation old \<and> le_build e = le_build old
    \<and> \<not> option_less (le_selected_generation e) (le_selected_generation old)
    \<and> (le_selected_generation e = le_selected_generation old \<longrightarrow> le_selected_build e = le_selected_build old)
    \<and> (le_draining old \<longrightarrow> le_draining e) \<and> (le_retiring old \<longrightarrow> le_retiring e) \<and> (le_ready old \<longrightarrow> le_ready e \<or> le_draining e)"

lemma was_true_later:
  assumes "was_true e s" "later s s'"
  shows "was_true e s'"
proof -
  have "\<not> option_less (ps_generation (cs_published s')) (le_selected_generation e)"
    using assms option_less_facts(2) unfolding was_true_def later_def by blast
  moreover have "ps_generation (cs_published s) = ps_generation (cs_published s')" if "ps_generation (cs_published s') = le_selected_generation e"
    using assms that option_less_facts(3) unfolding was_true_def later_def by metis
  ultimately show ?thesis using assms unfolding was_true_def later_def by (simp; metis)
qed

lemma is_true_was_true: "is_true e s \<Longrightarrow> was_true e s"
  by (auto simp: is_true_def was_true_def option_less_facts)

lemma snapshot_draining:
  "lsnap_draining (fst (lifecycle_snapshot_of l)) = lc_draining l" "lc_draining (snd (lifecycle_snapshot_of l)) = lc_draining l"
  by (simp_all add: lifecycle_snapshot_of_def Let_def split: option.splits prod.splits)

text \<open>The three reads of a sample, at three moments.\<close>

lemma sample_eventE:
  assumes "sample_event t = ((e, draining), t')" "service_ok (wt_service t)"
  obtains s1 s2 s3 where "later (wt_service t) s1" "later s1 s2" "later s2 s3" "service_ok s1" "service_ok s3" "wt_service t' = s3"
    "draining = lc_draining (cs_lifecycle s2)" "wt_seen t' = cs_version s1"
    "e = lifecycle_event_default\<lparr>le_process_id := cs_process_id s3, le_generation := cs_generation s3, le_build := cs_build s3,
         le_ready := cs_ready s3 \<and> \<not> draining, le_draining := draining, le_selected_generation := ps_generation (cs_published s1),
         le_selected_build := ps_build (cs_published s1), le_retiring := ps_retiring (cs_published s1)\<rparr>"
proof -
  let ?t1 = "interlude t" 
  let ?t2 = "interlude (?t1\<lparr>wt_seen := cs_version (wt_service ?t1)\<rparr>)"
  let ?l = "snd (lifecycle_snapshot_of (cs_lifecycle (wt_service ?t2)))"
  let ?t2' = "?t2\<lparr>wt_service := (wt_service ?t2)\<lparr>cs_lifecycle := ?l\<rparr>\<rparr>"
  let ?t3 = "interlude ?t2'"
  have s1: "service_ok (wt_service ?t1)" "later (wt_service t) (wt_service ?t1)" using interlude_later[OF assms(2)] by simp_all
  then have s2: "service_ok (wt_service ?t2)" "later (wt_service ?t1) (wt_service ?t2)"
    using interlude_later[of "?t1\<lparr>wt_seen := cs_version (wt_service ?t1)\<rparr>"] by simp_all
  have s2': "service_ok (wt_service ?t2')" "later (wt_service ?t2) (wt_service ?t2')"
    using s2(1) by (simp_all add: service_ok_def later_def snapshot_draining option_less_facts)
  have s3: "service_ok (wt_service ?t3)" "later (wt_service ?t2) (wt_service ?t3)"
    using interlude_later[OF s2'(1)] later_trans[OF s2'(2)] by simp_all
  have "sample_event t = ((lifecycle_event_default\<lparr>le_process_id := cs_process_id (wt_service ?t3), le_generation := cs_generation (wt_service ?t3),
         le_build := cs_build (wt_service ?t3), le_ready := cs_ready (wt_service ?t3) \<and> \<not> lc_draining (cs_lifecycle (wt_service ?t2)),
         le_draining := lc_draining (cs_lifecycle (wt_service ?t2)), le_selected_generation := ps_generation (cs_published (wt_service ?t1)),
         le_selected_build := ps_build (cs_published (wt_service ?t1)), le_retiring := ps_retiring (cs_published (wt_service ?t1))\<rparr>,
         lc_draining (cs_lifecycle (wt_service ?t2))), ?t3)" (is "_ = ((?e, ?d), _)")
    by (simp add: sample_event_def borrow_and_update_def sample_draining_def Let_def snapshot_draining case_prod_beta)
  with assms(1) have t': "t' = ?t3" and dr: "draining = ?d" and e: "e = ?e" by (metis prod.inject)+
  have "wt_seen ?t3 = cs_version (wt_service ?t1)" by simp
  with that[OF s1(2) s2(2) s3(2) s1(1) s3(1)] show thesis unfolding t' dr e by blast
qed

lemma sample_event_facts:
  assumes "sample_event t = ((e, draining), t')" "service_ok (wt_service t)"
  shows "service_ok (wt_service t')" "later (wt_service t) (wt_service t')" "sound_event e" "was_true e (wt_service t')" "le_draining e = draining"
    and "wt_seen t' \<le> cs_version (wt_service t')" and "was_true old (wt_service t) \<Longrightarrow> follows e old"
    and "cs_version (wt_service t') = wt_seen t' \<Longrightarrow> lc_draining (cs_lifecycle (wt_service t')) = draining \<Longrightarrow> is_true e (wt_service t')"
proof -
  obtain s1 s2 s3 where s: "later (wt_service t) s1" "later s1 s2" "later s2 s3" "service_ok s1" "service_ok s3" "wt_service t' = s3"
    "draining = lc_draining (cs_lifecycle s2)" "wt_seen t' = cs_version s1"
    "e = lifecycle_event_default\<lparr>le_process_id := cs_process_id s3, le_generation := cs_generation s3, le_build := cs_build s3,
         le_ready := cs_ready s3 \<and> \<not> draining, le_draining := draining, le_selected_generation := ps_generation (cs_published s1),
         le_selected_build := ps_build (cs_published s1), le_retiring := ps_retiring (cs_published s1)\<rparr>"
    by (rule sample_eventE[OF assms])
  have s13: "later s1 s3" using later_trans[OF s(2, 3)] .
  show "service_ok (wt_service t')" using s by simp
  show "later (wt_service t) (wt_service t')" using later_trans[OF s(1) s13] s by simp
  show "le_draining e = draining" using s by simp
  show "wt_seen t' \<le> cs_version (wt_service t')" using s(6, 8) s13 by (simp add: later_def)
  show "sound_event e"
    using s(2-5, 7) s13 by (simp add: s(9) sound_event_def service_ok_def later_def lifecycle_event_default_def)
  show "was_true e (wt_service t')"
    using s(3, 7) s13 by (simp add: s(6, 9) was_true_def later_def)
  show "is_true e (wt_service t')" if "cs_version (wt_service t') = wt_seen t'" "lc_draining (cs_lifecycle (wt_service t')) = draining"
    using that s13 s(6, 8) by (simp add: s(9) is_true_def later_def)
  assume "was_true old (wt_service t)"
  then have w: "was_true old s1" using was_true_later s(1) by blast
  show "follows e old"
    using w s13 s(2, 7) was_true_later[OF w s(2)] by (auto simp: s(9) was_true_def later_def follows_def)
qed

section \<open>What a subscriber accepts\<close>

text \<open>A subscriber that reads frame after frame: the first as \<^verbatim>\<open>connect\<close> does, the others as \<^verbatim>\<open>changed\<close> does.\<close>

definition follow_one ::
    "'u lifecycle_event codec \<Rightarrow> 'u control_msg \<Rightarrow> wire_error + 'u lifecycle_event option \<Rightarrow> 'u control_msg \<Rightarrow> wire_error + 'u lifecycle_event option" where
  "follow_one ec request state reply = (case state of
      Inl e \<Rightarrow> Err e
    | Inr None \<Rightarrow> map_sum id Some (first_event ec reply request)
    | Inr (Some latest) \<Rightarrow> map_sum id Some (next_event ec reply request latest))"

definition watch_follow :: "'u lifecycle_event codec \<Rightarrow> 'u control_msg \<Rightarrow> 'u control_msg list \<Rightarrow> wire_error + 'u lifecycle_event option" where
  "watch_follow ec request frames = foldl (follow_one ec request) (Ok None) frames"

definition change_ok :: "'u lifecycle_event \<Rightarrow> bool" where
  "change_ok e \<longleftrightarrow> (\<exists>k. le_change e = lifecycle_change_to_i32 k \<and> (case k of
      LifecycleChange_Ready \<Rightarrow> le_ready e
    | LifecycleChange_Draining \<Rightarrow> le_draining e
    | LifecycleChange_SelectionChanged \<Rightarrow> le_selected_generation e \<noteq> None
    | LifecycleChange_Retiring \<Rightarrow> le_retiring e
    | LifecycleChange_Snapshot \<Rightarrow> True))"

definition fits :: "'u lifecycle_event codec \<Rightarrow> 'u lifecycle_event \<Rightarrow> bool" where
  "fits ec e \<longleftrightarrow> length (encode_to_vec ec e) \<le> unat MAX_FRAME"

text \<open>The codec decodes what it encodes, of events without unknown fields.\<close>

definition event_codec_ok :: "'u lifecycle_event codec \<Rightarrow> bool" where
  "event_codec_ok ec \<longleftrightarrow> codec_ok (\<lambda>e. le_unknown e = []) ec"

lemma decode_event_frame:
  assumes "event_codec_ok ec" "sound_event e" "change_ok e" "fits ec e"
  shows "decode_event ec (watch_frame ec request (le_generation e) e) request = Ok e"
proof -
  have "decode_message ec (encode_to_vec ec e) MAX_FRAME = Ok e"
    using assms by (simp add: event_codec_ok_def codec_ok_def fits_def sound_event_def decode_message_def)
  moreover obtain k where "le_change e = lifecycle_change_to_i32 k" "case k of LifecycleChange_Ready \<Rightarrow> le_ready e
    | LifecycleChange_Draining \<Rightarrow> le_draining e | LifecycleChange_SelectionChanged \<Rightarrow> le_selected_generation e \<noteq> None
    | LifecycleChange_Retiring \<Rightarrow> le_retiring e | LifecycleChange_Snapshot \<Rightarrow> True"
    using assms(3) by (auto simp: change_ok_def)
  ultimately show ?thesis using assms(2)
    by (cases k; cases "le_selected_generation e")
       (auto simp: decode_event_def watch_frame_def control_default_def sound_event_def lifecycle_change_from_i32_def)
qed

lemma change_okI:
  "(case k of LifecycleChange_Ready \<Rightarrow> le_ready e | LifecycleChange_Draining \<Rightarrow> le_draining e
    | LifecycleChange_SelectionChanged \<Rightarrow> le_selected_generation e \<noteq> None | LifecycleChange_Retiring \<Rightarrow> le_retiring e
    | LifecycleChange_Snapshot \<Rightarrow> True) \<Longrightarrow> change_ok (e\<lparr>le_change := lifecycle_change_to_i32 k\<rparr>)"
  by (auto simp: change_ok_def split: lifecycle_change.splits)

lemma changed_kinds_ok:
  assumes "follows e old" "sound_event old" "changed_kinds old e = first # others"
  shows "change_ok (e\<lparr>le_change := lifecycle_change_to_i32 (if others = [] then first else LifecycleChange_Snapshot)\<rparr>)"
proof (cases "others = []")
  case True
  have "le_selected_generation e \<noteq> None" if "le_selected_generation e \<noteq> le_selected_generation old"
    using assms(1) that by (cases "le_selected_generation old"; cases "le_selected_generation e") (auto simp: follows_def)
  with assms(1, 3) have "case first of LifecycleChange_Ready \<Rightarrow> le_ready e | LifecycleChange_Draining \<Rightarrow> le_draining e
    | LifecycleChange_SelectionChanged \<Rightarrow> le_selected_generation e \<noteq> None | LifecycleChange_Retiring \<Rightarrow> le_retiring e
    | LifecycleChange_Snapshot \<Rightarrow> True"
    by (auto simp: changed_kinds_def follows_def split: if_splits)
  from change_okI[where k = first, OF this] True show ?thesis by simp
next
  case False
  then show ?thesis using change_okI[where k = LifecycleChange_Snapshot] by simp
qed

lemma unchanged_is_true:
  assumes "changed_kinds old e = []" "follows e old" "sound_event old" "sound_event e" "is_true e s"
  shows "is_true old s"
  using assms by (auto simp: changed_kinds_def follows_def sound_event_def is_true_def split: if_splits)

section \<open>Serving and following together\<close>

definition watch_inv ::
    "'u lifecycle_event codec \<Rightarrow> 'u control_msg \<Rightarrow> u64 \<Rightarrow> ('s, 'u) watch_task \<Rightarrow> bool" where
  "watch_inv ec request g t \<longleftrightarrow> service_ok (wt_service t) \<and> cs_generation (wt_service t) = g \<and> \<not> wt_closed t
    \<and> (case wt_previous t of
         None \<Rightarrow> wt_sequence t = 0 \<and> wt_sent t = []
       | Some old \<Rightarrow> was_true old (wt_service t) \<and> sound_event old \<and> le_sequence old = wt_sequence t)
    \<and> ((\<forall>e \<in> set (wt_sent t). fits ec e) \<longrightarrow> watch_follow ec request (map (watch_frame ec request g) (wt_sent t)) = Ok (wt_previous t))"

definition watch_post ::
    "'u lifecycle_event codec \<Rightarrow> 'u control_msg \<Rightarrow> u64 \<Rightarrow> (wire_error + unit) \<times> ('s, 'u) watch_task \<Rightarrow> bool" where
  "watch_post ec request g = (\<lambda>(r, t).
    ((\<forall>e \<in> set (wt_sent t). fits ec e) \<longrightarrow> watch_follow ec request (map (watch_frame ec request g) (wt_sent t)) = Ok (wt_previous t))
    \<and> (wt_closed t \<and> wt_moments t = [] \<longrightarrow> (\<exists>latest. wt_previous t = Some latest \<and> is_true latest (wt_service t))))"

lemma send_event_keeps:
  assumes "event_codec_ok ec" "watch_inv ec request g t" "sound_event e" "was_true e (wt_service t)" "change_ok e"
    and "case wt_previous t of None \<Rightarrow> le_change e = 0 | Some old \<Rightarrow> follows e old"
  shows "case send_event ops c ec request e t of Break r \<Rightarrow> watch_post ec request g r | Continue t' \<Rightarrow> watch_inv ec request g t'"
proof (cases "wt_sequence t = - 1")
  case True
  then show ?thesis using assms(2) by (simp add: send_event_def watch_post_def watch_inv_def)
next
  case False
  let ?e = "e\<lparr>le_sequence := wt_sequence t + 1\<rparr>"
  have e: "sound_event ?e" "change_ok ?e" "was_true ?e (wt_service t)" "le_generation ?e = g"
    using assms(2-5) by (simp_all add: sound_event_def change_ok_def was_true_def watch_inv_def cong: lifecycle_change.case_cong)
  have follow: "watch_follow ec request (map (watch_frame ec request g) (wt_sent t @ [?e])) = Ok (Some ?e)"
    if "\<forall>x \<in> set (wt_sent t @ [?e]). fits ec x"
  proof -
    have "decode_event ec (watch_frame ec request g ?e) request = Ok ?e"
      using decode_event_frame[OF assms(1) e(1, 2)] e(4) that by simp
    moreover have "watch_follow ec request (map (watch_frame ec request g) (wt_sent t)) = Ok (wt_previous t)"
      using assms(2) that by (simp add: watch_inv_def)
    ultimately show ?thesis using assms(2, 6) False
      by (cases "wt_previous t") (auto simp: watch_follow_def follow_one_def first_event_def next_event_def follows_def watch_inv_def)
  qed
  obtain r a where "async_send ops c (watch_frame ec request (cs_generation (wt_service t)) ?e) (wt_session t) = (r, a)" by (metis surj_pair)
  with False e follow assms(2) show ?thesis
    by (cases r) (simp_all add: send_event_def Let_def watch_post_def watch_inv_def)
qed

lemma wait_change_facts:
  assumes "wait_change draining t = (w, t')" "service_ok (wt_service t)"
  shows "service_ok (wt_service t') \<and> later (wt_service t) (wt_service t') \<and> wt_seen t' = wt_seen t \<and> wt_previous t' = wt_previous t
    \<and> wt_sequence t' = wt_sequence t \<and> wt_sent t' = wt_sent t \<and> wt_closed t' = wt_closed t \<and> length (wt_moments t') \<le> length (wt_moments t)
    \<and> (\<not> w \<and> wt_moments t' = [] \<longrightarrow> \<not> woken draining t')"
  using assms
proof (induction draining t rule: wait_change.induct)
  case (1 draining t)
  show ?case
  proof (cases "\<exists>ops rest. wt_moments t = Others ops # rest \<and> \<not> woken draining t")
    case True
    then obtain ops rest where m: "wt_moments t = Others ops # rest" "\<not> woken draining t" by blast
    then have "wait_change draining (interlude t) = (w, t')" using "1.prems"(1) by (subst (asm) wait_change.simps) simp
    moreover have "length (wt_moments (interlude t)) \<le> length (wt_moments t)" using m by (simp add: interlude_def)
    ultimately show ?thesis
      using "1.IH"[OF m(1) _ m(2)] interlude_later[OF "1.prems"(2)] later_trans by (simp; metis order_trans)
  next
    case False
    then show ?thesis using "1.prems" by (subst (asm) wait_change.simps) (auto split: list.splits moment.splits if_splits)
  qed
qed

lemma sample_event_simps:
  assumes "sample_event t = (x, t')"
  shows "wt_previous t' = wt_previous t" "wt_sequence t' = wt_sequence t" "wt_sent t' = wt_sent t" "wt_closed t' = wt_closed t"
    "length (wt_moments t') \<le> length (wt_moments t)"
    "wt_moments t = Others ops # rest \<Longrightarrow> length (wt_moments t') < length (wt_moments t)"
proof -
  have shrinks: "length (wt_moments (interlude u)) \<le> length (wt_moments u)" for u :: "('b, 'a) watch_task"
    by (simp add: interlude_def split: list.splits moment.splits)
  have t': "t' = interlude (snd (sample_draining (interlude (snd (borrow_and_update (interlude t))))))"
    using arg_cong[OF assms, of snd] by (simp add: sample_event_def Let_def case_prod_beta)
  have part: "wt_moments (snd (sample_draining u)) = wt_moments u" "wt_moments (snd (borrow_and_update u)) = wt_moments u" for u :: "('b, 'a) watch_task"
    by (simp_all add: sample_draining_def borrow_and_update_def case_prod_beta Let_def)
  show "wt_previous t' = wt_previous t" "wt_sequence t' = wt_sequence t" "wt_sent t' = wt_sent t" "wt_closed t' = wt_closed t"
    by (simp_all add: t' sample_draining_def borrow_and_update_def case_prod_beta Let_def)
  have le: "length (wt_moments t') \<le> length (wt_moments (interlude t))"
    using shrinks[of "snd (sample_draining (interlude (snd (borrow_and_update (interlude t)))))"]
      shrinks[of "snd (borrow_and_update (interlude t))"] unfolding t' part by linarith
  with shrinks[of t] show "length (wt_moments t') \<le> length (wt_moments t)" by simp
  show "length (wt_moments t') < length (wt_moments t)" if "wt_moments t = Others ops # rest"
    using le that by (simp add: interlude_def)
qed

lemma is_true_still:
  "is_true e s \<Longrightarrow> later s s' \<Longrightarrow> cs_version s' = cs_version s \<Longrightarrow> lc_draining (cs_lifecycle s') = lc_draining (cs_lifecycle s) \<Longrightarrow> is_true e s'"
  by (simp add: is_true_def later_def)

lemma watch_inv_later:
  assumes "watch_inv ec request g t" "service_ok (wt_service t')" "later (wt_service t) (wt_service t')" "wt_previous t' = wt_previous t"
    and "wt_sequence t' = wt_sequence t" "wt_sent t' = wt_sent t" "wt_closed t' = wt_closed t"
  shows "watch_inv ec request g t'"
proof -
  have "cs_generation (wt_service t') = cs_generation (wt_service t)" using assms(3) by (simp add: later_def)
  moreover have "was_true old (wt_service t')" if "wt_previous t = Some old" for old
    using assms(1, 3) that was_true_later by (fastforce simp: watch_inv_def)
  ultimately show ?thesis using assms unfolding watch_inv_def by (simp split: option.splits)
qed

lemma watch_inv_sample:
  assumes "watch_inv ec request g t" "sample_event t = ((e, draining), t')"
  shows "watch_inv ec request g t'"
proof -
  have ok: "service_ok (wt_service t)" using assms(1) by (simp add: watch_inv_def)
  show ?thesis
    by (rule watch_inv_later[OF assms(1) sample_event_facts(1, 2)[OF assms(2) ok] sample_event_simps(1-4)[OF assms(2)]])
qed

lemma watch_round_keeps:
  assumes "event_codec_ok ec" "watch_inv ec request g t"
  shows "case watch_round ops rd c ec request t of Break r \<Rightarrow> watch_post ec request g r | Continue t' \<Rightarrow> watch_inv ec request g t'"
proof -
  obtain e draining t1 where smp: "sample_event t = ((e, draining), t1)" by (metis surj_pair)
  have ok: "service_ok (wt_service t)" using assms(2) by (simp add: watch_inv_def)
  note f = sample_event_facts[OF smp ok] and same = sample_event_simps[OF smp] and inv = watch_inv_sample[OF assms(2) smp]
  have c0: "le_change e = 0" by (rule sample_eventE[OF smp ok]) (simp add: lifecycle_event_default_def)
  show ?thesis
  proof (cases "wt_previous t1")
    case None
    have "change_ok e" using c0 by (auto simp: change_ok_def intro!: exI[of _ LifecycleChange_Snapshot])
    with send_event_keeps[OF assms(1) inv f(3, 4)] None c0 show ?thesis by (simp add: watch_round_def smp)
  next
    case (Some old)
    then have old: "was_true old (wt_service t)" "sound_event old" using assms(2) same(1) by (simp_all add: watch_inv_def)
    note fol = f(7)[OF old(1)]
    show ?thesis
    proof (cases "changed_kinds old e")
      case (Cons first others)
      let ?e = "e\<lparr>le_change := lifecycle_change_to_i32 (if others = [] then first else LifecycleChange_Snapshot)\<rparr>"
      have "sound_event ?e" "was_true ?e (wt_service t1)" "follows ?e old"
        using f(3, 4) fol by (simp_all add: sound_event_def was_true_def follows_def)
      with send_event_keeps[OF assms(1) inv _ _ changed_kinds_ok[OF fol old(2) Cons]] Some Cons show ?thesis
        by (simp add: watch_round_def smp)
    next
      case Nil
      obtain w t2 where w: "wait_change draining t1 = (w, t2)" by (metis surj_pair)
      obtain r a where sc: "subscription_closed rd (wt_session t2) = (r, a)" by (metis surj_pair)
      note wf = wait_change_facts[OF w f(1)]
      have inv2: "watch_inv ec request g t2"
        by (rule watch_inv_later[OF inv]) (use wf in simp_all)
      have "is_true old (wt_service t2)" if "\<not> w" "wt_moments t2 = []"
      proof -
        have nw: "cs_version (wt_service t2) = wt_seen t1" "draining \<or> \<not> lc_draining (cs_lifecycle (wt_service t2))"
          using wf that by (auto simp: woken_def draining_ready_def)
        have l: "later (wt_service t1) (wt_service t2)" using wf by blast
        have v: "cs_version (wt_service t2) = cs_version (wt_service t1)" "cs_version (wt_service t1) = wt_seen t1"
          using nw(1) f(6) l by (simp_all add: later_def)
        have d: "lc_draining (cs_lifecycle (wt_service t1)) = draining" "lc_draining (cs_lifecycle (wt_service t2)) = draining"
          using nw(2) l f(4, 5) by (auto simp: later_def was_true_def)
        have "is_true e (wt_service t2)" using is_true_still[OF f(8)[OF v(2) d(1)] l v(1)] d by simp
        then show ?thesis using unchanged_is_true[OF Nil fol old(2) f(3)] by simp
      qed
      with inv2 Some Nil w sc wf show ?thesis
        by (cases w) (simp_all add: watch_round_def smp watch_post_def watch_inv_def)
    qed
  qed
qed

text \<open>A round with nothing left to happen: it sends what has changed once, and then waits to the end.\<close>

definition quiet :: "('s, 'u) watch_task \<Rightarrow> bool" where
  "quiet t \<longleftrightarrow> (\<forall>ops rest. wt_moments t \<noteq> Others ops # rest)"

definition event_now :: "control_service \<Rightarrow> 'u lifecycle_event" where
  "event_now s = lifecycle_event_default\<lparr>le_process_id := cs_process_id s, le_generation := cs_generation s, le_build := cs_build s,
     le_ready := cs_ready s \<and> \<not> lc_draining (cs_lifecycle s), le_draining := lc_draining (cs_lifecycle s),
     le_selected_generation := ps_generation (cs_published s), le_selected_build := ps_build (cs_published s),
     le_retiring := ps_retiring (cs_published s)\<rparr>"

definition stale :: "('s, 'u) watch_task \<Rightarrow> nat" where
  "stale t = (case wt_previous t of Some old \<Rightarrow> if changed_kinds old (event_now (wt_service t)) = [] then 0 else 1 | None \<Rightarrow> 1)"

lemma quiet_sample:
  assumes "quiet t"
  shows "\<exists>l. sample_event t = ((event_now (wt_service t), lc_draining (cs_lifecycle (wt_service t))),
      t\<lparr>wt_seen := cs_version (wt_service t), wt_service := (wt_service t)\<lparr>cs_lifecycle := l\<rparr>\<rparr>) \<and> lc_draining l = lc_draining (cs_lifecycle (wt_service t))"
proof -
  have i: "interlude u = u" if "wt_moments u = wt_moments t" for u :: "('a, 'b) watch_task"
    using assms that by (auto simp: interlude_def quiet_def split: list.splits moment.splits)
  show ?thesis
    by (rule exI[of _ "snd (lifecycle_snapshot_of (cs_lifecycle (wt_service t)))"])
       (simp add: sample_event_def borrow_and_update_def sample_draining_def Let_def snapshot_draining case_prod_beta i event_now_def)
qed

lemma event_now_same: "lc_draining l = lc_draining (cs_lifecycle s) \<Longrightarrow> event_now (s\<lparr>cs_lifecycle := l\<rparr>) = event_now s"
  by (simp add: event_now_def)

lemma changed_kinds_none [simp]:
  "changed_kinds (x\<lparr>le_sequence := n\<rparr>) y = changed_kinds x y" "changed_kinds (y\<lparr>le_change := k\<rparr>) y = []"
  by (simp_all add: changed_kinds_def)

lemma send_event_continues:
  assumes "send_event ops c ec request x t = Continue t'"
  shows "wt_moments t' = wt_moments t" "wt_service t' = wt_service t" "\<exists>n. wt_previous t' = Some (x\<lparr>le_sequence := n\<rparr>)"
  using assms by (auto simp: send_event_def Let_def split: if_splits prod.splits sum.splits)

text \<open>A round that goes on has sent an event or was woken.\<close>

lemma watch_round_continues:
  assumes "watch_round ops rd c ec request t = Continue t'" "sample_event t = ((e, draining), t1)"
  obtains (sends) k where "send_event ops c ec request (e\<lparr>le_change := k\<rparr>) t1 = Continue t'"
      "case wt_previous t1 of None \<Rightarrow> True | Some old \<Rightarrow> changed_kinds old e \<noteq> []"
  | (waits) old where "wt_previous t1 = Some old" "changed_kinds old e = []" "wait_change draining t1 = (True, t')"
proof (cases "wt_previous t1")
  case None
  have "e\<lparr>le_change := le_change e\<rparr> = e" by simp
  with None assms sends[of "le_change e"] show thesis by (simp add: watch_round_def)
next
  case (Some old)
  show thesis
  proof (cases "changed_kinds old e")
    case (Cons first others)
    with Some assms sends show thesis by (simp add: watch_round_def)
  next
    case Nil
    obtain w t2 where "wait_change draining t1 = (w, t2)" by (metis surj_pair)
    with Nil Some assms waits show thesis by (cases w) (simp_all add: watch_round_def case_prod_beta)
  qed
qed

lemma watch_round_descends:
  assumes "watch_round ops rd c ec request t = Continue t'" "service_ok (wt_service t)"
  shows "(t', t) \<in> measures [\<lambda>t. length (wt_moments t), stale]"
proof -
  obtain e draining t1 where smp: "sample_event t = ((e, draining), t1)" by (metis surj_pair)
  note same = sample_event_simps[OF smp] and ok = sample_event_facts(1)[OF smp assms(2)]
  have shrink: "length (wt_moments t') \<le> length (wt_moments t1)"
    using assms(1) smp
    by (rule watch_round_continues) (use send_event_continues(1) wait_change_facts[OF _ ok] in fastforce)+
  show ?thesis
  proof (cases "quiet t")
    case False
    then have "length (wt_moments t1) < length (wt_moments t)" using same(6) by (auto simp: quiet_def)
    with shrink show ?thesis by simp
  next
    case True
    from quiet_sample[OF this] smp obtain l where t1: "t1 = t\<lparr>wt_seen := cs_version (wt_service t), wt_service := (wt_service t)\<lparr>cs_lifecycle := l\<rparr>\<rparr>"
      and e: "e = event_now (wt_service t)" and d: "draining = lc_draining (cs_lifecycle (wt_service t))" "lc_draining l = draining" by auto
    have waits_on: "wait_change draining t1 = (False, t1)"
      using True d by (subst wait_change.simps) (auto simp: t1 quiet_def woken_def draining_ready_def split: list.splits moment.splits)
    have "stale t = 1 \<and> wt_moments t' = wt_moments t \<and> stale t' = 0"
      using assms(1) smp
    proof (cases rule: watch_round_continues)
      case (sends k)
      note after = send_event_continues[OF sends(1)]
      from after(3) obtain n where "wt_previous t' = Some (e\<lparr>le_change := k, le_sequence := n\<rparr>)" by blast
      with after e d sends(2) same(1) show ?thesis by (auto simp: stale_def t1 event_now_same split: option.splits)
    next
      case (waits old)
      with waits_on show ?thesis by simp
    qed
    then show ?thesis by simp
  qed
qed


definition lifecycle_event_codec :: "'u buffa \<Rightarrow> 'u lifecycle_event merge_loop \<Rightarrow> 'u lifecycle_event codec" where
  "lifecycle_event_codec b loop =
    generated_codec (lifecycle_event_compute_size b) (lifecycle_event_write_to b) (loop (lifecycle_event_merge_field b) lifecycle_event_default)"

lemma lifecycle_event_codec_ok: "buffa_ok b \<Longrightarrow> loop_ok b loop \<Longrightarrow> event_codec_ok (lifecycle_event_codec b loop)"
  unfolding lifecycle_event_codec_def event_codec_ok_def
  by (rule generated_codec_ok) (simp_all add: lifecycle_event_loop sizes)


section \<open>Health and drain requests\<close>

definition valid_request :: "control_service \<Rightarrow> 'u control_msg \<Rightarrow> bool" where
  "valid_request s request \<longleftrightarrow> control_kind request = message_kind_to_i32 MessageKind_Lifecycle
    \<and> control_payload request = [] \<and> control_token request = [] \<and> control_offset request = None
    \<and> control_generation request \<in> {0, cs_generation s} \<and> control_operation request \<in> {operation_HEALTH, operation_DRAIN}"

definition health_now :: "control_service \<Rightarrow> 'u health" where
  "health_now s = health_default\<lparr>health_process_id := cs_process_id s, health_generation := cs_generation s, health_build := cs_build s,
     health_revision := cs_revision s, health_ready := cs_ready s \<and> \<not> lc_draining (cs_lifecycle s),
     health_draining := lc_draining (cs_lifecycle s), health_active := of_nat (lc_active (cs_lifecycle s))\<rparr>"

lemma snapshot_active:
  "lsnap_active (fst (lifecycle_snapshot_of l)) = lc_active l" "lc_active (snd (lifecycle_snapshot_of l)) = lc_active l"
  by (simp_all add: lifecycle_snapshot_of_def Let_def split: option.splits prod.splits)

lemma control_snapshot_now:
  "\<exists>l. control_snapshot s = (health_now s, s\<lparr>cs_lifecycle := l\<rparr>) \<and> lc_draining l = lc_draining (cs_lifecycle s) \<and> lc_active l = lc_active (cs_lifecycle s)"
  by (rule exI[of _ "snd (lifecycle_snapshot_of (cs_lifecycle s))"])
     (simp add: control_snapshot_def health_now_def Let_def case_prod_beta snapshot_active snapshot_draining)

lemma codec_ok_weaken: "codec_ok known c \<Longrightarrow> (\<And>m. known' m \<Longrightarrow> known m) \<Longrightarrow> codec_ok known' c"
  unfolding codec_ok_def by blast

definition health_reply :: "'u health codec \<Rightarrow> 'u control_msg \<Rightarrow> control_service \<Rightarrow> 'u control_msg" where
  "health_reply c request s = control_default\<lparr>control_operation := control_operation request,
     control_request_id := control_request_id request, control_generation := cs_generation s,
     control_payload := encode_to_vec c (health_now s)\<rparr>"

lemma control_handled:
  assumes "codec_ok (\<lambda>h. health_unknown h = []) c" "cs_process_id s \<noteq> 0" "valid_request s request"
    and "length (encode_to_vec c (health_now (snd (control_handle c request s)))) \<le> unat MAX_FRAME"
  obtains s' where "control_handle c request s = (Ok (health_reply c request s'), s')"
    "health_from_response c (health_reply c request s') request = Ok (health_now s')"
    "lc_draining (cs_lifecycle s') = (lc_draining (cs_lifecycle s) \<or> control_operation request = operation_DRAIN)"
    "lc_active (cs_lifecycle s') = lc_active (cs_lifecycle s)" "cs_published s' = cs_published s" "cs_ready s' = cs_ready s"
proof -
  define s0 where "s0 = (if control_operation request = operation_DRAIN then lifecycle_start_drain s else s)"
  obtain l where l: "control_snapshot s0 = (health_now s0 :: 'a health, s0\<lparr>cs_lifecycle := l\<rparr>)" "lc_draining l = lc_draining (cs_lifecycle s0)"
      "lc_active l = lc_active (cs_lifecycle s0)" using control_snapshot_now by blast
  let ?s' = "s0\<lparr>cs_lifecycle := l\<rparr>"
  have now: "health_now ?s' = (health_now s0 :: 'a health)" using l(2, 3) by (simp add: health_now_def)
  have "health_response c (health_now s0) request = Ok (health_reply c request ?s')"
    using assms(3) now by (simp add: health_response_def health_reply_def valid_request_def health_now_def)
  then have handled: "control_handle c request s = (Ok (health_reply c request ?s'), ?s')"
    using assms(3) l(1) by (auto simp: control_handle_def valid_request_def s0_def wire_constants)
  have "decode_message c (encode_to_vec c (health_now s0)) MAX_FRAME = Ok (health_now s0)"
    using assms(1, 4) unfolding handled now[symmetric]
    by (simp add: codec_ok_def decode_message_def health_now_def health_default_def)
  moreover have "cs_process_id s0 \<noteq> 0" using assms(2) by (simp add: s0_def lifecycle_start_drain_def)
  ultimately have "health_from_response c (health_reply c request ?s') request = Ok (health_now ?s')"
    using assms(3) unfolding now health_reply_def
    by (auto simp: health_from_response_def valid_request_def control_default_def health_now_def)
  with handled l(2, 3) show ?thesis by (intro that[of ?s']) (auto simp: s0_def lifecycle_start_drain_def)
qed

text \<open>Health and drain requests are answered truthfully. A well-formed request is always answered; the
  client accepts the reply and reads exactly the state of the service when it was answered, which after
  a drain request is draining; the requests in flight are untouched. Any other request is refused and changes
  nothing.
\<close>

theorem control_replies_are_truthful:
  assumes "codec_ok (\<lambda>h. health_unknown h = []) c" "cs_process_id s \<noteq> 0"
    and "length (encode_to_vec c (health_now (snd (control_handle c request s)))) \<le> unat MAX_FRAME"
  shows "case control_handle c request s of
      (Inl _, s') \<Rightarrow> \<not> valid_request s request \<and> s' = s
    | (Inr reply, s') \<Rightarrow> valid_request s request \<and> health_from_response c reply request = Ok (health_now s')
        \<and> lc_draining (cs_lifecycle s') = (lc_draining (cs_lifecycle s) \<or> control_operation request = operation_DRAIN)
        \<and> lc_active (cs_lifecycle s') = lc_active (cs_lifecycle s)
        \<and> cs_published s' = cs_published s \<and> cs_ready s' = cs_ready s"
proof (cases "valid_request s request")
  case False
  then show ?thesis by (auto simp: valid_request_def control_handle_def)
next
  case True
  show ?thesis by (rule control_handled[OF assms(1, 2) True assms(3)]) (simp add: True)
qed

theorem control_replies_are_truthful_witness:
  "\<exists>reply s'. control_handle (health_codec leb leb_loop) (control_default\<lparr>control_operation := operation_DRAIN\<rparr>)
      (control_service_new 7 (lifecycle_default \<lparr>time = 0, delays = []\<rparr>) 3 ''v1'' 1) = (Inr reply, s')
    \<and> health_from_response (health_codec leb leb_loop) reply (control_default\<lparr>control_operation := operation_DRAIN\<rparr>) = Ok (health_now s')
    \<and> lc_draining (cs_lifecycle s')"
proof -
  let ?c = "health_codec leb leb_loop" and ?r = "control_default\<lparr>control_operation := operation_DRAIN\<rparr>" and
    ?s = "control_service_new 7 (lifecycle_default \<lparr>time = 0, delays = []\<rparr>) 3 ''v1'' 1"
  have "codec_ok (\<lambda>h. health_unknown h = []) ?c"
    by (rule codec_ok_weaken[OF message_codecs_ok(3)[OF leb_ok leb_loop_ok]]) (simp add: health_known_def)
  moreover have "cs_process_id ?s \<noteq> 0" by (simp add: control_service_new_def)
  moreover have "length (encode_to_vec ?c (health_now (snd (control_handle ?c ?r ?s)))) \<le> unat MAX_FRAME" by code_simp
  moreover have "valid_request ?s ?r" by (simp add: valid_request_def control_default_def)
  ultimately show ?thesis
    using control_replies_are_truthful[of ?c ?s ?r] by (auto split: prod.splits sum.splits)
qed

end
