(* ===== verification/Client.thy ===== *)
theory Client
  imports Connect Control
begin

text \<open>
  Asking a service for its health, or telling it to drain: \<^verbatim>\<open>client.rs\<close>. The connection is a parameter:
  the attempt to connect, the credentials the operating system reports, and the stream. Every
  reading of the clock may come any time after the one before, which is the time the exchange takes.
\<close>

section \<open>Requests\<close>

datatype request_error =
    RequestError_Unavailable connect_error | RequestError_Peer rejected | RequestError_Credentials io_error
  | RequestError_ProcessMismatch (mismatch_peer: process_id) (mismatch_reported: u32)
  | RequestError_Late | RequestError_Protocol wire_error

definition request_error_is_transient :: "request_error \<Rightarrow> bool" where
  "request_error_is_transient e = (case e of RequestError_Unavailable error \<Rightarrow> connect_error_is_transient error | _ \<Rightarrow> False)"

text \<open>\<^verbatim>\<open>io_text\<close> and \<^verbatim>\<open>kind_text\<close> are how the standard library prints its own errors.\<close>

fun request_error_display :: "(wire_error \<Rightarrow> string) \<Rightarrow> (error_kind \<Rightarrow> string) \<Rightarrow> request_error \<Rightarrow> string" where
  "request_error_display io_text kind_text (RequestError_Unavailable error) =
    ''control endpoint unavailable: '' @ connect_error_display kind_text error"
| "request_error_display io_text kind_text (RequestError_Peer rejected) = ''control peer refused: '' @ rejected_display rejected"
| "request_error_display io_text kind_text (RequestError_ProcessMismatch peer reported) =
    ''control reply names process '' @ decimal (unat reported) @ '', but the connection belongs to '' @ process_id_display peer"
| "request_error_display io_text kind_text RequestError_Late = ''control reply arrived after the deadline''"
| "request_error_display io_text kind_text (RequestError_Credentials error) = ''control peer credentials failed: '' @ io_text (Io error)"
| "request_error_display io_text kind_text (RequestError_Protocol error) = ''control exchange failed: '' @ io_text error"

text \<open>\<^verbatim>\<open>Error::source\<close>.\<close>

datatype error_source = Source_Connect connect_error | Source_Rejected rejected | Source_Io wire_error

fun request_error_source :: "request_error \<Rightarrow> error_source option" where
  "request_error_source (RequestError_Unavailable error) = Some (Source_Connect error)"
| "request_error_source (RequestError_Peer rejected) = Some (Source_Rejected rejected)"
| "request_error_source (RequestError_Protocol error) = Some (Source_Io error)"
| "request_error_source (RequestError_Credentials error) = Some (Source_Io (Io error))"
| "request_error_source (RequestError_ProcessMismatch _ _) = None"
| "request_error_source RequestError_Late = None"

record 's duplex =
  dx_credentials :: "'s \<Rightarrow> io_error + credentials"
  dx_set_read_deadline :: "duration option \<Rightarrow> 's \<Rightarrow> (io_error + unit) \<times> 's"
  dx_split :: "'s \<Rightarrow> io_error + 's"
  dx_ops :: "'s stream_ops"

definition grant_peer :: "process_id option \<Rightarrow> credentials \<Rightarrow> rejected + unit" where
  "grant_peer expected evidence = (case expected of
      Some pid \<Rightarrow> map_sum id (\<lambda>_. ()) (expected_process (Some pid) evidence)
    | None \<Rightarrow> same_user evidence)"

text \<open>The exchange over one session: connect, send, receive and decode.\<close>

definition request_health ::
    "'s stream_ops \<Rightarrow> 'u hello codec \<Rightarrow> 'u control_msg codec \<Rightarrow> 'u health codec \<Rightarrow> 's \<Rightarrow> 'u hello \<Rightarrow> u32 \<Rightarrow> wire_error + 'u health" where
  "request_health ops hc c ec stream offer operation =
    (case session_connect ops hc stream offer of
       (Inl e, _) \<Rightarrow> Err e
     | (Inr session, _) \<Rightarrow>
         let message = control_default\<lparr>control_operation := operation\<rparr> in
         case and_then (session_send ops c message session) (\<lambda>_ session. session_receive ops c session) of
           (Inl e, _) \<Rightarrow> Err e
         | (Inr reply, _) \<Rightarrow> health_from_response ec reply message)"

definition request ::
    "('h, 's) attempts \<Rightarrow> 's duplex \<Rightarrow> 'u hello codec \<Rightarrow> 'u control_msg codec \<Rightarrow> 'u health codec \<Rightarrow> 'u hello \<Rightarrow> u32
     \<Rightarrow> process_id option \<Rightarrow> instant \<Rightarrow> 'h \<times> clock \<Rightarrow> (request_error + 'u health) \<times> 'h \<times> clock" where
  "request attempt d hc c ec offer operation expected deadline hk =
    (case connect_once_until attempt deadline hk of
       (Inl e, hk) \<Rightarrow> (Err (RequestError_Unavailable e), hk)
     | (Inr stream, h, k) \<Rightarrow>
         (case dx_credentials d stream of
            Inl e \<Rightarrow> (Err (RequestError_Credentials e), h, k)
          | Inr evidence \<Rightarrow>
         (case grant_peer expected evidence of
            Inl r \<Rightarrow> (Err (RequestError_Peer r), h, k)
          | Inr _ \<Rightarrow>
         (case cred_pid evidence of
            None \<Rightarrow> (Err (RequestError_Peer Rejected_Unreported), h, k)
          | Some peer \<Rightarrow>
         (let (left, k) = remaining deadline k in
          if left = 0 then (Err RequestError_Late, h, k)
          else case dx_set_read_deadline d (Some left) stream of
            (Inl e, _) \<Rightarrow> (Err (RequestError_Protocol (Io e)), h, k)
          | (Inr _, stream) \<Rightarrow>
         (case dx_split d stream of
            Inl e \<Rightarrow> (Err (RequestError_Protocol (Io e)), h, k)
          | Inr stream \<Rightarrow>
         (case request_health (dx_ops d) hc c ec stream offer operation of
            Inl e \<Rightarrow> (Err (RequestError_Protocol e), h, k)
          | Inr health \<Rightarrow>
              if health_process_id health \<noteq> process_id_get peer
              then (Err (RequestError_ProcessMismatch peer (health_process_id health)), h, k)
              else let (late, k) = past (Some deadline) k in
                if late then (Err RequestError_Late, h, k) else (Ok health, h, k))))))))"

definition client_health ::
    "('h, 's) attempts \<Rightarrow> 's duplex \<Rightarrow> 'u hello codec \<Rightarrow> 'u control_msg codec \<Rightarrow> 'u health codec \<Rightarrow> 'u hello
     \<Rightarrow> process_id option \<Rightarrow> instant \<Rightarrow> 'h \<times> clock \<Rightarrow> (request_error + 'u health) \<times> 'h \<times> clock" where
  "client_health attempt d hc c ec offer expected deadline =
    request attempt d hc c ec offer operation_HEALTH expected deadline"

definition client_drain ::
    "('h, 's) attempts \<Rightarrow> 's duplex \<Rightarrow> 'u hello codec \<Rightarrow> 'u control_msg codec \<Rightarrow> 'u health codec \<Rightarrow> 'u hello
     \<Rightarrow> process_id option \<Rightarrow> instant \<Rightarrow> 'h \<times> clock \<Rightarrow> (request_error + 'u health) \<times> 'h \<times> clock" where
  "client_drain attempt d hc c ec offer expected deadline =
    request attempt d hc c ec offer operation_DRAIN expected deadline"

section \<open>What a reply rests on\<close>

lemma grant_peer_ok: "grant_peer expected evidence = Inr u \<Longrightarrow>
    cred_same_user evidence \<and> (\<forall>pid. expected = Some pid \<longrightarrow> cred_pid evidence = Some pid)"
  by (auto simp: grant_peer_def expected_process_def same_user_def match_pid_def split: option.splits if_splits)

lemma request_health_ok:
  assumes "request_health ops hc c ec stream offer operation = Inr health"
  shows "health_process_id health \<noteq> 0 \<and> \<not> (health_ready health \<and> health_draining health)
    \<and> operation \<in> {operation_HEALTH, operation_DRAIN}
    \<and> (\<exists>session s'. session_connect ops hc stream offer = (Inr session, s'))"
  using assms
  by (auto simp: request_health_def Let_def health_from_response_def control_default_def split: prod.splits sum.splits if_splits)

lemma request_okE:
  assumes "request attempt d hc c ec offer operation expected deadline hk = (Inr health, h', k')"
  obtains stream h k evidence peer s s' where
    "connect_once_until attempt deadline hk = (Inr stream, h, k)" "dx_credentials d stream = Inr evidence"
    "grant_peer expected evidence = Inr ()" "cred_pid evidence = Some peer" "0 < deadline - time (tick k)"
    "dx_set_read_deadline d (Some (deadline - time (tick k))) stream = (Inr (), s)" "dx_split d s = Inr s'"
    "request_health (dx_ops d) hc c ec s' offer operation = Inr health" "health_process_id health = process_id_get peer"
    "time k' < deadline"
  using assms
  by (auto simp: request_def Let_def time_simps not_le split: prod.splits sum.splits option.splits if_splits)

lemma request_error_transient:
  assumes "request attempt d hc c ec offer operation expected deadline hk = (Inl e, h', k')"
  shows "request_error_is_transient e \<longleftrightarrow> fst (connect_once_until attempt deadline hk) = Inl ConnectError_ConnectTimeout"
  using assms
  by (auto simp: request_def Let_def time_simps request_error_is_transient_def connect_error_is_transient_def
      split: prod.splits sum.splits option.splits if_splits)

text \<open>C23: A reply is trusted only from the peer it names, in time. Whatever the connection, the clock and the other
  end do: health that is returned names the process the operating system reports for that connection, of
  this user and the expected one if given, came over a negotiated session, is consistent, and was there before the
  deadline. An error is worth retrying exactly when nothing accepted the connection.
\<close>

theorem replies_come_from_the_peer:
  "case request attempt d hc c ec offer operation expected deadline (h, k) of
     (Inr health, h', k') \<Rightarrow> \<exists>stream evidence peer left session s.
       fst (connect_once_until attempt deadline (h, k)) = Inr stream \<and> dx_credentials d stream = Inr evidence
       \<and> cred_same_user evidence \<and> cred_pid evidence = Some peer \<and> expected \<in> {None, Some peer}
       \<and> process_id_get peer = health_process_id health \<and> \<not> (health_ready health \<and> health_draining health)
       \<and> 0 < left \<and> dx_set_read_deadline d (Some left) stream = (Ok (), s)
       \<and> map_sum id (\<lambda>s. fst (session_connect (dx_ops d) hc s offer)) (dx_split d s) = Inr (Inr session)
       \<and> time k' < deadline
   | (Inl e, h', k') \<Rightarrow> request_error_is_transient e \<longleftrightarrow>
       fst (connect_once_until attempt deadline (h, k)) = Inl ConnectError_ConnectTimeout"
proof -
  obtain r h' k' where r: "request attempt d hc c ec offer operation expected deadline (h, k) = (r, h', k')" by (metis surj_pair)
  show ?thesis
  proof (cases r)
    case (Inl e)
    then show ?thesis using request_error_transient[of attempt d hc c ec offer operation expected deadline "(h, k)" e h' k'] r by simp
  next
    case (Inr health)
    with r have "request attempt d hc c ec offer operation expected deadline (h, k) = (Inr health, h', k')" by simp
    then obtain stream h1 k1 evidence peer s s' where ok:
        "connect_once_until attempt deadline (h, k) = (Inr stream, h1, k1)" "dx_credentials d stream = Inr evidence"
        "grant_peer expected evidence = Inr ()" "cred_pid evidence = Some peer" "0 < deadline - time (tick k1)"
        "dx_set_read_deadline d (Some (deadline - time (tick k1))) stream = (Inr (), s)" "dx_split d s = Inr s'"
        "request_health (dx_ops d) hc c ec s' offer operation = Inr health" "health_process_id health = process_id_get peer"
        "time k' < deadline"
      by (rule request_okE)
    note granted = grant_peer_ok[OF ok(3)] and health = request_health_ok[OF ok(8)]
    then obtain session s'' where "session_connect (dx_ops d) hc s' offer = (Inr session, s'')" by blast
    with ok granted health have "fst (connect_once_until attempt deadline (h, k)) = Inr stream \<and> dx_credentials d stream = Inr evidence
       \<and> cred_same_user evidence \<and> cred_pid evidence = Some peer \<and> expected \<in> {None, Some peer}
       \<and> process_id_get peer = health_process_id health \<and> \<not> (health_ready health \<and> health_draining health)
       \<and> 0 < deadline - time (tick k1) \<and> dx_set_read_deadline d (Some (deadline - time (tick k1))) stream = (Ok (), s)
       \<and> map_sum id (\<lambda>s. fst (session_connect (dx_ops d) hc s offer)) (dx_split d s) = Inr (Inr session) \<and> time k' < deadline"
      by (cases expected) auto
    then show ?thesis unfolding r Inr prod.case sum.case by blast
  qed
qed

section \<open>A request and its answer\<close>

text \<open>
  One request over an established session, from end to end: the client sends, the service receives,
  handles and answers, the client receives and decodes. What one end has written is what the other reads.
\<close>

definition ask ::
    "'u control_msg codec \<Rightarrow> 'u health codec \<Rightarrow> agreement \<Rightarrow> 'u control_msg \<Rightarrow> control_service \<Rightarrow> (wire_error + 'u health) \<times> control_service" where
  "ask c ec ag message s =
    (case session_send tape_ops c message (ready (heard []) ag) of
       (Inl e, _) \<Rightarrow> (Err e, s)
     | (Inr _, client) \<Rightarrow>
    (case async_receive tape_ops c \<lparr>as_io = heard (tape_output (framed_io (session_frames client))), as_agreement = ag, as_failed = False\<rparr> of
       (Inl e, _) \<Rightarrow> (Err e, s)
     | (Inr asked, server) \<Rightarrow>
         and_then (control_handle ec asked s) (\<lambda>reply s.
         (case async_send tape_ops c reply server of
            (Inl e, _) \<Rightarrow> Err e
          | (Inr _, server) \<Rightarrow>
              (case session_receive tape_ops c (ready (heard (tape_output (as_io server))) ag) of
                 (Inl e, _) \<Rightarrow> Err e
               | (Inr reply, _) \<Rightarrow> health_from_response ec reply message), s))))"

lemma async_send_ready:
  "session_of a = ready t ag \<Longrightarrow> session_send tape_ops c m (ready t ag) = (r, ready t' ag) \<Longrightarrow>
    \<exists>b. async_send tape_ops c m a = (r, b) \<and> as_io b = t'"
  using async_send_refines[of tape_ops c m a] by (auto simp: session_of_def frames_of_def ready_def split: prod.splits)

lemma async_receive_ready:
  "session_of a = ready t ag \<Longrightarrow> session_receive tape_ops c (ready t ag) = (r, ready t' ag) \<Longrightarrow>
    \<exists>b. async_receive tape_ops c a = (r, b) \<and> session_of b = ready t' ag"
  using async_receive_refines[of tape_ops c a] by (auto split: prod.splits)

lemma heard_receive:
  assumes "codec_ok known c" "known m" "encode_frame c m (agreement_max_frame ag) = Inr frame" "agreement_max_frame ag \<le> MAX_FRAME"
    and "session_check (ready (heard []) ag) m = Ok ()"
  shows "session_receive tape_ops c (ready (heard frame) ag) = (Ok m, ready (heard []) ag)"
  using receive_step[OF encode_frame_for[OF assms(1-3) order_refl assms(4)] assms(5), of "[]"] by (simp add: heard_def)

text \<open>C35: A well-formed health or drain request on a session that agreed the operation is answered, and what the
  client returns is the state of the service when it answered: after a drain request it reports draining, as the
  service is, and the requests in flight are the service's.
\<close>

theorem requests_are_answered:
  assumes "codec_ok known c" "codec_ok (\<lambda>h. health_unknown h = []) ec" "cs_process_id s \<noteq> 0" "valid_request s message"
    and "session_check (ready (heard []) ag) message = Ok ()" "agreement_max_frame ag \<le> MAX_FRAME"
    and "length (encode_to_vec ec (health_now (snd (control_handle ec message s)))) \<le> unat MAX_FRAME"
    and "known message" "encode_frame c message (agreement_max_frame ag) = Inr frame"
    and "known (health_reply ec message (snd (control_handle ec message s)))"
        "encode_frame c (health_reply ec message (snd (control_handle ec message s))) (agreement_max_frame ag) = Inr frame'"
  shows "\<exists>s'. ask c ec ag message s = (Ok (health_now s'), s')
    \<and> lc_draining (cs_lifecycle s') = (lc_draining (cs_lifecycle s) \<or> control_operation message = operation_DRAIN)
    \<and> lc_active (cs_lifecycle s') = lc_active (cs_lifecycle s)"
proof (rule control_handled[OF assms(2, 3, 4, 7)])
  fix s'
  let ?reply = "health_reply ec message s'" and ?a = "\<lparr>as_io = heard frame, as_agreement = ag, as_failed = False\<rparr>"
  assume handled: "control_handle ec message s = (Ok ?reply, s')"
    and rest: "health_from_response ec ?reply message = Ok (health_now s')"
      "lc_draining (cs_lifecycle s') = (lc_draining (cs_lifecycle s) \<or> control_operation message = operation_DRAIN)"
      "lc_active (cs_lifecycle s') = lc_active (cs_lifecycle s)"
  have "control_kind ?reply = control_kind message" "control_operation ?reply = control_operation message"
    using assms(4) by (simp_all add: health_reply_def valid_request_def control_default_def)
  then have same: "session_check (ready (heard []) ag) ?reply = Ok ()"
    using assms(5) by (simp only: session_check_def required_capability_def)
  have frames: "known ?reply" "encode_frame c ?reply (agreement_max_frame ag) = Inr frame'" using assms(10, 11) handled by simp_all
  have "session_of ?a = ready (heard frame) ag" by (simp add: session_of_def ready_def)
  from async_receive_ready[OF this heard_receive[OF assms(1, 8, 9, 6, 5)]]
  obtain b where b: "async_receive tape_ops c ?a = (Ok message, b)" "session_of b = ready (heard []) ag" by blast
  have "session_send tape_ops c ?reply (ready (heard []) ag) = (Ok (), ready ((heard [])\<lparr>tape_output := frame'\<rparr>) ag)"
    using same frames(2) by (simp add: send_step)
  from async_send_ready[OF b(2) this]
  obtain d where d: "async_send tape_ops c ?reply b = (Ok (), d)" "tape_output (as_io d) = frame'" by auto
  have "session_send tape_ops c message (ready (heard []) ag) = (Ok (), ready ((heard [])\<lparr>tape_output := frame\<rparr>) ag)"
    using assms(5, 9) by (simp add: send_step)
  then have "ask c ec ag message s = (Ok (health_now s'), s')"
    using b d handled rest(1) heard_receive[OF assms(1) frames assms(6) same] by (simp add: ask_def ready_def and_then_def)
  with rest show ?thesis by blast
qed

theorem requests_are_answered_witness:
  "\<exists>s' :: control_service. ask leb_control (health_codec leb leb_loop)
      \<lparr>agreement_version = 1, agreement_capabilities = capability_DRAIN, agreement_max_frame = 4096\<rparr>
      (control_default\<lparr>control_operation := operation_DRAIN\<rparr>)
      (control_service_new 7 (lifecycle_default \<lparr>time = 0, delays = []\<rparr>) 3 ''v1'' 1) = (Ok (health_now s'), s')
    \<and> lc_draining (cs_lifecycle s')"
proof -
  let ?c = leb_control and ?ec = "health_codec leb leb_loop" and ?m = "control_default\<lparr>control_operation := operation_DRAIN\<rparr>"
    and ?s = "control_service_new 7 (lifecycle_default \<lparr>time = 0, delays = []\<rparr>) 3 ''v1'' 1"
    and ?ag = "\<lparr>agreement_version = 1, agreement_capabilities = capability_DRAIN, agreement_max_frame = 4096\<rparr>"
  let ?s' = "snd (control_handle ?ec ?m ?s)"
  have ec: "codec_ok (\<lambda>h. health_unknown h = []) ?ec"
    by (rule codec_ok_weaken[OF message_codecs_ok(3)[OF leb_ok leb_loop_ok]]) (simp add: health_known_def)
  have known: "control_known leb ?m" "control_known leb (health_reply ?ec ?m ?s')"
    by (simp_all add: control_known_def health_reply_def control_default_def)
  have "\<not> isl (encode_frame ?c ?m 4096)" "\<not> isl (encode_frame ?c (health_reply ?ec ?m ?s') 4096)" by code_simp+
  then obtain frame frame' where frames: "encode_frame ?c ?m (agreement_max_frame ?ag) = Inr frame"
      "encode_frame ?c (health_reply ?ec ?m ?s') (agreement_max_frame ?ag) = Inr frame'" by (auto simp: isl_def) (metis old.sum.exhaust)
  have small: "length (encode_to_vec ?ec (health_now ?s')) \<le> unat MAX_FRAME" by code_simp
  have check: "session_check (ready (heard []) ?ag) ?m = Ok ()" by code_simp
  have "cs_process_id ?s \<noteq> 0" "valid_request ?s ?m" by (simp_all add: control_service_new_def valid_request_def control_default_def)
  moreover have "agreement_max_frame ?ag \<le> MAX_FRAME" by (simp add: wire_constants)
  ultimately have "cs_process_id ?s \<noteq> 0" "valid_request ?s ?m" "session_check (ready (heard []) ?ag) ?m = Ok ()" "agreement_max_frame ?ag \<le> MAX_FRAME"
    using check by blast+
  from requests_are_answered[OF leb_control_ok ec this small known(1) frames(1) known(2) frames(2)]
  show ?thesis by (auto simp: control_default_def)
qed

end
