(* ===== verification/Serve.thy ===== *)
theory Serve
  imports Lifecycle Admission Peer
begin

text \<open>
  The accept loop (\<^verbatim>\<open>src/src/serve.rs\<close>). Handlers, other tasks and the listener run beside the loop: a
  schedule says what they do before each poll of the loop and while a connection is being admitted, and what
  the listener answers. A handler drops its permit at the latest when it ends, however it ends. The pause after a
  descriptor shortage takes time nothing in the loop reads; dropping the future of the loop is not modelled.
\<close>

section \<open>State\<close>

record served =
  served_admitted :: u64
  served_unauthenticated :: u64
  served_over_capacity :: u64
  served_aborted :: u64

definition served_default :: served where
  "served_default = \<lparr>served_admitted = 0, served_unauthenticated = 0, served_over_capacity = 0, served_aborted = 0\<rparr>"

record serve_error =
  serve_failure :: io_error
  serve_served :: served

definition serve_error_display :: "(io_error \<Rightarrow> string) \<Rightarrow> serve_error \<Rightarrow> string" where
  "serve_error_display shown e = ''accept loop failed: '' @ shown (serve_failure e)"

definition serve_error_source :: "serve_error \<Rightarrow> io_error option" where
  "serve_error_source e = Some (serve_failure e)"

text \<open>The configuration: \<^verbatim>\<open>Serve\<close> without its shared parts, which are in the state of the loop.\<close>

record 'g serve =
  serve_policy :: "'g policy"
  serve_drain_budget :: duration

definition serve_new :: "'g policy \<Rightarrow> 'g serve" where
  "serve_new policy = \<lparr>serve_policy = policy, serve_drain_budget = from_millis 5000\<rparr>"

definition drain_budget :: "duration \<Rightarrow> 'g serve \<Rightarrow> 'g serve" where
  "drain_budget budget s = s\<lparr>serve_drain_budget := budget\<rparr>"

definition is_descriptor_exhaustion :: "bool \<Rightarrow> io_error \<Rightarrow> bool" where
  "is_descriptor_exhaustion unix e \<longleftrightarrow> unix \<and> io_os e \<in> {Some 23, Some 24}"

text \<open>How a task of the \<^verbatim>\<open>JoinSet\<close> ended, as joining it tells, and the task: the permit is gone once dropped.\<close>

datatype join_result = Joined_Ok | Joined_Panicked | Joined_Cancelled

record ('c, 'g) task =
  task_authenticated :: "('c, 'g) authenticated"
  task_permit :: "permit option"
  task_ended :: "join_result option"

text \<open>What became of an accepted connection; \<^verbatim>\<open>Fate_Drained\<close> is one dropped because draining started meanwhile.\<close>

datatype ('c, 'g) fate =
    Fate_Handed "('c, 'g) authenticated" | Fate_Unauthenticated 'c "io_error + credentials"
  | Fate_Full "('c, 'g) authenticated" | Fate_Drained "('c, 'g) authenticated"

text \<open>
  The state of the loop. \<^verbatim>\<open>sv_elsewhere\<close> counts the permits of each pool other holders have, and \<^verbatim>\<open>sv_fates\<close>
  records what became of each connection; the loop reads neither.
\<close>

record ('c, 'g) serving =
  sv_lifecycle :: lifecycle
  sv_admission :: admission
  sv_handlers :: "('c, 'g) task list"
  sv_served :: served
  sv_elsewhere :: "pool \<Rightarrow> nat"
  sv_fates :: "('c, 'g) fate list"

section \<open>What runs beside the loop\<close>

datatype act =
    Act_StartDrain | Act_Begin | Act_GuardDrop
  | Act_Enter pool | Act_Leave pool
  | Act_Release nat | Act_End nat bool

definition release_permit :: "permit option \<Rightarrow> admission \<Rightarrow> admission" where
  "release_permit permit a = (case permit of None \<Rightarrow> a | Some permit \<Rightarrow> permit_drop permit a)"

definition end_task :: "nat \<Rightarrow> join_result option \<Rightarrow> ('c, 'g) serving \<Rightarrow> ('c, 'g) serving" where
  "end_task i ended s =
    (if i < length (sv_handlers s) \<and> task_ended (sv_handlers s ! i) = None then
       s\<lparr>sv_admission := release_permit (task_permit (sv_handlers s ! i)) (sv_admission s),
         sv_handlers := (sv_handlers s)[i := (sv_handlers s ! i)\<lparr>task_permit := None, task_ended := ended\<rparr>]\<rparr>
     else s)"

fun serve_act :: "act \<Rightarrow> ('c, 'g) serving \<Rightarrow> ('c, 'g) serving" where
  "serve_act Act_StartDrain s = s\<lparr>sv_lifecycle := snd (start_drain (sv_lifecycle s))\<rparr>"
| "serve_act Act_Begin s = s\<lparr>sv_lifecycle := snd (lifecycle_begin (sv_lifecycle s))\<rparr>"
| "serve_act Act_GuardDrop s = s\<lparr>sv_lifecycle := guard_drop (sv_lifecycle s)\<rparr>"
| "serve_act (Act_Enter p) s = (case admission_try_acquire p (sv_admission s) of
      (permit, a) \<Rightarrow> s\<lparr>sv_admission := a,
        sv_elsewhere := (if permit = None then sv_elsewhere s else (sv_elsewhere s)(p := sv_elsewhere s p + 1))\<rparr>)"
| "serve_act (Act_Leave p) s =
    (if sv_elsewhere s p = 0 then s
     else s\<lparr>sv_admission := permit_drop \<lparr>permit_pool = p\<rparr> (sv_admission s), sv_elsewhere := (sv_elsewhere s)(p := sv_elsewhere s p - 1)\<rparr>)"
| "serve_act (Act_Release i) s = end_task i None s"
| "serve_act (Act_End i panics) s = end_task i (Some (if panics then Joined_Panicked else Joined_Ok)) s"

definition serve_acts :: "act list \<Rightarrow> ('c, 'g) serving \<Rightarrow> ('c, 'g) serving" where
  "serve_acts acts s = fold serve_act acts s"

section \<open>The loop\<close>

text \<open>\<^verbatim>\<open>JoinSet::join_next\<close> when polled: a task that ended leaves the set.\<close>

definition has_ended :: "('c, 'g) task \<Rightarrow> bool" where
  "has_ended t \<longleftrightarrow> task_ended t \<noteq> None"

fun join_next :: "('c, 'g) task list \<Rightarrow> (join_result \<times> ('c, 'g) task list) option" where
  "join_next [] = None"
| "join_next (t # ts) = (case task_ended t of
      Some r \<Rightarrow> Some (r, ts)
    | None \<Rightarrow> map_option (apsnd ((#) t)) (join_next ts))"

text \<open>
  One poll of the loop: what happened before it, what the listener has by then, what happens while a
  connection is checked and after its permit is taken, and whether the pause after a descriptor shortage is
  left for the drain or for its end when both are due.
\<close>

datatype 'c accepted = Accepted_Connection 'c "io_error + credentials" | Accepted_Error io_error

record 'c turn =
  turn_before :: "act list"
  turn_accepted :: "'c accepted option"
  turn_checking :: "act list"
  turn_admitting :: "act list"
  turn_drain_first :: bool

definition noted_fate :: "('c, 'g) fate \<Rightarrow> ('c, 'g) serving \<Rightarrow> ('c, 'g) serving" where
  "noted_fate f s = s\<lparr>sv_fates := sv_fates s @ [f]\<rparr>"

definition unauthenticated :: "'c \<Rightarrow> io_error + credentials \<Rightarrow> ('c, 'g) serving \<Rightarrow> ('c, 'g) serving" where
  "unauthenticated c evidence s = noted_fate (Fate_Unauthenticated c evidence)
    (s\<lparr>sv_served := (sv_served s)\<lparr>served_unauthenticated := served_unauthenticated (sv_served s) + 1\<rparr>,
       sv_lifecycle := lifecycle_record Event_Rejected (sv_lifecycle s)\<rparr>)"

definition admit :: "('g \<Rightarrow> pool) \<Rightarrow> act list \<Rightarrow> ('c, 'g) authenticated \<Rightarrow> ('c, 'g) serving
    \<Rightarrow> ((io_error + unit) \<times> ('c, 'g) serving, ('c, 'g) serving) control" where
  "admit pool_of admitting a s =
    (case admission_try_acquire (pool_of (auth_grant a)) (sv_admission s) of
       (None, admission) \<Rightarrow> Continue (noted_fate (Fate_Full a) (s\<lparr>sv_admission := admission,
         sv_served := (sv_served s)\<lparr>served_over_capacity := served_over_capacity (sv_served s) + 1\<rparr>\<rparr>))
     | (Some permit, admission) \<Rightarrow>
         let s = serve_acts admitting (s\<lparr>sv_admission := admission\<rparr>) in
         if \<not> accepting_calls (sv_lifecycle s)
         then Break (Ok (), noted_fate (Fate_Drained a) (s\<lparr>sv_admission := permit_drop permit (sv_admission s)\<rparr>))
         else Continue (noted_fate (Fate_Handed a)
           (s\<lparr>sv_served := (sv_served s)\<lparr>served_admitted := served_admitted (sv_served s) + 1\<rparr>,
              sv_handlers := sv_handlers s @ [\<lparr>task_authenticated = a, task_permit = Some permit, task_ended = None\<rparr>]\<rparr>)))"

definition serve_accepted :: "bool \<Rightarrow> 'g serve \<Rightarrow> ('g \<Rightarrow> pool) \<Rightarrow> 'c turn \<Rightarrow> 'c accepted \<Rightarrow> ('c, 'g) serving
    \<Rightarrow> ((io_error + unit) \<times> ('c, 'g) serving, ('c, 'g) serving) control" where
  "serve_accepted unix sv pool_of t accepted s = (case accepted of
     Accepted_Connection c evidence \<Rightarrow>
       (case evidence of
          Inl _ \<Rightarrow> Continue (unauthenticated c evidence s)
        | Inr e \<Rightarrow> (case authenticate c e (serve_policy sv) of
            Inl _ \<Rightarrow> Continue (unauthenticated c evidence s)
          | Inr a \<Rightarrow> admit pool_of (turn_admitting t) a (serve_acts (turn_checking t) s)))
   | Accepted_Error e \<Rightarrow>
       if is_descriptor_exhaustion unix e then
         (let s = serve_acts (turn_checking t) s in
          if draining_ready (sv_lifecycle s) \<and> turn_drain_first t then Break (Ok (), s) else Continue s)
       else Break (Err e, s))"

text \<open>\<^const>\<open>None\<close>: the loop is still waiting when the schedule ends.\<close>

definition serve_poll :: "bool \<Rightarrow> 'g serve \<Rightarrow> ('g \<Rightarrow> pool) \<Rightarrow> 'c turn \<Rightarrow> ('c, 'g) serving
    \<Rightarrow> ((io_error + unit) \<times> ('c, 'g) serving, ('c, 'g) serving) control" where
  "serve_poll unix sv pool_of t s =
    (let s = serve_acts (turn_before t) s in
     if draining_ready (sv_lifecycle s) then Break (Ok (), s)
     else case join_next (sv_handlers s) of
       Some (_, handlers) \<Rightarrow> Continue (s\<lparr>sv_handlers := handlers\<rparr>)
     | None \<Rightarrow> (case turn_accepted t of
         None \<Rightarrow> Continue s
       | Some accepted \<Rightarrow> serve_accepted unix sv pool_of t accepted s))"

fun accepting :: "bool \<Rightarrow> 'g serve \<Rightarrow> ('g \<Rightarrow> pool) \<Rightarrow> 'c turn list \<Rightarrow> ('c, 'g) serving \<Rightarrow> ((io_error + unit) \<times> ('c, 'g) serving) option" where
  "accepting unix sv pool_of [] s = None"
| "accepting unix sv pool_of (t # ts) s = (case serve_poll unix sv pool_of t s of
      Break r \<Rightarrow> Some r
    | Continue s \<Rightarrow> accepting unix sv pool_of ts s)"

section \<open>Draining the handlers\<close>

text \<open>Each pause: what runs during it, and how long it takes; then \<^verbatim>\<open>timeout_at\<close> polls the join before the clock.\<close>

fun joining :: "instant \<Rightarrow> (act list \<times> duration) list \<Rightarrow> ('c, 'g) serving \<times> clock \<Rightarrow> (('c, 'g) serving \<times> clock) option" where
  "joining deadline [] (s, c) = (if sv_handlers s = [] then Some (s, c) else None)"
| "joining deadline ((acts, took) # pauses) (s, c) =
    (if sv_handlers s = [] then Some (s, c)
     else let s = serve_acts acts s; c = elapse took c in
       case join_next (sv_handlers s) of
         Some (_, handlers) \<Rightarrow> joining deadline pauses (s\<lparr>sv_handlers := handlers\<rparr>, c)
       | None \<Rightarrow> if deadline \<le> time c then Some (s, c) else joining deadline pauses (s, c))"

text \<open>After \<^verbatim>\<open>abort_all\<close> every task still running ends: cancelled, or finished before it noticed.\<close>

definition abort_all :: "(nat \<Rightarrow> join_result) \<Rightarrow> ('c, 'g) serving \<Rightarrow> ('c, 'g) serving" where
  "abort_all how s = fold (\<lambda>i. end_task i (Some (how i))) [0..<length (sv_handlers s)] s"

fun join_all :: "('c, 'g) task list \<Rightarrow> u64 \<Rightarrow> u64" where
  "join_all [] aborted = aborted"
| "join_all (t # ts) aborted = join_all ts (if task_ended t = Some Joined_Cancelled then aborted + 1 else aborted)"

definition serve_finish :: "duration \<Rightarrow> (act list \<times> duration) list \<Rightarrow> (nat \<Rightarrow> join_result) \<Rightarrow> ('c, 'g) serving \<times> clock
    \<Rightarrow> (u64 ret \<times> ('c, 'g) serving \<times> clock) option" where
  "serve_finish budget pauses how = (\<lambda>(s, c).
    case now_plus budget c of
      (None, c) \<Rightarrow> Some (Panicked, s, c)
    | (Some deadline, c) \<Rightarrow>
        map_option (\<lambda>(s, c). let s = abort_all how s in
          (Returned (join_all (sv_handlers s) 0), s\<lparr>sv_handlers := []\<rparr>, c)) (joining deadline pauses (s, c)))"

definition serve_run :: "bool \<Rightarrow> 'g serve \<Rightarrow> ('g \<Rightarrow> pool) \<Rightarrow> 'c turn list \<Rightarrow> (act list \<times> duration) list \<Rightarrow> (nat \<Rightarrow> join_result)
    \<Rightarrow> ('c, 'g) serving \<times> clock \<Rightarrow> ((serve_error + served) ret \<times> ('c, 'g) serving \<times> clock) option" where
  "serve_run unix sv pool_of turns pauses how = (\<lambda>(s, c).
    case accepting unix sv pool_of turns (s\<lparr>sv_served := served_default, sv_handlers := []\<rparr>) of
      None \<Rightarrow> None
    | Some (stopped, s) \<Rightarrow>
        map_option (\<lambda>(aborted, s, c). case aborted of
            Panicked \<Rightarrow> (Panicked, s, c)
          | Returned aborted \<Rightarrow>
              let s = s\<lparr>sv_served := (sv_served s)\<lparr>served_aborted := aborted\<rparr>\<rparr> in
              (Returned (case stopped of
                 Inr _ \<Rightarrow> Ok (sv_served s)
               | Inl e \<Rightarrow> Err \<lparr>serve_failure = e, serve_served = sv_served s\<rparr>), s, c))
          (serve_finish (serve_drain_budget sv) pauses how (s, c)))"

section \<open>Invariant\<close>

definition holds :: "pool \<Rightarrow> ('c, 'g) task list \<Rightarrow> nat" where
  "holds p ts = length (filter (\<lambda>t. task_permit t = Some \<lparr>permit_pool = p\<rparr>) ts)"

definition task_ok :: "('c, 'g) task \<Rightarrow> bool" where
  "task_ok t \<longleftrightarrow> task_ended t = None \<or> task_permit t = None"

text \<open>Every permit out is with another holder, with a handler, or in the hands of the loop.\<close>

definition serve_ok :: "(pool \<Rightarrow> nat) \<Rightarrow> ('c, 'g) serving \<Rightarrow> bool" where
  "serve_ok loop s \<longleftrightarrow> within_limits (sv_admission s) \<and> list_all task_ok (sv_handlers s)
    \<and> (\<forall>p. occupancy p (sv_admission s) = sv_elsewhere s p + holds p (sv_handlers s) + loop p)"

definition keeps :: "('c, 'g) serving \<Rightarrow> ('c, 'g) serving \<Rightarrow> bool" where
  "keeps s s' \<longleftrightarrow> sv_fates s' = sv_fates s \<and> sv_served s' = sv_served s
    \<and> map task_authenticated (sv_handlers s') = map task_authenticated (sv_handlers s)
    \<and> (lc_draining (sv_lifecycle s) \<longrightarrow> lc_draining (sv_lifecycle s'))"

lemma keeps_refl [simp]: "keeps s s"
  by (simp add: keeps_def)

lemma keeps_trans [trans]: "keeps s t \<Longrightarrow> keeps t u \<Longrightarrow> keeps s u"
  by (simp add: keeps_def)

lemma acquired:
  assumes "admission_try_acquire p a = (permit, a')" "within_limits a"
  shows "within_limits a' \<and> permit \<in> {None, Some \<lparr>permit_pool = p\<rparr>}
    \<and> (\<forall>q. occupancy q a' = occupancy q a + (if permit \<noteq> None \<and> q = p then 1 else 0))"
proof -
  have "enter_pool p a = (permit \<noteq> None, a')" using assms(1) by (simp add: enter_pool_def)
  moreover have "permit \<in> {None, Some \<lparr>permit_pool = p\<rparr>}"
    using assms(1) by (auto simp: admission_try_acquire_def Let_def split: if_splits)
  ultimately show ?thesis using enter_pool_cases assms(2) by blast
qed

lemma dropped:
  assumes "within_limits a" "0 < occupancy p a"
  shows "within_limits (permit_drop \<lparr>permit_pool = p\<rparr> a)"
    "occupancy q (permit_drop \<lparr>permit_pool = p\<rparr> a) = occupancy q a - (if q = p then 1 else 0)"
  using leave_pool_cases[OF assms, unfolded leave_pool_def] by (auto simp: add_diff_eq dest: spec[of _ q])

lemma holds_Nil [simp]: "holds p [] = 0"
  by (simp add: holds_def)

lemma holds_append [simp]: "holds p (ts @ us) = holds p ts + holds p us"
  by (simp add: holds_def)

lemma holds_Cons: "holds p (t # ts) = (if task_permit t = Some \<lparr>permit_pool = p\<rparr> then 1 else 0) + holds p ts"
  by (simp add: holds_def)

lemma holds_update:
  "i < length ts \<Longrightarrow> task_permit u = None \<Longrightarrow>
    holds p (ts[i := u]) + (if task_permit (ts ! i) = Some \<lparr>permit_pool = p\<rparr> then 1 else 0) = holds p ts"
proof (induction ts arbitrary: i)
  case (Cons t ts)
  then show ?case using Cons.IH[of "i - 1"] by (cases i) (auto simp: holds_Cons)
qed simp

lemma end_task_ok:
  assumes "serve_ok loop s"
  shows "serve_ok loop (end_task i r s) \<and> keeps s (end_task i r s)"
proof (cases "i < length (sv_handlers s) \<and> task_ended (sv_handlers s ! i) = None")
  case True
  let ?t = "sv_handlers s ! i"
  let ?u = "?t\<lparr>task_permit := None, task_ended := r\<rparr>"
  have auth: "map task_authenticated ((sv_handlers s)[i := ?u]) = map task_authenticated (sv_handlers s)"
    using True by (simp add: map_update list_update_same_conv)
  have tasks: "list_all task_ok ((sv_handlers s)[i := ?u])"
    using assms True by (auto simp: serve_ok_def list_all_length task_ok_def nth_list_update)
  have hold: "holds p ((sv_handlers s)[i := ?u]) + (if task_permit ?t = Some \<lparr>permit_pool = p\<rparr> then 1 else 0) = holds p (sv_handlers s)" for p
    using True by (intro holds_update) simp_all
  show ?thesis
  proof (cases "task_permit ?t")
    case None
    then show ?thesis using assms True auth tasks hold by (simp add: end_task_def release_permit_def serve_ok_def keeps_def)
  next
    case (Some permit)
    obtain p where p: "permit = \<lparr>permit_pool = p\<rparr>" by (cases permit) auto
    have "0 < occupancy p (sv_admission s)" using assms hold[of p] Some p by (simp add: serve_ok_def)
    note drop = dropped[OF _ this]
    have "occupancy q (permit_drop permit (sv_admission s)) = sv_elsewhere s q + holds q ((sv_handlers s)[i := ?u]) + loop q" for q
      using assms hold[of q] Some p drop(2)[of q] by (auto simp: serve_ok_def)
    then show ?thesis using assms True auth tasks Some p drop(1)
      by (simp add: end_task_def release_permit_def serve_ok_def keeps_def)
  qed
qed (use assms in \<open>auto simp: end_task_def\<close>)

lemma serve_act_ok:
  assumes "serve_ok loop s"
  shows "serve_ok loop (serve_act x s) \<and> keeps s (serve_act x s)"
proof (cases x)
  case (Act_Enter p)
  obtain permit a where "admission_try_acquire p (sv_admission s) = (permit, a)" by fastforce
  with acquired[OF this] assms show ?thesis by (auto simp: Act_Enter serve_ok_def keeps_def)
next
  case (Act_Leave p)
  show ?thesis
  proof (cases "sv_elsewhere s p = 0")
    case False
    with assms have "0 < occupancy p (sv_admission s)" by (simp add: serve_ok_def)
    note drop = dropped[OF _ this]
    with False assms show ?thesis by (auto simp: Act_Leave serve_ok_def keeps_def)
  qed (use assms in \<open>simp add: Act_Leave\<close>)
qed (use assms end_task_ok[OF assms] in \<open>auto simp: serve_ok_def keeps_def start_drain_def lifecycle_begin_def guard_drop_def send_replace_def Let_def time_simps\<close>)

lemma serve_acts_ok: "serve_ok loop s \<Longrightarrow> serve_ok loop (serve_acts acts s) \<and> keeps s (serve_acts acts s)"
  unfolding serve_acts_def
  by (induction acts arbitrary: s) (use serve_act_ok keeps_trans in \<open>fastforce\<close>)+

section \<open>Every connection is accounted for\<close>

text \<open>The counters say what became of the connections, and each fate is the one the policy decides.\<close>

fun is_handed :: "('c, 'g) fate \<Rightarrow> bool" where
  "is_handed (Fate_Handed _) = True" | "is_handed _ = False"

fun is_unauthenticated :: "('c, 'g) fate \<Rightarrow> bool" where
  "is_unauthenticated (Fate_Unauthenticated _ _) = True" | "is_unauthenticated _ = False"

fun is_full :: "('c, 'g) fate \<Rightarrow> bool" where
  "is_full (Fate_Full _) = True" | "is_full _ = False"

definition counted :: "served \<Rightarrow> ('c, 'g) fate list \<Rightarrow> bool" where
  "counted served fates \<longleftrightarrow> served_admitted served = of_nat (length (filter is_handed fates))
    \<and> served_unauthenticated served = of_nat (length (filter is_unauthenticated fates))
    \<and> served_over_capacity served = of_nat (length (filter is_full fates))"

definition granted :: "'g policy \<Rightarrow> ('c, 'g) authenticated \<Rightarrow> bool" where
  "granted policy a \<longleftrightarrow> policy (auth_credentials a) = Ok (auth_grant a)"

fun fate_ok :: "'g policy \<Rightarrow> ('c, 'g) fate \<Rightarrow> bool" where
  "fate_ok policy (Fate_Unauthenticated _ (Inl _)) \<longleftrightarrow> True"
| "fate_ok policy (Fate_Unauthenticated _ (Inr e)) \<longleftrightarrow> isl (policy e)"
| "fate_ok policy (Fate_Handed a) \<longleftrightarrow> granted policy a"
| "fate_ok policy (Fate_Full a) \<longleftrightarrow> granted policy a"
| "fate_ok policy (Fate_Drained a) \<longleftrightarrow> granted policy a"

definition accounted :: "'g serve \<Rightarrow> ('c, 'g) serving \<Rightarrow> bool" where
  "accounted sv s \<longleftrightarrow> serve_ok (\<lambda>_. 0) s \<and> counted (sv_served s) (sv_fates s) \<and> list_all (fate_ok (serve_policy sv)) (sv_fates s)
    \<and> list_all (\<lambda>t. Fate_Handed (task_authenticated t) \<in> set (sv_fates s)) (sv_handlers s)"

lemma authenticate_granted:
  "authenticate c e policy = Inr a \<Longrightarrow> granted policy a"
  "authenticate c e policy = Inl r \<Longrightarrow> isl (policy e)"
  by (auto simp: authenticate_def granted_def split: sum.splits)

lemma handed_keeps:
  assumes "keeps s s'" "list_all (\<lambda>t. Fate_Handed (task_authenticated t) \<in> set F) (sv_handlers s)"
  shows "list_all (\<lambda>t. Fate_Handed (task_authenticated t) \<in> set F) (sv_handlers s')"
proof -
  have each: "list_all (\<lambda>t. Fate_Handed (task_authenticated t) \<in> set F) ts \<longleftrightarrow> set (map task_authenticated ts) \<subseteq> Fate_Handed -` set F" for ts
    by (auto simp: list_all_iff)
  have "map task_authenticated (sv_handlers s') = map task_authenticated (sv_handlers s)" using assms(1) by (simp add: keeps_def)
  then show ?thesis using assms(2) unfolding each by argo
qed

lemma accounted_acts: "accounted sv s \<Longrightarrow> accounted sv (serve_acts acts s) \<and> keeps s (serve_acts acts s)"
  using serve_acts_ok[of "\<lambda>_. 0" s acts] handed_keeps[of s "serve_acts acts s" "sv_fates s"]
  by (simp add: accounted_def keeps_def)

lemma join_nextE:
  assumes "join_next ts = Some (r, us)"
  obtains vs t ws where "ts = vs @ t # ws" "us = vs @ ws" "task_ended t = Some r"
proof -
  have "\<exists>vs t ws. ts = vs @ t # ws \<and> us = vs @ ws \<and> task_ended t = Some r"
    using assms
  proof (induction ts arbitrary: us)
    case (Cons t ts)
    show ?case
    proof (cases "task_ended t")
      case (Some r')
      with Cons.prems show ?thesis by (intro exI[of _ "[]"]) auto
    next
      case None
      with Cons.prems obtain us' where us: "join_next ts = Some (r, us')" "us = t # us'" by auto
      from Cons.IH[OF this(1)] obtain vs u ws where "ts = vs @ u # ws" "us' = vs @ ws" "task_ended u = Some r" by blast
      with us show ?thesis by (intro exI[of _ "t # vs"]) auto
    qed
  qed simp
  then show ?thesis using that by blast
qed

lemma accounted_join:
  assumes "accounted sv s" "join_next (sv_handlers s) = Some (r, handlers)"
  shows "accounted sv (s\<lparr>sv_handlers := handlers\<rparr>)"
proof -
  from assms(2) obtain vs t ws where "sv_handlers s = vs @ t # ws" "handlers = vs @ ws" "task_ended t = Some r" by (rule join_nextE)
  with assms(1) show ?thesis by (auto simp: accounted_def serve_ok_def holds_Cons task_ok_def)
qed

lemma admit_ok:
  assumes "accounted sv s" "granted (serve_policy sv) a"
  shows "case admit pool_of acts a s of
      Break (r, s') \<Rightarrow> r = Ok () \<and> accounted sv s' \<and> lc_draining (sv_lifecycle s')
    | Continue s' \<Rightarrow> accounted sv s'"
proof -
  let ?p = "pool_of (auth_grant a)"
  obtain permit adm where t: "admission_try_acquire ?p (sv_admission s) = (permit, adm)" by fastforce
  have ok: "serve_ok (\<lambda>_. 0) s" using assms(1) by (simp add: accounted_def)
  note got = acquired[OF t]
  show ?thesis
  proof (cases permit)
    case None
    with t got assms ok show ?thesis by (auto simp: admit_def accounted_def noted_fate_def counted_def serve_ok_def list_all_iff)
  next
    case (Some p)
    then have p: "p = \<lparr>permit_pool = ?p\<rparr>" using got ok by (auto simp: serve_ok_def)
    define loop where "loop = (\<lambda>q. if q = ?p then 1 else (0 :: nat))"
    have "serve_ok loop (s\<lparr>sv_admission := adm\<rparr>)" using got ok Some by (auto simp: serve_ok_def loop_def)
    define u where "u = serve_acts acts (s\<lparr>sv_admission := adm\<rparr>)"
    have u: "serve_ok loop u" "keeps s u"
      using serve_acts_ok[OF \<open>serve_ok loop (s\<lparr>sv_admission := adm\<rparr>)\<close>, of acts] by (simp_all add: u_def keeps_def)
    have handed: "list_all (\<lambda>t. Fate_Handed (task_authenticated t) \<in> set (sv_fates s)) (sv_handlers u)"
      using handed_keeps[OF u(2)] assms(1) by (simp add: accounted_def)
    have same: "sv_fates u = sv_fates s" "sv_served u = sv_served s" using u(2) by (simp_all add: keeps_def)
    have "0 < occupancy ?p (sv_admission u)" using u(1) by (simp add: serve_ok_def loop_def)
    note drop = dropped[OF _ this]
    have "serve_ok (\<lambda>_. 0) (u\<lparr>sv_admission := permit_drop p (sv_admission u)\<rparr>)"
      using u(1) drop p by (auto simp: serve_ok_def loop_def)
    moreover have "serve_ok (\<lambda>_. 0) (u\<lparr>sv_handlers := sv_handlers u @ [\<lparr>task_authenticated = a, task_permit = Some p, task_ended = None\<rparr>]\<rparr>)"
      using u(1) p by (auto simp: serve_ok_def loop_def holds_Cons task_ok_def)
    ultimately show ?thesis
      using t Some assms same handed unfolding admit_def
      by (simp add: u_def[symmetric] accounted_def noted_fate_def counted_def accepting_calls_def list_all_iff, auto simp: serve_ok_def)
  qed
qed

text \<open>Why the loop stopped: draining, or an error of the listener other than a shortage of descriptors.\<close>

definition stop_ok :: "bool \<Rightarrow> 'c accepted option list \<Rightarrow> io_error + unit \<Rightarrow> bool \<Rightarrow> bool" where
  "stop_ok unix answers r draining = (case r of
     Inr _ \<Rightarrow> draining
   | Inl e \<Rightarrow> \<not> is_descriptor_exhaustion unix e \<and> Some (Accepted_Error e) \<in> set answers)"

lemma serve_poll_ok:
  assumes "accounted sv s"
  shows "case serve_poll unix sv pool_of t s of
      Break (r, s') \<Rightarrow> accounted sv s' \<and> stop_ok unix [turn_accepted t] r (lc_draining (sv_lifecycle s'))
    | Continue s' \<Rightarrow> accounted sv s'"
proof -
  define u where "u = serve_acts (turn_before t) s"
  have u: "accounted sv u" using accounted_acts[OF assms] by (simp add: u_def)
  have poll: "serve_poll unix sv pool_of t s = (if draining_ready (sv_lifecycle u) then Break (Ok (), u)
     else case join_next (sv_handlers u) of
       Some (_, handlers) \<Rightarrow> Continue (u\<lparr>sv_handlers := handlers\<rparr>)
     | None \<Rightarrow> (case turn_accepted t of
         None \<Rightarrow> Continue u
       | Some accepted \<Rightarrow> serve_accepted unix sv pool_of t accepted u))"
    unfolding serve_poll_def u_def Let_def ..
  have reject: "accounted sv (unauthenticated c e u)" if "fate_ok (serve_policy sv) (Fate_Unauthenticated c e)" for c e
    using u that by (auto simp: accounted_def unauthenticated_def noted_fate_def counted_def serve_ok_def list_all_iff)
  have accepted: "case serve_accepted unix sv pool_of t x u of
      Break (r, s') \<Rightarrow> accounted sv s' \<and> stop_ok unix [turn_accepted t] r (lc_draining (sv_lifecycle s'))
    | Continue s' \<Rightarrow> accounted sv s'" if x: "turn_accepted t = Some x" for x
  proof (cases x)
    case (Accepted_Error e)
    then show ?thesis using u accounted_acts[OF u] x by (auto simp: serve_accepted_def stop_ok_def Let_def draining_ready_def)
  next
    case (Accepted_Connection c evidence)
    show ?thesis
    proof (cases evidence)
      case (Inl e)
      with reject[of c evidence] show ?thesis by (simp add: Accepted_Connection serve_accepted_def)
    next
      case (Inr e)
      show ?thesis
      proof (cases "authenticate c e (serve_policy sv)")
        case (Inl r)
        with reject[of c evidence] authenticate_granted(2)[OF Inl] Inr show ?thesis by (simp add: Accepted_Connection serve_accepted_def)
      next
        case (Inr a)
        have "accounted sv (serve_acts (turn_checking t) u)" using accounted_acts[OF u] by simp
        from admit_ok[OF this authenticate_granted(1)[OF Inr], of pool_of "turn_admitting t"] show ?thesis
          using Inr \<open>evidence = Inr e\<close> by (auto simp: Accepted_Connection serve_accepted_def stop_ok_def split: control.splits)
      qed
    qed
  qed
  show ?thesis unfolding poll using u accounted_join[OF u] accepted
    by (auto simp: draining_ready_def stop_ok_def split: option.split)
qed

text \<open>The states of the loop at each of its polls.\<close>

fun serve_states :: "bool \<Rightarrow> 'g serve \<Rightarrow> ('g \<Rightarrow> pool) \<Rightarrow> 'c turn list \<Rightarrow> ('c, 'g) serving \<Rightarrow> ('c, 'g) serving list" where
  "serve_states unix sv pool_of [] s = [s]"
| "serve_states unix sv pool_of (t # ts) s = s # (case serve_poll unix sv pool_of t s of
      Break (_, s) \<Rightarrow> [s]
    | Continue s \<Rightarrow> serve_states unix sv pool_of ts s)"

lemma serve_states_ok: "accounted sv s \<Longrightarrow> list_all (accounted sv) (serve_states unix sv pool_of ts s)"
proof (induction ts arbitrary: s)
  case (Cons t ts)
  then show ?case using serve_poll_ok[OF Cons.prems, of unix t pool_of] by (auto split: control.splits)
qed simp

lemma accepting_ok:
  assumes "accounted sv s" "accepting unix sv pool_of ts s = Some (r, s')"
  shows "accounted sv s' \<and> stop_ok unix (map turn_accepted ts) r (lc_draining (sv_lifecycle s'))"
  using assms
proof (induction ts arbitrary: s)
  case (Cons t ts)
  then show ?case using serve_poll_ok[OF Cons.prems(1), of unix t pool_of]
    by (fastforce simp: stop_ok_def split: control.splits sum.splits)
qed simp

lemma joining_ok:
  assumes "accounted sv s" "joining deadline pauses (s, c) = Some (s', c')"
  shows "accounted sv s' \<and> sv_served s' = sv_served s \<and> (lc_draining (sv_lifecycle s) \<longrightarrow> lc_draining (sv_lifecycle s')) \<and> sv_fates s' = sv_fates s"
  using assms
proof (induction pauses arbitrary: s c)
  case (Cons pause pauses)
  obtain acts took where p: "pause = (acts, took)" by fastforce
  define u where "u = serve_acts acts s"
  have u: "accounted sv u" "keeps s u" using accounted_acts[OF Cons.prems(1)] by (simp_all add: u_def)
  show ?case
  proof (cases "join_next (sv_handlers u)")
    case None
    then show ?thesis using Cons u p by (auto simp: u_def[symmetric] Let_def keeps_def split: if_splits)
  next
    case (Some x)
    obtain r handlers where x: "x = (r, handlers)" by fastforce
    from accounted_join[OF u(1)] Some x have "accounted sv (u\<lparr>sv_handlers := handlers\<rparr>)" by simp
    with Cons Some x u p show ?thesis by (fastforce simp: u_def[symmetric] Let_def keeps_def split: if_splits)
  qed
qed (auto split: if_splits)

lemma end_tasks_ok:
  assumes "accounted sv s"
  shows "accounted sv (fold (\<lambda>i. end_task i (Some (how i))) is s) \<and> keeps s (fold (\<lambda>i. end_task i (Some (how i))) is s)
    \<and> (\<forall>i < length (sv_handlers s). i \<in> set is \<or> has_ended (sv_handlers s ! i) \<longrightarrow>
        has_ended (sv_handlers (fold (\<lambda>i. end_task i (Some (how i))) is s) ! i))"
  using assms
proof (induction "is" arbitrary: s)
  case (Cons i "is")
  let ?u = "end_task i (Some (how i)) s"
  have keeps: "keeps s ?u" and ok: "serve_ok (\<lambda>_. 0) ?u" using end_task_ok[of "\<lambda>_. 0" s i] Cons.prems by (simp_all add: accounted_def)
  then have "accounted sv ?u" using Cons.prems handed_keeps[OF keeps] by (simp add: accounted_def keeps_def)
  note rest = Cons.IH[OF this]
  have len: "length (sv_handlers ?u) = length (sv_handlers s)" using keeps by (metis keeps_def length_map)
  have ended: "has_ended (sv_handlers ?u ! j)" if "j < length (sv_handlers s)" "j = i \<or> has_ended (sv_handlers s ! j)" for j
    using that by (auto simp: end_task_def has_ended_def nth_list_update)
  show ?case using rest keeps_trans[OF keeps] ended len by auto
qed simp

lemma all_ended_hold_nothing: "list_all task_ok ts \<Longrightarrow> \<forall>i < length ts. has_ended (ts ! i) \<Longrightarrow> holds p ts = 0"
  by (fastforce simp: holds_def filter_empty_conv list_all_length task_ok_def has_ended_def in_set_conv_nth)

lemma aborted_ok:
  assumes "accounted sv s"
  shows "accounted sv ((abort_all how s)\<lparr>sv_handlers := []\<rparr>) \<and> keeps s (abort_all how s)"
proof -
  let ?u = "abort_all how s"
  note over = end_tasks_ok[OF assms, of how "[0..<length (sv_handlers s)]", folded abort_all_def]
  from over have "length (sv_handlers ?u) = length (sv_handlers s)" by (metis keeps_def length_map)
  with over have "\<forall>i < length (sv_handlers ?u). has_ended (sv_handlers ?u ! i)" by simp
  with over have "holds p (sv_handlers ?u) = 0" for p by (intro all_ended_hold_nothing) (simp_all add: accounted_def serve_ok_def)
  with over show ?thesis by (auto simp: accounted_def serve_ok_def)
qed

lemma serve_finish_ok:
  assumes "accounted sv s" "serve_finish budget pauses how (s, c) = Some (Returned aborted, s', c')"
  shows "accounted sv s' \<and> sv_handlers s' = [] \<and> sv_served s' = sv_served s \<and> (lc_draining (sv_lifecycle s) \<longrightarrow> lc_draining (sv_lifecycle s'))"
proof -
  from assms(2) obtain deadline k u where j: "joining deadline pauses (s, k) = Some (u, c')" "s' = (abort_all how u)\<lparr>sv_handlers := []\<rparr>"
    by (auto simp: serve_finish_def Let_def split: prod.splits option.splits)
  from joining_ok[OF assms(1) j(1)] aborted_ok[of sv u how] j(2) show ?thesis by (auto simp: keeps_def)
qed

lemma serve_run_ok:
  assumes "accounted sv (s\<lparr>sv_served := served_default, sv_handlers := []\<rparr>)"
    and "serve_run unix sv pool_of turns pauses how (s, c) = Some (Returned r, s', c')"
  shows "accounted sv s' \<and> sv_handlers s' = [] \<and> counted (case r of Inr served \<Rightarrow> served | Inl e \<Rightarrow> serve_served e) (sv_fates s')
    \<and> stop_ok unix (map turn_accepted turns) (case r of Inr _ \<Rightarrow> Inr () | Inl e \<Rightarrow> Inl (serve_failure e)) (lc_draining (sv_lifecycle s'))"
proof -
  from assms(2) obtain stopped u a v k where
      acc: "accepting unix sv pool_of turns (s\<lparr>sv_served := served_default, sv_handlers := []\<rparr>) = Some (stopped, u)"
      and fin: "serve_finish (serve_drain_budget sv) pauses how (u, c) = Some (a, v, k)"
    by (auto simp: serve_run_def split: option.splits)
  then obtain n where run:
      "accepting unix sv pool_of turns (s\<lparr>sv_served := served_default, sv_handlers := []\<rparr>) = Some (stopped, u)"
      "serve_finish (serve_drain_budget sv) pauses how (u, c) = Some (Returned n, v, c')"
      "s' = v\<lparr>sv_served := (sv_served v)\<lparr>served_aborted := n\<rparr>\<rparr>"
      "r = (case stopped of Inr _ \<Rightarrow> Ok (sv_served s') | Inl e \<Rightarrow> Err \<lparr>serve_failure = e, serve_served = sv_served s'\<rparr>)"
    using assms(2) by (cases a) (auto simp: serve_run_def Let_def)
  have u: "accounted sv u" "stop_ok unix (map turn_accepted turns) stopped (lc_draining (sv_lifecycle u))"
    using accepting_ok[OF assms(1) run(1)] by simp_all
  from serve_finish_ok[OF u(1) run(2)] u(2) show ?thesis unfolding run(3, 4)
    by (auto simp: accounted_def serve_ok_def counted_def stop_ok_def split: sum.splits)
qed

text \<open>C11: Every accepted connection is accounted for. However handlers, other tasks and the listener interleave
  with the accept loop, at each of its polls every permit out is with another holder or with a handler whose
  connection the policy granted, and no pool exceeds its limit. When the loop returns it stopped because the
  service drains or because the listener failed for a reason other than missing descriptors; its counts are
  the connections handed to handlers, those whose peer the policy rejects or nobody could tell, and those
  without capacity; no handler is left, and every permit is back.
\<close>

theorem connections_are_accounted_for:
  fixes s :: "('c, 'g) serving"
  assumes "within_limits (sv_admission s)" "\<forall>p. occupancy p (sv_admission s) = sv_elsewhere s p" "sv_fates s = []"
  shows "list_all (\<lambda>s. within_limits (sv_admission s)
        \<and> (\<forall>p. occupancy p (sv_admission s) = sv_elsewhere s p + holds p (sv_handlers s))
        \<and> list_all (\<lambda>t. granted (serve_policy sv) (task_authenticated t)) (sv_handlers s))
      (serve_states unix sv pool_of turns (s\<lparr>sv_served := served_default, sv_handlers := []\<rparr>))
    \<and> (case serve_run unix sv pool_of turns pauses how (s, c) of
        Some (Returned r, s', _) \<Rightarrow>
          counted (case r of Inr served \<Rightarrow> served | Inl e \<Rightarrow> serve_served e) (sv_fates s')
          \<and> list_all (fate_ok (serve_policy sv)) (sv_fates s')
          \<and> stop_ok unix (map turn_accepted turns) (case r of Inr _ \<Rightarrow> Inr () | Inl e \<Rightarrow> Inl (serve_failure e)) (lc_draining (sv_lifecycle s'))
          \<and> sv_handlers s' = [] \<and> within_limits (sv_admission s') \<and> (\<forall>p. occupancy p (sv_admission s') = sv_elsewhere s' p)
      | _ \<Rightarrow> True)"
proof -
  let ?s = "s\<lparr>sv_served := served_default, sv_handlers := []\<rparr>"
  have start: "accounted sv ?s" using assms by (simp add: accounted_def serve_ok_def counted_def served_default_def)
  have "list_all (\<lambda>t. granted (serve_policy sv) (task_authenticated t)) (sv_handlers u)" if "accounted sv u" for u :: "('c, 'g) serving"
    using that by (fastforce simp: accounted_def list_all_iff)
  then have states: "list_all (\<lambda>s. within_limits (sv_admission s)
        \<and> (\<forall>p. occupancy p (sv_admission s) = sv_elsewhere s p + holds p (sv_handlers s))
        \<and> list_all (\<lambda>t. granted (serve_policy sv) (task_authenticated t)) (sv_handlers s))
      (serve_states unix sv pool_of turns ?s)"
    using list.pred_mono_strong[OF serve_states_ok[OF start]] by (simp add: accounted_def serve_ok_def)
  show ?thesis using states serve_run_ok[OF start, of unix pool_of turns pauses how c]
    by (auto simp: accounted_def serve_ok_def split: option.split prod.split ret.split)
qed

text \<open>A peer of this user, then a foreign one, then the drain; the one handler never ends by itself.\<close>

definition example_serving :: "(nat, unit) serving" where
  "example_serving = \<lparr>sv_lifecycle = lifecycle_default \<lparr>time = 0, delays = []\<rparr>, sv_admission = admission_new limits_default,
     sv_handlers = [], sv_served = served_default, sv_elsewhere = (\<lambda>_. 0), sv_fates = []\<rparr>"

definition example_turns :: "nat turn list" where
  "example_turns = map (\<lambda>(acts, accepted). \<lparr>turn_before = acts, turn_accepted = accepted, turn_checking = [], turn_admitting = [], turn_drain_first = False\<rparr>)
     [([], Some (Accepted_Connection 1 (Inr (credentials_new None True)))),
      ([], Some (Accepted_Connection 2 (Inr (credentials_new None False)))), ([Act_StartDrain], None)]"

definition example_run :: "((serve_error + served) ret \<times> (nat, unit) serving \<times> clock) option" where
  "example_run = serve_run True (serve_new same_user) (\<lambda>_. Pool_Application) example_turns
     ([([], from_millis 5000)] @ replicate 4 ([], 0)) (\<lambda>_. Joined_Cancelled) (example_serving, \<lparr>time = 0, delays = []\<rparr>)"

lemma example_start:
  "within_limits (sv_admission example_serving)" "\<forall>p. occupancy p (sv_admission example_serving) = sv_elsewhere example_serving p"
  "sv_fates example_serving = []"
  by (auto simp: example_serving_def within_limits_def occupancy_def admission_new_def limits_default_def pool_index_def split: pool.splits)

lemma example_run_result:
  "\<exists>s' c'. example_run = Some (Returned (Ok \<lparr>served_admitted = 1, served_unauthenticated = 1, served_over_capacity = 0, served_aborted = 1\<rparr>), s', c')"
proof -
  have "map_option fst example_run =
      Some (Returned (Ok \<lparr>served_admitted = 1, served_unauthenticated = 1, served_over_capacity = 0, served_aborted = 1\<rparr>))"
    by code_simp
  then show ?thesis by auto
qed

theorem connections_are_accounted_for_witness:
  "\<exists>served s' c'. example_run = Some (Returned (Ok served), s', c') \<and> served_admitted served = 1 \<and> served_aborted served = 1
    \<and> counted served (sv_fates s') \<and> sv_handlers s' = [] \<and> occupancy Pool_Application (sv_admission s') = sv_elsewhere s' Pool_Application
    \<and> lc_draining (sv_lifecycle s')"
proof -
  obtain s' c' where run: "example_run = Some (Returned (Ok \<lparr>served_admitted = 1, served_unauthenticated = 1, served_over_capacity = 0, served_aborted = 1\<rparr>), s', c')"
    using example_run_result by blast
  from connections_are_accounted_for[OF example_start, of "serve_new same_user" True "\<lambda>_. Pool_Application" example_turns
      "[([], from_millis 5000)] @ replicate 4 ([], 0)" "\<lambda>_. Joined_Cancelled" "\<lparr>time = 0, delays = []\<rparr>"]
  show ?thesis unfolding example_run_def[symmetric] run by (auto simp: stop_ok_def)
qed

section \<open>The loop returns\<close>

lemma draining_act: "lc_draining (sv_lifecycle s) \<Longrightarrow> lc_draining (sv_lifecycle (serve_act x s))"
  by (cases x) (auto simp: end_task_def start_drain_def lifecycle_begin_def guard_drop_def send_replace_def Let_def split: prod.split)

lemma length_act: "length (sv_handlers (serve_act x s)) = length (sv_handlers s)"
  by (cases x) (auto simp: end_task_def split: prod.split)

lemma length_acts [simp]: "length (sv_handlers (serve_acts acts s)) = length (sv_handlers s)"
  unfolding serve_acts_def by (induction acts arbitrary: s) (simp_all add: length_act)

lemma draining_acts: "lc_draining (sv_lifecycle s) \<or> Act_StartDrain \<in> set acts \<Longrightarrow> lc_draining (sv_lifecycle (serve_acts acts s))"
  unfolding serve_acts_def
proof (induction acts arbitrary: s)
  case (Cons x acts)
  have "lc_draining (sv_lifecycle (serve_act Act_StartDrain s))" by (simp add: start_drain_def send_replace_def Let_def time_simps)
  with Cons show ?case by (auto intro: draining_act)
qed simp

lemma join_next_length: "join_next ts = Some (r, us) \<Longrightarrow> length ts = Suc (length us)"
  by (erule join_nextE) simp

lemma serve_poll_length:
  "serve_poll unix sv pool_of t s = Continue s' \<Longrightarrow> length (sv_handlers s') \<le> Suc (length (sv_handlers s))"
  "serve_poll unix sv pool_of t s = Break (r, s') \<Longrightarrow> length (sv_handlers s') \<le> Suc (length (sv_handlers s))"
  using join_next_length[of "sv_handlers (serve_acts (turn_before t) s)"]
  by (auto simp: serve_poll_def serve_accepted_def admit_def unauthenticated_def noted_fate_def Let_def
      split: if_splits option.splits accepted.splits sum.splits prod.splits)

lemma accepting_returns:
  "\<exists>t \<in> set ts. Act_StartDrain \<in> set (turn_before t) \<Longrightarrow>
    \<exists>r s'. accepting unix sv pool_of ts s = Some (r, s') \<and> length (sv_handlers s') \<le> length (sv_handlers s) + length ts"
proof (induction ts arbitrary: s)
  case (Cons t ts)
  show ?case
  proof (cases "serve_poll unix sv pool_of t s")
    case (Break x)
    then show ?thesis using serve_poll_length(2)[of unix sv pool_of t s] by (cases x) fastforce
  next
    case (Continue s')
    have "Act_StartDrain \<notin> set (turn_before t)"
      using Continue draining_acts[of s "turn_before t"] by (auto simp: serve_poll_def Let_def draining_ready_def)
    with Cons.prems Cons.IH[of s'] obtain r u where "accepting unix sv pool_of ts s' = Some (r, u)"
      "length (sv_handlers u) \<le> length (sv_handlers s') + length ts" by auto
    with serve_poll_length(1)[OF Continue] Continue show ?thesis by simp
  qed
qed simp

lemma joining_after_deadline:
  "deadline \<le> time c \<Longrightarrow> length (sv_handlers s) < length pauses \<Longrightarrow> \<exists>x. joining deadline pauses (s, c) = Some x"
proof (induction pauses arbitrary: s c)
  case (Cons pause pauses)
  obtain acts took where p: "pause = (acts, took)" by fastforce
  show ?case
  proof (cases "join_next (sv_handlers (serve_acts acts s))")
    case (Some x)
    obtain r handlers where x: "x = (r, handlers)" by fastforce
    with Some join_next_length[of "sv_handlers (serve_acts acts s)"] have "length (sv_handlers s) = Suc (length handlers)" by simp
    with Cons show ?thesis by (simp add: p Some x Let_def elapse_def)
  qed (use Cons.prems in \<open>simp add: p Let_def elapse_def\<close>)
qed simp

lemma joining_returns:
  "deadline \<le> time c + sum_list (map snd ps) \<Longrightarrow> length (sv_handlers s) < length qs \<Longrightarrow> \<exists>x. joining deadline (ps @ qs) (s, c) = Some x"
proof (induction ps arbitrary: s c)
  case Nil
  then show ?case using joining_after_deadline by simp
next
  case (Cons pause ps)
  obtain acts took where p: "pause = (acts, took)" by fastforce
  have time: "deadline \<le> time (elapse took c) + sum_list (map snd ps)" using Cons.prems(1) by (simp add: p elapse_def)
  show ?case
  proof (cases "join_next (sv_handlers (serve_acts acts s))")
    case (Some x)
    obtain r handlers where x: "x = (r, handlers)" by fastforce
    with Some join_next_length[of "sv_handlers (serve_acts acts s)"] have "length (sv_handlers s) = Suc (length handlers)" by simp
    with Cons.IH[OF time] Cons.prems(2) show ?thesis by (simp add: p Some x Let_def)
  qed (use Cons.IH[OF time] Cons.prems(2) in \<open>simp add: p Let_def\<close>)
qed



end
