(* ===== verification/Process_Handle.thy ===== *)
theory Process_Handle
  imports Backoff Peer
begin

unbundle bit_operations_syntax

text \<open>
  Process exit as an event (\<^verbatim>\<open>src/src/local/process.rs\<close> and the exit events of each platform in
  \<^verbatim>\<open>src/src/local/process/\<close>), with the fallback on the PID of \<^verbatim>\<open>src/src/local/unix.rs\<close>. The calls of the
  operating system are parameters: functions of their arguments, the time and the state of the system, which
  answer after some time. What the code relies on is stated against the time at which the process really exits.
\<close>

section \<open>Waiting for the exit event\<close>

definition millis_until :: "instant \<Rightarrow> instant \<Rightarrow> nat" where
  "millis_until deadline now = (deadline - now + 999999) div 1000000"

text \<open>A call that fails with -1 and the error of the thread.\<close>

definition cvt :: "int \<times> io_error \<Rightarrow> io_error + int" where
  "cvt = (\<lambda>(result, last_os_error). if result = -1 then Err last_os_error else Ok result)"

subsection \<open>Linux and Android\<close>

definition C_INT_MAX :: int where "C_INT_MAX = 2147483647"
definition POLLIN :: u16 where "POLLIN = 1"
definition POLLERR :: u16 where "POLLERR = 8"
definition POLLHUP :: u16 where "POLLHUP = 16"
definition POLLNVAL :: u16 where "POLLNVAL = 32"

definition poll_timeout :: "instant option \<Rightarrow> instant \<Rightarrow> int" where
  "poll_timeout deadline now = (case deadline of
     None \<Rightarrow> -1
   | Some deadline \<Rightarrow> if int (millis_until deadline now) \<le> C_INT_MAX then int (millis_until deadline now) else C_INT_MAX)"

definition waits_again :: "instant option \<Rightarrow> instant \<Rightarrow> bool" where
  "waits_again deadline now = (case deadline of None \<Rightarrow> True | Some deadline \<Rightarrow> now < deadline)"

text \<open>\<^verbatim>\<open>{:#x}\<close> of a 16-bit number.\<close>

definition hex_u16 :: "u16 \<Rightarrow> string" where
  "hex_u16 n = ''0x'' @ hex_padded (if n < 16 then 1 else if n < 256 then 2 else if n < 4096 then 3 else 4) (unat n)"

definition exited_from :: "u16 \<Rightarrow> io_error + bool" where
  "exited_from revents =
    (if revents AND POLLERR \<noteq> 0 \<or> revents AND POLLNVAL \<noteq> 0
     then Err (io_error_other (''polling the pidfd failed with events '' @ hex_u16 revents))
     else Ok (revents AND POLLIN \<noteq> 0 \<or> revents AND POLLHUP \<noteq> 0))"

text \<open>\<^verbatim>\<open>poll\<close> of one descriptor: its result with the error of the thread, and the events it reports.\<close>

type_synonym 'w poll_call = "int \<Rightarrow> instant \<Rightarrow> 'w \<Rightarrow> ((int \<times> io_error) \<times> u16) \<times> duration \<times> 'w"

text \<open>\<^verbatim>\<open>restarting\<close>: an interrupted call is made again, with the timeout computed again.\<close>

definition restarting :: "io_error + 'a \<Rightarrow> 's \<Rightarrow> (io_error + 'a \<Rightarrow> ('r, 's) control) \<Rightarrow> ('r, 's) control" where
  "restarting result s leave = (case result of
     Inl e \<Rightarrow> if io_kind e = ErrorKind_Interrupted then Continue s else leave result
   | Inr _ \<Rightarrow> leave result)"

definition wait_readable_round ::
    "'w poll_call \<Rightarrow> instant option \<Rightarrow> 'w \<times> clock \<Rightarrow> ((io_error + bool) \<times> 'w \<times> clock, 'w \<times> clock) control" where
  "wait_readable_round call deadline = (\<lambda>(w, c).
    let (now, c) = instant_now c;
        ((result, revents), took, w) = call (poll_timeout deadline now) (time c) w;
        c = elapse took c in
    restarting (cvt result) (w, c) (\<lambda>result. case result of
      Inl e \<Rightarrow> Break (Err e, w, c)
    | Inr _ \<Rightarrow>
        if revents \<noteq> 0 then Break (exited_from revents, w, c)
        else let (now, c) = instant_now c in
          if \<not> waits_again deadline now then Break (exited_from revents, w, c) else Continue (w, c)))"

type_synonym 'w exit_wait = "instant option \<Rightarrow> 'w \<times> clock \<Rightarrow> ((io_error + bool) \<times> 'w \<times> clock) option"

definition wait_readable :: "'w poll_call \<Rightarrow> 'w exit_wait" where
  "wait_readable call deadline = iterate (wait_readable_round call deadline)"

subsection \<open>macOS and the BSDs\<close>

definition EV_ERROR :: u16 where "EV_ERROR = 0x4000"
definition NOTE_EXIT :: u32 where "NOTE_EXIT = 0x80000000"

record kevent =
  ke_flags :: u16
  ke_fflags :: u32
  ke_data :: nat

text \<open>\<^verbatim>\<open>timespec\<close>: seconds, cut to the largest \<^verbatim>\<open>time_t\<close>, and nanoseconds; \<^verbatim>\<open>kevent\<close> for one event.\<close>

definition timespec :: "duration \<Rightarrow> nat \<times> nat" where
  "timespec left = (min (left div nanos_per_sec) (2 ^ 63 - 1), left mod nanos_per_sec)"

type_synonym 'w kevent_call = "(nat \<times> nat) option \<Rightarrow> instant \<Rightarrow> 'w \<Rightarrow> ((int \<times> io_error) \<times> kevent) \<times> duration \<times> 'w"

definition next_exit_round ::
    "(nat \<Rightarrow> io_error) \<Rightarrow> 'w kevent_call \<Rightarrow> instant option \<Rightarrow> 'w \<times> clock \<Rightarrow> ((io_error + bool) \<times> 'w \<times> clock, 'w \<times> clock) control" where
  "next_exit_round from_raw_os_error call deadline = (\<lambda>(w, c).
    let (timeout, c) = (case deadline of
            None \<Rightarrow> (None, c)
          | Some deadline \<Rightarrow> let (left, c) = remaining deadline c in (Some (timespec left), c));
        (((count, last_os_error), event), took, w) = call timeout (time c) w;
        c = elapse took c in
    if count = -1 then
      (if io_kind last_os_error = ErrorKind_Interrupted then Continue (w, c) else Break (Err last_os_error, w, c))
    else if count = 0 then
      (case deadline of
         None \<Rightarrow> Break (Ok False, w, c)
       | Some deadline \<Rightarrow> let (late, c) = past (Some deadline) c in
           if late then Break (Ok False, w, c) else Continue (w, c))
    else if ke_flags event AND EV_ERROR \<noteq> 0 then Break (Err (from_raw_os_error (ke_data event)), w, c)
    else if ke_fflags event AND NOTE_EXIT \<noteq> 0 then Break (Ok True, w, c)
    else Continue (w, c))"

definition next_exit :: "(nat \<Rightarrow> io_error) \<Rightarrow> 'w kevent_call \<Rightarrow> 'w exit_wait" where
  "next_exit from_raw_os_error call deadline = iterate (next_exit_round from_raw_os_error call deadline)"

subsection \<open>Windows\<close>

definition INFINITE :: nat where "INFINITE = 0xFFFFFFFF"
definition WAIT_OBJECT_0 :: nat where "WAIT_OBJECT_0 = 0"
definition WAIT_TIMEOUT :: nat where "WAIT_TIMEOUT = 258"

definition wait_milliseconds :: "instant option \<Rightarrow> instant \<Rightarrow> nat" where
  "wait_milliseconds deadline now = (case deadline of
     None \<Rightarrow> INFINITE
   | Some deadline \<Rightarrow>
       min (if millis_until deadline now < 2 ^ 32 then millis_until deadline now else INFINITE) (INFINITE - 1))"

text \<open>\<^verbatim>\<open>WaitForSingleObject\<close>, with the error of the thread.\<close>

type_synonym 'w wait_call = "nat \<Rightarrow> instant \<Rightarrow> 'w \<Rightarrow> (nat \<times> io_error) \<times> duration \<times> 'w"

definition event_wait_round :: "'w wait_call \<Rightarrow> instant option \<Rightarrow> 'w \<times> clock \<Rightarrow> ((io_error + bool) \<times> 'w \<times> clock, 'w \<times> clock) control" where
  "event_wait_round call deadline = (\<lambda>(w, c).
    let (milliseconds, c) = (case deadline of
            None \<Rightarrow> (wait_milliseconds None 0, c)
          | Some _ \<Rightarrow> let (now, c) = instant_now c in (wait_milliseconds deadline now, c));
        ((code, last_os_error), took, w) = call milliseconds (time c) w;
        c = elapse took c in
    if code = WAIT_OBJECT_0 then Break (Ok True, w, c)
    else if code = WAIT_TIMEOUT then
      (case deadline of
         None \<Rightarrow> Break (Ok False, w, c)
       | Some _ \<Rightarrow> let (late, c) = past deadline c in
           if late then Break (Ok False, w, c) else Continue (w, c))
    else Break (Err last_os_error, w, c))"

definition event_wait :: "'w wait_call \<Rightarrow> 'w exit_wait" where
  "event_wait call deadline = iterate (event_wait_round call deadline)"

section \<open>Opening\<close>

datatype process_state = ProcessState_Alive | ProcessState_Exited | ProcessState_Unknown

datatype opened = Opened_Watching | Opened_Gone | Opened_Unsupported

definition I32_MAX :: u32 where "I32_MAX = 0x7FFFFFFF"
definition EPERM :: nat where "EPERM = 1"
definition ESRCH :: nat where "ESRCH = 3"
definition EACCES :: nat where "EACCES = 13"
definition ENOSYS :: nat where "ENOSYS = 38"
definition ERROR_INVALID_PARAMETER :: nat where "ERROR_INVALID_PARAMETER = 87"

definition pidfd_opened_after :: "io_error \<Rightarrow> io_error + opened" where
  "pidfd_opened_after error =
    (if io_os error = Some ESRCH then Ok Opened_Gone
     else if io_os error \<in> {Some ENOSYS, Some EPERM} then Ok Opened_Unsupported
     else Err error)"

definition pidfd_open :: "(u32 \<Rightarrow> 'w \<Rightarrow> (int \<times> io_error) \<times> 'w) \<Rightarrow> u32 \<Rightarrow> 'w \<Rightarrow> (io_error + opened) \<times> 'w" where
  "pidfd_open call pid w =
    (if I32_MAX < pid then (Err (io_error_new ErrorKind_InvalidInput []), w)
     else case call pid w of ((fd, last_os_error), w) \<Rightarrow>
       (if fd = -1 then pidfd_opened_after last_os_error else Ok Opened_Watching, w))"

definition kqueue_registered :: "int \<times> io_error \<Rightarrow> io_error + opened" where
  "kqueue_registered = (\<lambda>(registered, error).
    if registered = -1 \<and> io_kind error \<noteq> ErrorKind_Interrupted then
      (if io_os error = Some ESRCH then Ok Opened_Gone
       else if io_os error \<in> {Some EPERM, Some EACCES} then Ok Opened_Unsupported
       else Err error)
    else Ok Opened_Watching)"

definition kqueue_open ::
    "('w \<Rightarrow> (int \<times> io_error) \<times> 'w) \<Rightarrow> (u32 \<Rightarrow> 'w \<Rightarrow> (int \<times> io_error) \<times> 'w) \<Rightarrow> u32 \<Rightarrow> 'w \<Rightarrow> (io_error + opened) \<times> 'w" where
  "kqueue_open kqueue register pid w =
    (if I32_MAX < pid then (Err (io_error_new ErrorKind_InvalidInput []), w)
     else case kqueue w of ((fd, last_os_error), w) \<Rightarrow>
       if fd = -1 then (Err last_os_error, w)
       else case register pid w of (registered, w) \<Rightarrow> (kqueue_registered registered, w))"

definition windows_opened_after :: "io_error \<Rightarrow> io_error + opened" where
  "windows_opened_after error = (if io_os error = Some ERROR_INVALID_PARAMETER then Ok Opened_Gone else Err error)"

definition windows_open :: "(u32 \<Rightarrow> 'w \<Rightarrow> (io_error + unit) \<times> 'w) \<Rightarrow> u32 \<Rightarrow> 'w \<Rightarrow> (io_error + opened) \<times> 'w" where
  "windows_open call pid w = (case call pid w of
     (Inl e, w) \<Rightarrow> (windows_opened_after e, w)
   | (Inr _, w) \<Rightarrow> (Ok Opened_Watching, w))"

definition unsupported_open :: "u32 \<Rightarrow> 'w \<Rightarrow> (io_error + opened) \<times> 'w" where
  "unsupported_open pid w = (Ok Opened_Unsupported, w)"

section \<open>The PID fallback\<close>

definition unknown_state :: "u32 \<Rightarrow> process_state" where
  "unknown_state pid = ProcessState_Unknown"

definition liveness_from_errno :: "nat option \<Rightarrow> process_state" where
  "liveness_from_errno errno =
    (if errno = Some ESRCH then ProcessState_Exited
     else if errno = Some EPERM then ProcessState_Alive
     else ProcessState_Unknown)"

definition rsplit_once :: "string \<Rightarrow> string \<Rightarrow> (string \<times> string) option" where
  "rsplit_once pat s = (case filter (\<lambda>i. take (length pat) (drop i s) = pat) (rev [0..<length s]) of
     [] \<Rightarrow> None
   | i # _ \<Rightarrow> Some (take i s, drop (i + length pat) s))"

definition starts_with :: "string \<Rightarrow> string \<Rightarrow> bool" where
  "starts_with pat s \<longleftrightarrow> take (length pat) s = pat"

definition stat_exited :: "string \<Rightarrow> bool" where
  "stat_exited stat = (case rsplit_once '') '' stat of
     None \<Rightarrow> False
   | Some (_, rest) \<Rightarrow> starts_with ''Z '' rest \<or> starts_with ''X '' rest)"

text \<open>\<^verbatim>\<open>/proc/<pid>/stat\<close> and \<^verbatim>\<open>kill(pid, 0)\<close>, which answers with the error number when it fails.\<close>

definition signal_state :: "bool \<Rightarrow> (u32 \<Rightarrow> io_error + string) \<Rightarrow> (u32 \<Rightarrow> nat option + unit) \<Rightarrow> u32 \<Rightarrow> process_state" where
  "signal_state linux read_stat kill pid =
    (if pid = 0 \<or> I32_MAX < pid then ProcessState_Unknown
     else if linux \<and> (case read_stat pid of Inl _ \<Rightarrow> False | Inr stat \<Rightarrow> stat_exited stat) then ProcessState_Exited
     else case kill pid of Inr _ \<Rightarrow> ProcessState_Alive | Inl errno \<Rightarrow> liveness_from_errno errno)"

section \<open>Handles\<close>

text \<open>The operating system as a handle uses it: opening, waiting for the event, and the fallback.\<close>

record 'w exit_os =
  xo_open :: "u32 \<Rightarrow> 'w \<Rightarrow> (io_error + opened) \<times> 'w"
  xo_wait :: "'w exit_wait"
  xo_state :: "u32 \<Rightarrow> instant \<Rightarrow> 'w \<Rightarrow> process_state \<times> duration \<times> 'w"

datatype source = Source_Event | Source_Exited | Source_Pid

record process_handle =
  ph_pid :: process_id
  ph_source :: source

definition handle_open :: "'w exit_os \<Rightarrow> process_id \<Rightarrow> 'w \<Rightarrow> (io_error + process_handle) \<times> 'w" where
  "handle_open os pid w = (case xo_open os (process_id_get pid) w of
     (Inl e, w) \<Rightarrow> (Err e, w)
   | (Inr opened, w) \<Rightarrow> (Ok \<lparr>ph_pid = pid, ph_source = (case opened of
         Opened_Watching \<Rightarrow> Source_Event | Opened_Gone \<Rightarrow> Source_Exited | Opened_Unsupported \<Rightarrow> Source_Pid)\<rparr>, w))"

definition is_pid_only :: "process_handle \<Rightarrow> bool" where
  "is_pid_only h \<longleftrightarrow> ph_source h = Source_Pid"

definition pid_exited :: "'w exit_os \<Rightarrow> u32 \<Rightarrow> ('w, io_error) check" where
  "pid_exited os pid t w = (case xo_state os pid t w of
     (ProcessState_Exited, took, w) \<Rightarrow> (Ok True, took, w)
   | (ProcessState_Alive, took, w) \<Rightarrow> (Ok False, took, w)
   | (ProcessState_Unknown, took, w) \<Rightarrow> (Err (io_error_other ''the OS did not say whether the process exited''), took, w))"

definition pid_wait :: "'w exit_os \<Rightarrow> u32 \<Rightarrow> 'w exit_wait" where
  "pid_wait os pid deadline = (\<lambda>(w, c). poll (pid_exited os pid) deadline w c)"

definition handle_wait_for :: "'w exit_os \<Rightarrow> instant option \<Rightarrow> process_handle \<Rightarrow> 'w \<times> clock
    \<Rightarrow> ((io_error + bool) \<times> process_handle \<times> 'w \<times> clock) option" where
  "handle_wait_for os deadline h s = map_option (\<lambda>(exited, s).
      (exited, if exited = Ok True then h\<lparr>ph_source := Source_Exited\<rparr> else h, s))
    (case ph_source h of
       Source_Event \<Rightarrow> xo_wait os deadline s
     | Source_Exited \<Rightarrow> Some (Ok True, s)
     | Source_Pid \<Rightarrow> pid_wait os (process_id_get (ph_pid h)) deadline s)"

definition handle_has_exited :: "'w exit_os \<Rightarrow> process_handle \<Rightarrow> 'w \<times> clock \<Rightarrow> ((io_error + bool) \<times> process_handle \<times> 'w \<times> clock) option" where
  "handle_has_exited os h = (\<lambda>(w, c). let (now, c) = instant_now c in handle_wait_for os (Some now) h (w, c))"

definition handle_wait :: "'w exit_os \<Rightarrow> process_handle \<Rightarrow> 'w \<times> clock \<Rightarrow> ((io_error + unit) \<times> process_handle \<times> 'w \<times> clock) option" where
  "handle_wait os h s = map_option (apfst (map_sum id (\<lambda>_. ()))) (handle_wait_for os None h s)"

definition handle_wait_until :: "'w exit_os \<Rightarrow> instant \<Rightarrow> process_handle \<Rightarrow> 'w \<times> clock
    \<Rightarrow> ((io_error + bool) \<times> process_handle \<times> 'w \<times> clock) option" where
  "handle_wait_until os deadline = handle_wait_for os (Some deadline)"

definition process_state_of :: "'w exit_os \<Rightarrow> process_id \<Rightarrow> 'w \<times> clock \<Rightarrow> (process_state \<times> 'w \<times> clock) option" where
  "process_state_of os pid = (\<lambda>(w, c).
    let ask = (\<lambda>(w, c). case xo_state os (process_id_get pid) (time c) w of (state, took, w) \<Rightarrow> (state, w, elapse took c)) in
    case handle_open os pid w of
      (Inl _, w) \<Rightarrow> Some (ask (w, c))
    | (Inr h, w) \<Rightarrow> map_option (\<lambda>(exited, _, s). case exited of
          Inr True \<Rightarrow> (ProcessState_Exited, s)
        | Inr False \<Rightarrow> (ProcessState_Alive, s)
        | Inl _ \<Rightarrow> ask s) (handle_has_exited os h (w, c)))"

definition process_has_exited :: "'w exit_os \<Rightarrow> process_id \<Rightarrow> 'w \<times> clock \<Rightarrow> (bool \<times> 'w \<times> clock) option" where
  "process_has_exited os pid s = map_option (apfst (\<lambda>state. state = ProcessState_Exited)) (process_state_of os pid s)"

text \<open>Waiting for a child: \<^verbatim>\<open>try_wait\<close> asks it for its exit status.\<close>

definition wait_child :: "'w exit_os \<Rightarrow> (instant \<Rightarrow> 'w \<Rightarrow> (io_error + 'st option) \<times> duration \<times> 'w) \<Rightarrow> process_handle option
    \<Rightarrow> instant \<Rightarrow> 'w \<times> clock \<Rightarrow> ((io_error + bool) \<times> process_handle option \<times> 'w \<times> clock) option" where
  "wait_child os try_wait exit deadline s =
    (let polled = map_option (\<lambda>(r, s). (r, exit, s))
       (poll (\<lambda>t w. apfst (map_sum id (\<lambda>status. status \<noteq> None)) (try_wait t w)) (Some deadline) (fst s) (snd s)) in
     case exit of
       None \<Rightarrow> polled
     | Some h \<Rightarrow> if is_pid_only h then polled
         else map_option (\<lambda>(r, h, s). (r, Some h, s)) (handle_wait_until os deadline h s))"

section \<open>The exit events are truthful\<close>

definition exited_by :: "instant option \<Rightarrow> instant \<Rightarrow> bool" where
  "exited_by exit t = (case exit of None \<Rightarrow> False | Some x \<Rightarrow> x \<le> t)"

lemma exited_by_mono: "exited_by exit t \<Longrightarrow> t \<le> u \<Longrightarrow> exited_by exit u"
  by (auto simp: exited_by_def split: option.splits)

text \<open>
  What a wait promises: it returns; it says the process exited only when it has; it says it has not only after
  the deadline, and only if it had not when the wait began.
\<close>

definition answer_ok :: "instant option \<Rightarrow> instant option \<Rightarrow> instant \<Rightarrow> io_error + bool \<Rightarrow> instant \<Rightarrow> bool" where
  "answer_ok exit deadline t r u \<longleftrightarrow> t \<le> u \<and> (r = Ok True \<longrightarrow> exited_by exit u)
    \<and> (r = Ok False \<longrightarrow> (\<exists>d. deadline = Some d \<and> d \<le> u) \<and> \<not> exited_by exit t)"

definition truthful_wait :: "instant option \<Rightarrow> 'w exit_wait \<Rightarrow> bool" where
  "truthful_wait exit wait \<longleftrightarrow> (\<forall>deadline w c. \<exists>r w' c'. wait deadline (w, c) = Some (r, w', c') \<and> answer_ok exit deadline (time c) r (time c'))"

definition patience :: "('w \<Rightarrow> nat) \<Rightarrow> instant option \<Rightarrow> 'w \<times> clock \<Rightarrow> nat" where
  "patience spurious deadline = (\<lambda>(w, c). spurious w + (case deadline of None \<Rightarrow> 0 | Some d \<Rightarrow> d - time c))"

lemma answer_ok_later: "answer_ok exit deadline t r u \<Longrightarrow> s \<le> t \<Longrightarrow> answer_ok exit deadline s r u"
  by (auto simp: answer_ok_def dest: exited_by_mono)

lemma truthful_loop:
  assumes "\<And>deadline w c. case round deadline (w, c) of
      Break (r, w', c') \<Rightarrow> answer_ok exit deadline (time c) r (time c')
    | Continue (w', c') \<Rightarrow> time c \<le> time c' \<and> patience spurious deadline (w', c') < patience spurious deadline (w, c)"
  shows "truthful_wait exit (\<lambda>deadline. iterate (round deadline))"
proof -
  have "\<exists>r w' c'. iterate (round deadline) (w, c) = Some (r, w', c') \<and> answer_ok exit deadline (time c) r (time c')" for deadline w c
  proof (induction "patience spurious deadline (w, c)" arbitrary: w c rule: less_induct)
    case less
    show ?case
    proof (cases "round deadline (w, c)")
      case (Break x)
      then show ?thesis using assms[where deadline = deadline and w = w and c = c] by (cases x) (auto simp: iterate_leave)
    next
      case (Continue x)
      then obtain w' c' where x: "round deadline (w, c) = Continue (w', c')" "time c \<le> time c'"
        "patience spurious deadline (w', c') < patience spurious deadline (w, c)"
        using assms[where deadline = deadline and w = w and c = c] by (cases x) auto
      from iterate_step[of "round deadline", OF x(1)] less[OF x(3)] x(2) answer_ok_later show ?thesis by fastforce
    qed
  qed
  then show ?thesis by (simp add: truthful_wait_def)
qed

text \<open>
  What the calls document, for a process that exits at \<^verbatim>\<open>exit\<close>. The number \<^verbatim>\<open>spurious\<close> bounds the interruptions
  and early timeouts still to come.
\<close>

definition poll_ok :: "instant option \<Rightarrow> ('w \<Rightarrow> nat) \<Rightarrow> 'w poll_call \<Rightarrow> bool" where
  "poll_ok exit spurious call \<longleftrightarrow> (\<forall>timeout t w result e revents took w'. call timeout t w = (((result, e), revents), took, w') \<longrightarrow>
     spurious w' \<le> spurious w \<and>
     (if result = -1 then io_kind e = ErrorKind_Interrupted \<longrightarrow> spurious w' < spurious w
      else if revents = 0 then 0 \<le> timeout \<and> from_millis (nat timeout) \<le> took \<and> \<not> exited_by exit t
      else (revents AND POLLIN \<noteq> 0 \<or> revents AND POLLHUP \<noteq> 0 \<or> revents AND POLLERR \<noteq> 0 \<or> revents AND POLLNVAL \<noteq> 0)
        \<and> (revents AND POLLIN \<noteq> 0 \<or> revents AND POLLHUP \<noteq> 0 \<longrightarrow> exited_by exit (t + took))))"

definition kevent_ok :: "instant option \<Rightarrow> ('w \<Rightarrow> nat) \<Rightarrow> 'w kevent_call \<Rightarrow> bool" where
  "kevent_ok exit spurious call \<longleftrightarrow> (\<forall>timeout t w count e event took w'. call timeout t w = (((count, e), event), took, w') \<longrightarrow>
     spurious w' \<le> spurious w \<and>
     (if count = -1 then io_kind e = ErrorKind_Interrupted \<longrightarrow> spurious w' < spurious w
      else if count = 0 then (\<exists>s n. timeout = Some (s, n) \<and> s * nanos_per_sec + n \<le> took) \<and> \<not> exited_by exit t
      else ke_flags event AND EV_ERROR = 0 \<longrightarrow> ke_fflags event AND NOTE_EXIT \<noteq> 0 \<and> exited_by exit (t + took)))"

definition wait_ok :: "instant option \<Rightarrow> ('w \<Rightarrow> nat) \<Rightarrow> 'w wait_call \<Rightarrow> bool" where
  "wait_ok exit spurious call \<longleftrightarrow> (\<forall>milliseconds t w code e took w'. call milliseconds t w = ((code, e), took, w') \<longrightarrow>
     spurious w' \<le> spurious w \<and>
     (code = WAIT_OBJECT_0 \<longrightarrow> exited_by exit (t + took)) \<and>
     (code = WAIT_TIMEOUT \<longrightarrow> milliseconds \<noteq> INFINITE \<and> \<not> exited_by exit t
        \<and> (from_millis milliseconds \<le> took \<or> spurious w' < spurious w)))"

lemma poll_timeout_ahead: "t < d \<Longrightarrow> 0 < from_millis (nat (poll_timeout (Some d) t))"
  by (auto simp: poll_timeout_def millis_until_def C_INT_MAX_def from_millis_def)

lemma wait_readable_truthful:
  assumes "poll_ok exit spurious call"
  shows "truthful_wait exit (wait_readable call)"
  unfolding wait_readable_def[abs_def]
proof (rule truthful_loop[where spurious = spurious])
  fix deadline :: "instant option" and w c
  define c1 where "c1 = tick c"
  obtain result e revents took w' where call: "call (poll_timeout deadline (time c1)) (time c1) w = (((result, e), revents), took, w')"
    by (metis prod.exhaust)
  define c2 where "c2 = elapse took c1"
  have t: "time c \<le> time c1" "time c2 = time c1 + took" "time c2 \<le> time (tick c2)" by (auto simp: c1_def c2_def)
  note law = assms[unfolded poll_ok_def, rule_format, OF call]
  have round: "wait_readable_round call deadline (w, c) = restarting (cvt (result, e)) (w', c2) (\<lambda>result. case result of
      Inl e \<Rightarrow> Break (Err e, w', c2)
    | Inr _ \<Rightarrow>
        if revents \<noteq> 0 then Break (exited_from revents, w', c2)
        else if \<not> waits_again deadline (time (tick c2)) then Break (exited_from revents, w', tick c2) else Continue (w', tick c2))"
    using call by (simp add: wait_readable_round_def instant_now_eq Let_def c1_def c2_def)
  show "case wait_readable_round call deadline (w, c) of
      Break (r, w', c') \<Rightarrow> answer_ok exit deadline (time c) r (time c')
    | Continue (w', c') \<Rightarrow> time c \<le> time c' \<and> patience spurious deadline (w', c') < patience spurious deadline (w, c)"
  proof (cases "result = -1")
    case True
    then show ?thesis using law t unfolding round
      by (auto simp: restarting_def cvt_def answer_ok_def patience_def split: option.splits)
  next
    case ok: False
    show ?thesis
    proof (cases "revents = 0")
      case False
      with ok law t show ?thesis unfolding round
        by (auto simp: restarting_def cvt_def exited_from_def answer_ok_def)
    next
      case True
      with ok law obtain d where d: "deadline = Some d" "\<not> exited_by exit (time c1)" "spurious w' \<le> spurious w"
          "from_millis (nat (poll_timeout (Some d) (time c1))) \<le> took"
        by (cases deadline) (auto simp: poll_timeout_def)
      have silent: "exited_from revents = Ok False" using True by (simp add: exited_from_def)
      have "\<not> exited_by exit (time c)" using d(2) t(1) exited_by_mono by blast
      moreover have "d - time (tick c2) < d - time c" if "time (tick c2) < d"
        using that t d(4) poll_timeout_ahead[of "time c1" d] by linarith
      ultimately show ?thesis unfolding round silent using ok True d(1, 3) t
        by (auto simp: restarting_def cvt_def answer_ok_def waits_again_def patience_def)
    qed
  qed
qed

lemma timespec_ahead: "0 < left \<Longrightarrow> timespec left = (a, b) \<Longrightarrow> 0 < a * nanos_per_sec + b"
  by (auto simp: timespec_def nanos_per_sec_def)

lemma next_exit_truthful:
  assumes "kevent_ok exit spurious call"
  shows "truthful_wait exit (next_exit from_raw call)"
  unfolding next_exit_def[abs_def]
proof (rule truthful_loop[where spurious = spurious])
  fix deadline :: "instant option" and w c
  define c1 where "c1 = (case deadline of None \<Rightarrow> c | Some _ \<Rightarrow> tick c)"
  define timeout where "timeout = map_option (\<lambda>d. timespec (d - time c1)) deadline"
  obtain count e event took w' where call: "call timeout (time c1) w = (((count, e), event), took, w')" by (metis prod.exhaust)
  define c2 where "c2 = elapse took c1"
  have t: "time c \<le> time c1" "time c2 = time c1 + took" "time c2 \<le> time (tick c2)"
    by (auto simp: c1_def c2_def split: option.split)
  note law = assms[unfolded kevent_ok_def, rule_format, OF call]
  have round: "next_exit_round from_raw call deadline (w, c) =
    (if count = -1 then (if io_kind e = ErrorKind_Interrupted then Continue (w', c2) else Break (Err e, w', c2))
     else if count = 0 then (case deadline of
         None \<Rightarrow> Break (Ok False, w', c2)
       | Some d \<Rightarrow> if d \<le> time (tick c2) then Break (Ok False, w', tick c2) else Continue (w', tick c2))
     else if ke_flags event AND EV_ERROR \<noteq> 0 then Break (Err (from_raw (ke_data event)), w', c2)
     else if ke_fflags event AND NOTE_EXIT \<noteq> 0 then Break (Ok True, w', c2)
     else Continue (w', c2))"
    using call by (cases deadline) (simp_all add: next_exit_round_def time_simps Let_def c1_def c2_def timeout_def)
  show "case next_exit_round from_raw call deadline (w, c) of
      Break (r, w', c') \<Rightarrow> answer_ok exit deadline (time c) r (time c')
    | Continue (w', c') \<Rightarrow> time c \<le> time c' \<and> patience spurious deadline (w', c') < patience spurious deadline (w, c)"
  proof (cases "count = 0")
    case False
    then show ?thesis using law t unfolding round
      by (auto simp: answer_ok_def patience_def split: option.splits if_splits)
  next
    case True
    with law obtain d a b where d: "deadline = Some d" "timespec (d - time c1) = (a, b)" "a * nanos_per_sec + b \<le> took"
        "\<not> exited_by exit (time c1)" "spurious w' \<le> spurious w"
      by (auto simp: timeout_def)
    have "\<not> exited_by exit (time c)" using d(4) t(1) exited_by_mono by blast
    moreover have "d - time (tick c2) < d - time c" if "\<not> d \<le> time (tick c2)"
      using that t d(3) timespec_ahead[OF _ d(2)] by linarith
    ultimately show ?thesis unfolding round using True d(1, 5) t
      by (auto simp: answer_ok_def patience_def)
  qed
qed

lemma wait_milliseconds_ahead: "t < d \<Longrightarrow> 0 < from_millis (wait_milliseconds (Some d) t)"
  by (auto simp: wait_milliseconds_def millis_until_def INFINITE_def from_millis_def)

lemma event_wait_truthful:
  assumes "wait_ok exit spurious call"
  shows "truthful_wait exit (event_wait call)"
  unfolding event_wait_def[abs_def]
proof (rule truthful_loop[where spurious = spurious])
  fix deadline :: "instant option" and w c
  define c1 where "c1 = (case deadline of None \<Rightarrow> c | Some _ \<Rightarrow> tick c)"
  obtain code e took w' where call: "call (wait_milliseconds deadline (time c1)) (time c1) w = ((code, e), took, w')" by (metis prod.exhaust)
  define c2 where "c2 = elapse took c1"
  have t: "time c \<le> time c1" "time c2 = time c1 + took" "time c2 \<le> time (tick c2)"
    by (auto simp: c1_def c2_def split: option.split)
  note law = assms[unfolded wait_ok_def, rule_format, OF call]
  have never: "wait_milliseconds None 0 = wait_milliseconds None u" for u by (simp add: wait_milliseconds_def)
  have round: "event_wait_round call deadline (w, c) =
    (if code = WAIT_OBJECT_0 then Break (Ok True, w', c2)
     else if code = WAIT_TIMEOUT then (case deadline of
         None \<Rightarrow> Break (Ok False, w', c2)
       | Some d \<Rightarrow> if d \<le> time (tick c2) then Break (Ok False, w', tick c2) else Continue (w', tick c2))
     else Break (Err e, w', c2))"
    using call by (cases deadline) (simp_all add: event_wait_round_def time_simps Let_def c1_def c2_def never[of "time c"])
  show "case event_wait_round call deadline (w, c) of
      Break (r, w', c') \<Rightarrow> answer_ok exit deadline (time c) r (time c')
    | Continue (w', c') \<Rightarrow> time c \<le> time c' \<and> patience spurious deadline (w', c') < patience spurious deadline (w, c)"
  proof (cases "code = WAIT_TIMEOUT")
    case False
    then show ?thesis using law t unfolding round by (auto simp: answer_ok_def)
  next
    case True
    with law obtain d where d: "deadline = Some d" "\<not> exited_by exit (time c1)" "spurious w' \<le> spurious w"
        "from_millis (wait_milliseconds (Some d) (time c1)) \<le> took \<or> spurious w' < spurious w"
      by (cases deadline) (auto simp: wait_milliseconds_def)
    have "\<not> exited_by exit (time c)" using d(2) t(1) exited_by_mono by blast
    moreover have "spurious w' + (d - time (tick c2)) < spurious w + (d - time c)" if "\<not> d \<le> time (tick c2)"
      using that t d(3, 4) wait_milliseconds_ahead[of "time c1" d] by linarith
    ultimately show ?thesis unfolding round using True d(1) t
      by (auto simp: answer_ok_def patience_def WAIT_OBJECT_0_def WAIT_TIMEOUT_def)
  qed
qed

text \<open>C29: The exit events of every platform are truthful. Whatever the process does, and however often the calls
  are interrupted or time out early, waiting on a pidfd, on a kqueue and on a process handle returns; each says
  the process exited only when it has, and that it has not only once the deadline passed and only if it had not
  when the wait began.
\<close>

theorem exit_events_are_truthful:
  "(poll_ok exit spurious poll_call \<longrightarrow> truthful_wait exit (wait_readable poll_call))
    \<and> (kevent_ok exit spurious kevent_call \<longrightarrow> truthful_wait exit (next_exit from_raw_os_error kevent_call))
    \<and> (wait_ok exit spurious wait_call \<longrightarrow> truthful_wait exit (event_wait wait_call))"
  using wait_readable_truthful next_exit_truthful event_wait_truthful by blast

text \<open>Calls that answer as soon as they can.\<close>

definition quiet :: "int \<times> io_error" where "quiet = (1, io_error_other [])"

definition prompt_poll :: "instant option \<Rightarrow> unit poll_call" where
  "prompt_poll exit timeout t w = (case exit of
     None \<Rightarrow> if timeout < 0 then (((-1, io_error_other []), 0), 0, w) else ((quiet, 0), from_millis (nat timeout), w)
   | Some x \<Rightarrow> if timeout < 0 \<or> x \<le> t + from_millis (nat timeout) then ((quiet, POLLIN), x - t, w)
       else ((quiet, 0), from_millis (nat timeout), w))"

definition prompt_kevent :: "instant option \<Rightarrow> unit kevent_call" where
  "prompt_kevent exit timeout t w =
    (let exited = \<lparr>ke_flags = 0, ke_fflags = NOTE_EXIT, ke_data = 0\<rparr> in
     case (exit, timeout) of
       (None, None) \<Rightarrow> (((-1, io_error_other []), exited), 0, w)
     | (None, Some (s, n)) \<Rightarrow> (((0, io_error_other []), exited), s * nanos_per_sec + n, w)
     | (Some x, None) \<Rightarrow> ((quiet, exited), x - t, w)
     | (Some x, Some (s, n)) \<Rightarrow> if x \<le> t + s * nanos_per_sec + n then ((quiet, exited), x - t, w)
         else (((0, io_error_other []), exited), s * nanos_per_sec + n, w))"

definition prompt_wait :: "instant option \<Rightarrow> unit wait_call" where
  "prompt_wait exit milliseconds t w = (case exit of
     None \<Rightarrow> if milliseconds = INFINITE then ((1, io_error_other []), 0, w) else ((WAIT_TIMEOUT, io_error_other []), from_millis milliseconds, w)
   | Some x \<Rightarrow> if milliseconds = INFINITE \<or> x \<le> t + from_millis milliseconds then ((WAIT_OBJECT_0, io_error_other []), x - t, w)
       else ((WAIT_TIMEOUT, io_error_other []), from_millis milliseconds, w))"

lemma prompt_calls_ok:
  "poll_ok exit (\<lambda>_. 0) (prompt_poll exit)" "kevent_ok exit (\<lambda>_. 0) (prompt_kevent exit)" "wait_ok exit (\<lambda>_. 0) (prompt_wait exit)"
proof -
  show "poll_ok exit (\<lambda>_. 0) (prompt_poll exit)"
    by (auto simp: poll_ok_def prompt_poll_def quiet_def exited_by_def POLLIN_def io_error_other_def io_error_new_def split: option.splits if_splits)
  show "kevent_ok exit (\<lambda>_. 0) (prompt_kevent exit)"
    by (auto simp: kevent_ok_def prompt_kevent_def quiet_def exited_by_def NOTE_EXIT_def io_error_other_def io_error_new_def Let_def
        split: option.splits if_splits)
  show "wait_ok exit (\<lambda>_. 0) (prompt_wait exit)"
    by (auto simp: wait_ok_def prompt_wait_def exited_by_def WAIT_OBJECT_0_def WAIT_TIMEOUT_def io_error_other_def io_error_new_def
        split: option.splits if_splits)
qed

theorem exit_events_are_truthful_witness:
  "truthful_wait (Some 7) (wait_readable (prompt_poll (Some 7))) \<and> truthful_wait (Some 7) (next_exit (\<lambda>_. io_error_other []) (prompt_kevent (Some 7)))
    \<and> truthful_wait (Some 7) (event_wait (prompt_wait (Some 7)))"
  using exit_events_are_truthful[of "Some 7" "\<lambda>_. 0" "prompt_poll (Some 7)" "prompt_kevent (Some 7)" "\<lambda>_. io_error_other []" "prompt_wait (Some 7)"]
    prompt_calls_ok by blast

section \<open>Handles are truthful\<close>

text \<open>What the fallback establishes: only that a process it calls exited has exited.\<close>

definition state_ok :: "instant option \<Rightarrow> (instant \<Rightarrow> 'w \<Rightarrow> process_state \<times> duration \<times> 'w) \<Rightarrow> bool" where
  "state_ok exit state \<longleftrightarrow> (\<forall>t w took w'. state t w = (ProcessState_Exited, took, w') \<longrightarrow> exited_by exit (t + took))"

definition check_ok :: "(instant \<Rightarrow> 's \<Rightarrow> bool) \<Rightarrow> instant option \<Rightarrow> ('s, 'e) check \<Rightarrow> bool" where
  "check_ok I exit check \<longleftrightarrow> (\<forall>t s r took s'. I t s \<longrightarrow> check t s = (r, took, s') \<longrightarrow>
     I (t + took) s' \<and> (r = Inr True \<longrightarrow> exited_by exit (t + took))) \<and> (\<forall>t u s. I t s \<longrightarrow> t \<le> u \<longrightarrow> I u s)"

lemma poll_round_answers:
  assumes "check_ok I exit check" "I (time c) s"
  shows "case poll_round check (Some d) (pause, s, c) of
      Break (r, s', c') \<Rightarrow> I (time c') s' \<and> time c \<le> time c' \<and> (r = Ok True \<longrightarrow> exited_by exit (time c')) \<and> (r = Ok False \<longrightarrow> d \<le> time c')
    | Continue (_, s', c') \<Rightarrow> I (time c') s' \<and> time c \<le> time c'"
proof -
  obtain r took s' where check: "check (time c) s = (r, took, s')" by (metis prod.exhaust)
  define c1 where "c1 = tick (elapse took c)"
  define left where "left = d - time c1"
  define c2 where "c2 = sleep (min left pause) c1"
  have t: "time c \<le> time c1" "time c1 \<le> time c2" "time c2 \<le> time (tick c2)"
    using tick_mono[of "elapse took c"] by (auto simp: c1_def c2_def simp del: le_tick)
  have holds: "I (time c + took) s'" "r = Inr True \<longrightarrow> exited_by exit (time c + took)"
    and mono: "I u s'" if "time c + took \<le> u" for u using assms check that unfolding check_ok_def by blast+
  have "time c + took \<le> time c1" using tick_mono[of "elapse took c"] by (simp add: c1_def)
  then have "I (time c1) s'" "I (time (tick c2)) s'" using t by (auto intro!: mono simp del: le_tick)
  moreover have "poll_round check (Some d) (pause, s, c) = (case r of
      Inl e \<Rightarrow> Break (Err e, s', elapse took c)
    | Inr True \<Rightarrow> Break (Ok True, s', elapse took c)
    | Inr False \<Rightarrow> if left = 0 then Break (Ok False, s', c1)
        else if d \<le> time (tick c2) then Break (Ok False, s', tick c2)
        else Continue (min backoff_longest (pause * 2), s', tick c2))"
    using check by (simp add: poll_round_def next_pause_def time_simps Let_def c1_def left_def c2_def split: sum.split bool.split)
  ultimately show ?thesis using t holds by (auto simp: left_def split: sum.split bool.split)
qed

lemma poll_answers:
  assumes "check_ok I exit check" "I (time c) s"
  shows "\<exists>r s' c'. poll check (Some d) s c = Some (r, s', c') \<and> I (time c') s' \<and> time c \<le> time c' \<and> (r = Ok True \<longrightarrow> exited_by exit (time c'))
    \<and> (r = Ok False \<longrightarrow> d \<le> time c')"
proof -
  obtain r s' c' where r: "poll check (Some d) s c = Some (r, s', c')" using poll_total by (metis prod.exhaust)
  let ?J = "\<lambda>(pause, s, k). I (time k) s \<and> time c \<le> time k"
  let ?Q = "\<lambda>(r, s', c'). I (time c') s' \<and> time c \<le> time c' \<and> (r = Ok True \<longrightarrow> exited_by exit (time c')) \<and> (r = Ok False \<longrightarrow> d \<le> time c')"
  have "?Q (r, s', c')"
  proof (rule iterate_partial[OF r[unfolded poll_def], where I = ?J and Q = ?Q])
    fix x y assume "?J x" "poll_round check (Some d) x = Continue y"
    then show "?J y"
      using poll_round_answers[OF assms(1), where d = d and pause = "fst x" and s = "fst (snd x)" and c = "snd (snd x)"]
      by (auto split: prod.splits)
  next
    fix x y assume "?J x" "poll_round check (Some d) x = Break y"
    then show "?Q y"
      using poll_round_answers[OF assms(1), where d = d and pause = "fst x" and s = "fst (snd x)" and c = "snd (snd x)"]
      by (auto split: prod.splits)
  qed (use assms(2) in simp)
  with r show ?thesis by auto
qed

definition handle_ok :: "instant option \<Rightarrow> process_handle \<Rightarrow> instant \<Rightarrow> bool" where
  "handle_ok exit h t \<longleftrightarrow> (ph_source h = Source_Exited \<longrightarrow> exited_by exit t)"

lemma handle_wait_for_answers:
  assumes "truthful_wait exit (xo_wait os)" "state_ok exit (xo_state os (process_id_get (ph_pid h)))" "handle_ok exit h (time c)"
  shows "\<exists>r w' c'. handle_wait_for os (Some d) h (w, c) = Some (r, if r = Ok True then h\<lparr>ph_source := Source_Exited\<rparr> else h, w', c')
    \<and> time c \<le> time c' \<and> (r = Ok True \<longrightarrow> exited_by exit (time c'))
    \<and> (r = Ok False \<longrightarrow> d \<le> time c' \<and> (is_pid_only h \<or> \<not> exited_by exit (time c)))"
proof (cases "ph_source h")
  case Source_Event
  from assms(1)[unfolded truthful_wait_def, rule_format, of "Some d" w c] Source_Event show ?thesis
    by (auto simp: handle_wait_for_def answer_ok_def is_pid_only_def)
next
  case Source_Exited
  then show ?thesis using assms(3) by (auto simp: handle_wait_for_def handle_ok_def)
next
  case Source_Pid
  have "check_ok (\<lambda>_ _. True) exit (pid_exited os (process_id_get (ph_pid h)))"
    using assms(2) by (auto simp: check_ok_def state_ok_def pid_exited_def split: prod.splits process_state.splits)
  from poll_answers[OF this, where s = w and d = d and c = c] Source_Pid show ?thesis
    by (auto simp: handle_wait_for_def pid_wait_def is_pid_only_def)
qed

lemma process_has_exited_answers:
  assumes "truthful_wait exit (xo_wait os)" "state_ok exit (xo_state os (process_id_get pid))"
    and "\<And>w'. xo_open os (process_id_get pid) w = (Inr Opened_Gone, w') \<Longrightarrow> exited_by exit (time c)"
  shows "\<exists>b w' c'. process_has_exited os pid (w, c) = Some (b, w', c') \<and> (b \<longrightarrow> exited_by exit (time c'))"
proof -
  have asked: "exited_by exit (t + took)" if "xo_state os (process_id_get pid) t v = (ProcessState_Exited, took, v')" for t v took v'
    using assms(2) that unfolding state_ok_def by blast
  show ?thesis
  proof (cases "handle_open os pid w")
    case (Pair r v)
    show ?thesis
    proof (cases r)
      case (Inl e)
      then show ?thesis using Pair asked[of "time c" v]
        by (auto simp: process_has_exited_def process_state_of_def Let_def split: prod.split)
    next
      case (Inr h)
      with Pair have h: "ph_pid h = pid" "handle_ok exit h (time (tick c))"
        using assms(3) by (auto simp: handle_open_def handle_ok_def split: prod.splits sum.splits opened.splits dest: exited_by_mono[OF _ tick_mono])
      from handle_wait_for_answers[OF assms(1) _ h(2), of "time (tick c)" v] assms(2) h(1)
      obtain a h' v' c' where a: "handle_wait_for os (Some (time (tick c))) h (v, tick c) = Some (a, h', v', c')"
        "a = Ok True \<longrightarrow> exited_by exit (time c')" by auto
      then show ?thesis using Pair Inr asked[of "time c'" v']
        by (auto simp: process_has_exited_def process_state_of_def handle_has_exited_def instant_now_eq Let_def split: prod.split sum.split bool.split)
    qed
  qed
qed


text \<open>A process that exits at 7 ms, watched through a pidfd.\<close>

definition example_exit_os :: "unit exit_os" where
  "example_exit_os = \<lparr>xo_open = pidfd_open (\<lambda>_ w. ((3, io_error_other []), w)), xo_wait = wait_readable (prompt_poll (Some 7000000)),
     xo_state = (\<lambda>_ _ w. (ProcessState_Unknown, 0, w))\<rparr>"


end
