(* ===== verification/Daemon_Child.thy ===== *)
theory Daemon_Child
  imports Process_Handle Readiness
begin

text \<open>
  Started processes: \<^verbatim>\<open>std::process::Child\<close> as the crate uses it, the started daemon of
  \<^verbatim>\<open>src/src/launch.rs\<close> and the candidate of \<^verbatim>\<open>src/src/candidate.rs\<close>. A process exits by itself at a time given
  in advance, or never, and dies some time after it is killed; any call on a child may fail.
\<close>

section \<open>Children\<close>

datatype exit_status = ExitStatus_Code nat | ExitStatus_Killed

definition exit_success :: "exit_status \<Rightarrow> bool" where
  "exit_success status \<longleftrightarrow> status = ExitStatus_Code 0"

record child =
  child_pid :: process_id
  child_exit :: "(instant \<times> exit_status) option"
  child_reaped :: "exit_status option"
  child_lag :: duration
  child_errors :: "io_error option list"

definition child_exits :: "child \<Rightarrow> instant option" where
  "child_exits ch = map_option fst (child_exit ch)"

text \<open>The next call on a child not yet waited for: does it fail?\<close>

definition next_error :: "child \<Rightarrow> io_error option \<times> child" where
  "next_error ch = (case child_errors ch of [] \<Rightarrow> (None, ch) | e # es \<Rightarrow> (e, ch\<lparr>child_errors := es\<rparr>))"

definition child_try_wait :: "instant \<Rightarrow> child \<Rightarrow> (io_error + exit_status option) \<times> duration \<times> child" where
  "child_try_wait t ch = (case child_reaped ch of
     Some status \<Rightarrow> (Ok (Some status), 0, ch)
   | None \<Rightarrow> (case next_error ch of
       (Some e, ch) \<Rightarrow> (Err e, 0, ch)
     | (None, ch) \<Rightarrow> (case child_exit ch of
         Some (x, status) \<Rightarrow> if x \<le> t then (Ok (Some status), 0, ch\<lparr>child_reaped := Some status\<rparr>) else (Ok None, 0, ch)
       | None \<Rightarrow> (Ok None, 0, ch))))"

definition child_kill :: "instant \<Rightarrow> child \<Rightarrow> (io_error + unit) \<times> child" where
  "child_kill t ch = (case child_reaped ch of
     Some _ \<Rightarrow> (Ok (), ch)
   | None \<Rightarrow> (case next_error ch of
       (Some e, ch) \<Rightarrow> (Err e, ch)
     | (None, ch) \<Rightarrow> (Ok (), case child_exit ch of
         Some (x, _) \<Rightarrow> if x \<le> t + child_lag ch then ch else ch\<lparr>child_exit := Some (t + child_lag ch, ExitStatus_Killed)\<rparr>
       | None \<Rightarrow> ch\<lparr>child_exit := Some (t + child_lag ch, ExitStatus_Killed)\<rparr>)))"

text \<open>\<^const>\<open>None\<close>: the call never returns, because the process never exits.\<close>

definition child_wait :: "child \<times> clock \<Rightarrow> ((io_error + exit_status) \<times> child \<times> clock) option" where
  "child_wait = (\<lambda>(ch, c). case child_reaped ch of
     Some status \<Rightarrow> Some (Ok status, ch, c)
   | None \<Rightarrow> (case next_error ch of
       (Some e, ch) \<Rightarrow> Some (Err e, ch, c)
     | (None, ch) \<Rightarrow> (case child_exit ch of
         Some (x, status) \<Rightarrow> Some (Ok status, ch\<lparr>child_reaped := Some status\<rparr>, elapse (x - time c) c)
       | None \<Rightarrow> None)))"

text \<open>
  \<^verbatim>\<open>Reaped\<close>: a child that is reaped when dropped, at once if it has exited, otherwise by a thread that waits for
  it, if one can be created.
\<close>

datatype reaping = Reaping_Done | Reaping_Thread | Reaping_Nobody

definition reaped_drop :: "bool \<Rightarrow> child \<times> clock \<Rightarrow> reaping \<times> child \<times> clock" where
  "reaped_drop thread = (\<lambda>(ch, c). case child_try_wait (time c) ch of
     (Inr (Some _), took, ch) \<Rightarrow> (Reaping_Done, ch, elapse took c)
   | (_, took, ch) \<Rightarrow> (if thread then Reaping_Thread else Reaping_Nobody, ch, elapse took c))"

section \<open>The started daemon\<close>

record 'ch daemon_child =
  dc_inner :: child
  dc_exit :: process_handle
  dc_readiness :: "'ch option"

definition daemon_id :: "'ch daemon_child \<Rightarrow> process_id" where
  "daemon_id d = child_pid (dc_inner d)"

definition take_readiness :: "'ch daemon_child \<Rightarrow> 'ch option \<times> 'ch daemon_child" where
  "take_readiness d = (dc_readiness d, d\<lparr>dc_readiness := None\<rparr>)"

definition daemon_try_wait :: "'ch daemon_child \<times> clock \<Rightarrow> (io_error + exit_status option) \<times> 'ch daemon_child \<times> clock" where
  "daemon_try_wait = (\<lambda>(d, c). case child_try_wait (time c) (dc_inner d) of (r, took, ch) \<Rightarrow> (r, d\<lparr>dc_inner := ch\<rparr>, elapse took c))"

definition daemon_wait :: "'ch daemon_child \<times> clock \<Rightarrow> ((io_error + exit_status) \<times> 'ch daemon_child \<times> clock) option" where
  "daemon_wait = (\<lambda>(d, c). map_option (\<lambda>(r, ch, c). (r, d\<lparr>dc_inner := ch\<rparr>, c)) (child_wait (dc_inner d, c)))"

definition daemon_kill :: "'ch daemon_child \<times> clock \<Rightarrow> (io_error + unit) \<times> 'ch daemon_child \<times> clock" where
  "daemon_kill = (\<lambda>(d, c). case child_kill (time c) (dc_inner d) of (r, ch) \<Rightarrow> (r, d\<lparr>dc_inner := ch\<rparr>, c))"

definition daemon_exits_by :: "child exit_os \<Rightarrow> instant \<Rightarrow> 'ch daemon_child \<times> clock \<Rightarrow> ((io_error + bool) \<times> 'ch daemon_child \<times> clock) option" where
  "daemon_exits_by os deadline = (\<lambda>(d, c).
    map_option (\<lambda>(r, exit, ch, c). (r, d\<lparr>dc_inner := ch, dc_exit := (case exit of None \<Rightarrow> dc_exit d | Some h \<Rightarrow> h)\<rparr>, c))
      (wait_child os child_try_wait (Some (dc_exit d)) deadline (dc_inner d, c)))"

definition daemon_wait_until :: "child exit_os \<Rightarrow> instant \<Rightarrow> 'ch daemon_child \<times> clock
    \<Rightarrow> ((io_error + exit_status option) \<times> 'ch daemon_child \<times> clock) option" where
  "daemon_wait_until os deadline s = (case daemon_exits_by os deadline s of
     None \<Rightarrow> None
   | Some (Inl e, s) \<Rightarrow> Some (Err e, s)
   | Some (Inr True, s) \<Rightarrow> map_option (apfst (map_sum id Some)) (daemon_wait s)
   | Some (Inr False, s) \<Rightarrow> Some (Ok None, s))"

datatype startup = Startup_Live | Startup_Exited | Startup_TimedOut

text \<open>The caller's probe: given the time it starts, it answers after some time.\<close>

type_synonym 'p live_probe = "instant \<Rightarrow> 'p \<Rightarrow> bool \<times> duration \<times> 'p"

type_synonym ('p, 'ch) live_state = "'p \<times> 'ch daemon_child \<times> clock"

definition live_round :: "child exit_os \<Rightarrow> 'p live_probe \<Rightarrow> instant \<Rightarrow> ('p, 'ch) live_state
    \<Rightarrow> (((io_error + startup) ret \<times> ('p, 'ch) live_state) option, ('p, 'ch) live_state) control" where
  "live_round os is_live deadline = (\<lambda>(p, d, c).
    let (live, took, p) = is_live (time c) p; c = elapse took c in
    if live then Break (Some (Returned (Ok Startup_Live), p, d, c))
    else
      let (now, c) = instant_now c in
      if deadline \<le> now then Break (Some (Returned (Ok Startup_TimedOut), p, d, c))
      else case instant_add now poll_interval of
        None \<Rightarrow> Break (Some (Panicked, p, d, c))
      | Some next \<Rightarrow>
          (case daemon_exits_by os (min deadline next) (d, c) of
             None \<Rightarrow> Break None
           | Some (Inl e, d, c) \<Rightarrow> Break (Some (Returned (Err e), p, d, c))
           | Some (Inr False, d, c) \<Rightarrow> Continue (p, d, c)
           | Some (Inr True, d, c) \<Rightarrow>
               let (live, took, p) = is_live (time c) p in
               Break (Some (Returned (Ok (if live then Startup_Live else Startup_Exited)), p, d, elapse took c))))"

definition daemon_wait_until_live :: "child exit_os \<Rightarrow> 'p live_probe \<Rightarrow> instant \<Rightarrow> ('p, 'ch) live_state
    \<Rightarrow> ((io_error + startup) ret \<times> ('p, 'ch) live_state) option" where
  "daemon_wait_until_live os is_live deadline s = Option.bind (iterate (live_round os is_live deadline) s) id"

section \<open>Candidates\<close>

datatype 'ch cand_process = Process_Child child "process_handle option" | Process_Daemon "'ch daemon_child"

record 'ch candidate =
  cand_process :: "'ch cand_process"
  cand_selected :: bool

definition candidate_new :: "child exit_os \<Rightarrow> child \<Rightarrow> 'ch candidate" where
  "candidate_new os process = (case handle_open os (child_pid process) process of
     (r, process) \<Rightarrow> \<lparr>cand_process = Process_Child process (case r of Inl _ \<Rightarrow> None | Inr h \<Rightarrow> Some h), cand_selected = False\<rparr>)"

definition candidate_from :: "'ch daemon_child \<Rightarrow> 'ch candidate" where
  "candidate_from daemon = \<lparr>cand_process = Process_Daemon daemon, cand_selected = False\<rparr>"

definition candidate_id :: "'ch candidate \<Rightarrow> process_id" where
  "candidate_id k = (case cand_process k of Process_Child ch _ \<Rightarrow> child_pid ch | Process_Daemon d \<Rightarrow> daemon_id d)"

definition candidate_try_wait :: "'ch candidate \<times> clock \<Rightarrow> (io_error + exit_status option) \<times> 'ch candidate \<times> clock" where
  "candidate_try_wait = (\<lambda>(k, c). case cand_process k of
     Process_Child ch exit \<Rightarrow> (case child_try_wait (time c) ch of
       (r, took, ch) \<Rightarrow> (r, k\<lparr>cand_process := Process_Child ch exit\<rparr>, elapse took c))
   | Process_Daemon d \<Rightarrow> (case daemon_try_wait (d, c) of (r, d, c) \<Rightarrow> (r, k\<lparr>cand_process := Process_Daemon d\<rparr>, c)))"

definition candidate_exit_handle :: "'ch candidate \<Rightarrow> io_error + process_handle" where
  "candidate_exit_handle k = (case cand_process k of
     Process_Child _ (Some h) \<Rightarrow> Ok h
   | Process_Child _ None \<Rightarrow> Err (io_error_other ''the candidate's exit handle could not be opened'')
   | Process_Daemon d \<Rightarrow> Ok (dc_exit d))"

definition candidate_wait_until :: "child exit_os \<Rightarrow> instant \<Rightarrow> 'ch candidate \<times> clock
    \<Rightarrow> ((io_error + exit_status option) \<times> 'ch candidate \<times> clock) option" where
  "candidate_wait_until os deadline = (\<lambda>(k, c). case cand_process k of
     Process_Child ch exit \<Rightarrow>
       (case wait_child os child_try_wait exit deadline (ch, c) of
          None \<Rightarrow> None
        | Some (Inl e, exit, ch, c) \<Rightarrow> Some (Err e, k\<lparr>cand_process := Process_Child ch exit\<rparr>, c)
        | Some (Inr False, exit, ch, c) \<Rightarrow> Some (Ok None, k\<lparr>cand_process := Process_Child ch exit\<rparr>, c)
        | Some (Inr True, exit, ch, c) \<Rightarrow>
            map_option (\<lambda>(r, ch, c). (map_sum id Some r, k\<lparr>cand_process := Process_Child ch exit\<rparr>, c)) (child_wait (ch, c)))
   | Process_Daemon d \<Rightarrow>
       map_option (\<lambda>(r, d, c). (r, k\<lparr>cand_process := Process_Daemon d\<rparr>, c)) (daemon_wait_until os deadline (d, c)))"

definition candidate_selected :: "'ch candidate \<Rightarrow> 'ch candidate" where
  "candidate_selected k = k\<lparr>cand_selected := True\<rparr>"

definition candidate_stop :: "'ch cand_process \<times> clock \<Rightarrow> ((io_error + exit_status) \<times> 'ch cand_process \<times> clock) option" where
  "candidate_stop = (\<lambda>(p, c). case p of
     Process_Child ch exit \<Rightarrow>
       (case child_kill (time c) ch of
          (Inl e, ch) \<Rightarrow> Some (Err e, Process_Child ch exit, c)
        | (Inr _, ch) \<Rightarrow> map_option (\<lambda>(r, ch, c). (r, Process_Child ch exit, c)) (child_wait (ch, c)))
   | Process_Daemon d \<Rightarrow>
       (case daemon_kill (d, c) of
          (Inl e, d, c) \<Rightarrow> Some (Err e, Process_Daemon d, c)
        | (Inr _, d, c) \<Rightarrow> map_option (\<lambda>(r, d, c). (r, Process_Daemon d, c)) (daemon_wait (d, c))))"

text \<open>The child of either kind, and dropping a candidate: its process is stopped unless selected, then reaped.\<close>

definition process_child :: "'ch cand_process \<Rightarrow> child" where
  "process_child p = (case p of Process_Child ch _ \<Rightarrow> ch | Process_Daemon d \<Rightarrow> dc_inner d)"

definition candidate_drop :: "bool \<Rightarrow> 'ch candidate \<times> clock \<Rightarrow> (reaping \<times> child \<times> clock) option" where
  "candidate_drop thread = (\<lambda>(k, c).
    if \<not> cand_selected k
    then map_option (\<lambda>(_, p, c). reaped_drop thread (process_child p, c)) (candidate_stop (cand_process k, c))
    else Some (reaped_drop thread (process_child (cand_process k), c)))"

section \<open>Waiting for a child\<close>

text \<open>The exit event of a child is truthful about it and leaves the child alone.\<close>

definition watches_children :: "child exit_os \<Rightarrow> bool" where
  "watches_children os \<longleftrightarrow> (\<forall>deadline ch c. \<exists>r c'. xo_wait os deadline (ch, c) = Some (r, ch, c')
     \<and> answer_ok (child_exits ch) deadline (time c) r (time c'))"

definition child_ok :: "child \<Rightarrow> instant \<Rightarrow> bool" where
  "child_ok ch t \<longleftrightarrow> (child_reaped ch \<noteq> None \<longrightarrow> exited_by (child_exits ch) t \<and> child_reaped ch = map_option snd (child_exit ch))"

lemma next_error_simps [simp]:
  "child_exit (snd (next_error ch)) = child_exit ch" "child_reaped (snd (next_error ch)) = child_reaped ch"
  "child_pid (snd (next_error ch)) = child_pid ch" "child_lag (snd (next_error ch)) = child_lag ch"
  by (simp_all add: next_error_def split: list.split)

lemma child_try_wait_keeps:
  assumes "child_try_wait t ch = (r, took, ch')"
  shows "child_exit ch' = child_exit ch" "child_pid ch' = child_pid ch" "took = 0" "child_errors ch = [] \<Longrightarrow> child_errors ch' = []"
  using assms next_error_simps[of ch]
  by (auto simp: child_try_wait_def next_error_def[of ch] simp del: next_error_simps split: option.splits prod.splits if_splits)

lemma child_try_wait_ok:
  assumes "child_try_wait t ch = (r, took, ch')" "child_ok ch t"
  shows "child_ok ch' t" "r = Ok (Some status) \<Longrightarrow> exited_by (child_exits ch) t"
  using assms next_error_simps[of ch]
  by (auto simp: child_try_wait_def child_ok_def child_exits_def exited_by_def simp del: next_error_simps split: option.splits prod.splits if_splits)

lemma child_ok_mono: "child_ok ch t \<Longrightarrow> t \<le> u \<Longrightarrow> child_ok ch u"
  by (auto simp: child_ok_def dest: exited_by_mono)

lemma wait_child_answers:
  assumes "watches_children os" "child_ok ch (time c)" "\<And>h. exit = Some h \<Longrightarrow> handle_ok (child_exits ch) h (time c)"
  shows "\<exists>r exit' ch' c'. wait_child os child_try_wait exit d (ch, c) = Some (r, exit', ch', c') \<and> time c \<le> time c'
    \<and> child_exit ch' = child_exit ch \<and> child_ok ch' (time c') \<and> (child_errors ch = [] \<longrightarrow> child_errors ch' = [])
    \<and> (r = Ok True \<longrightarrow> exited_by (child_exits ch) (time c')) \<and> (r = Ok False \<longrightarrow> d \<le> time c')
    \<and> (\<forall>h. exit' = Some h \<longrightarrow> handle_ok (child_exits ch) h (time c'))"
proof -
  let ?check = "\<lambda>t w. apfst (map_sum id (\<lambda>status. status \<noteq> None)) (child_try_wait t w)"
  define I where "I = (\<lambda>t s. child_exit s = child_exit ch \<and> child_ok s t \<and> (child_errors ch = [] \<longrightarrow> child_errors s = []))"
  have "check_ok I (child_exits ch) ?check"
    unfolding check_ok_def
  proof (intro conjI allI impI)
    fix t s r took s'
    assume I: "I t s" and "?check t s = (r, took, s')"
    then obtain a where a: "child_try_wait t s = (a, took, s')" "r = map_sum id (\<lambda>status. status \<noteq> None) a"
      by (cases "child_try_wait t s") auto
    show "I (t + took) s'"
      using I child_try_wait_keeps[OF a(1)] child_try_wait_ok(1)[OF a(1)] by (simp add: I_def)
    assume "r = Inr True"
    then obtain status where "a = Ok (Some status)" using a(2) by (cases a) auto
    from child_try_wait_ok(2)[OF a(1) _ this] I child_try_wait_keeps(3)[OF a(1)]
    show "exited_by (child_exits ch) (t + took)" by (simp add: I_def child_exits_def)
  qed (auto simp: I_def intro: child_ok_mono)
  from poll_answers[OF this, where s = ch and c = c and d = d] assms(2)
  obtain r ch' c' where polled: "poll ?check (Some d) ch c = Some (r, ch', c')" "I (time c') ch'" "time c \<le> time c'"
      "r = Ok True \<longrightarrow> exited_by (child_exits ch) (time c')" "r = Ok False \<longrightarrow> d \<le> time c'"
    by (auto simp: I_def)
  have later: "handle_ok (child_exits ch) h (time c')" if "handle_ok (child_exits ch) h (time c)" "time c \<le> time c'" for h c'
    using that by (auto simp: handle_ok_def dest: exited_by_mono)
  show ?thesis
  proof (cases "\<exists>h. exit = Some h \<and> \<not> is_pid_only h")
    case False
    then show ?thesis using polled assms(3) later[OF _ polled(3)] by (cases exit) (auto simp: wait_child_def I_def Let_def)
  next
    case True
    then obtain h where h: "exit = Some h" "\<not> is_pid_only h" by blast
    obtain a k where a: "xo_wait os (Some d) (ch, c) = Some (a, ch, k)" "answer_ok (child_exits ch) (Some d) (time c) a (time k)"
      using assms(1) unfolding watches_children_def by blast
    show ?thesis
    proof (cases "ph_source h")
      case Source_Event
      then show ?thesis using h a child_ok_mono[OF assms(2)]
        by (auto simp: wait_child_def Let_def handle_wait_until_def handle_wait_for_def answer_ok_def handle_ok_def)
    next
      case Source_Exited
      then show ?thesis using h assms(2) assms(3)[OF h(1)]
        by (auto simp: wait_child_def Let_def handle_wait_until_def handle_wait_for_def handle_ok_def)
    qed (use h in \<open>simp add: is_pid_only_def\<close>)
  qed
qed

section \<open>Candidates are disposable until selected\<close>

lemma child_kill_then_wait:
  assumes "child_errors ch = []" "child_ok ch (time c)"
  obtains ch1 ch2 c2 status where "child_kill (time c) ch = (Ok (), ch1)" "child_wait (ch1, c) = Some (Ok status, ch2, c2)"
    "child_reaped ch2 = Some status" "exited_by (child_exits ch2) (time c2)" "time c \<le> time c2" "time c2 \<le> time c + child_lag ch"
    "map_option snd (child_exit ch2) = Some status"
proof (cases "child_reaped ch")
  case (Some status)
  then have "exited_by (child_exits ch) (time c)" "map_option snd (child_exit ch) = Some status" using assms(2) by (auto simp: child_ok_def)
  with Some that[of ch status ch c] show ?thesis by (simp add: child_kill_def child_wait_def)
next
  case None
  then have kill: "child_kill (time c) ch = (Ok (), case child_exit ch of
         Some (x, _) \<Rightarrow> if x \<le> time c + child_lag ch then ch else ch\<lparr>child_exit := Some (time c + child_lag ch, ExitStatus_Killed)\<rparr>
       | None \<Rightarrow> ch\<lparr>child_exit := Some (time c + child_lag ch, ExitStatus_Killed)\<rparr>)"
    using assms(1) by (simp add: child_kill_def next_error_def)
  define ch1 where "ch1 = (case child_exit ch of
         Some (x, _) \<Rightarrow> if x \<le> time c + child_lag ch then ch else ch\<lparr>child_exit := Some (time c + child_lag ch, ExitStatus_Killed)\<rparr>
       | None \<Rightarrow> ch\<lparr>child_exit := Some (time c + child_lag ch, ExitStatus_Killed)\<rparr>)"
  have "\<exists>x status. child_exit ch1 = Some (x, status) \<and> x \<le> time c + child_lag ch \<and> child_reaped ch1 = None \<and> child_errors ch1 = []"
    using None assms(1) by (auto simp: ch1_def split: option.split)
  then obtain x status where x: "child_exit ch1 = Some (x, status)" "x \<le> time c + child_lag ch" "child_reaped ch1 = None" "child_errors ch1 = []"
    by blast
  then have "child_wait (ch1, c) = Some (Ok status, ch1\<lparr>child_reaped := Some status\<rparr>, elapse (x - time c) c)"
    by (simp add: child_wait_def next_error_def)
  with kill x show ?thesis
    by (intro that[of ch1 status "ch1\<lparr>child_reaped := Some status\<rparr>" "elapse (x - time c) c"])
       (auto simp: ch1_def[symmetric] exited_by_def child_exits_def)
qed

lemma reaped_drop_ok:
  assumes "reaped_drop thread (ch, c) = (reaping, ch', c')"
  shows "child_exit ch' = child_exit ch" "c' = c" "child_reaped ch = Some st \<Longrightarrow> reaping = Reaping_Done \<and> ch' = ch"
proof -
  obtain r took ch1 where t: "child_try_wait (time c) ch = (r, took, ch1)" by (metis prod.exhaust)
  have "ch' = ch1" "c' = elapse took c" using assms t by (auto simp: reaped_drop_def split: sum.splits option.splits)
  with child_try_wait_keeps[OF t] show "child_exit ch' = child_exit ch" "c' = c" by (simp_all add: elapse_def)
  show "child_reaped ch = Some st \<Longrightarrow> reaping = Reaping_Done \<and> ch' = ch"
    using assms by (simp add: reaped_drop_def child_try_wait_def)
qed

lemma candidate_stop_child:
  "(case candidate_stop (p, c) of None \<Rightarrow> None | Some (r, p', c') \<Rightarrow> Some (r, process_child p', c')) =
    (case child_kill (time c) (process_child p) of
       (Inl e, ch) \<Rightarrow> Some (Err e, ch, c)
     | (Inr _, ch) \<Rightarrow> child_wait (ch, c))"
  by (cases p) (auto simp: candidate_stop_def process_child_def daemon_kill_def daemon_wait_def split: prod.splits sum.splits option.splits)


definition example_child :: child where
  "example_child = \<lparr>child_pid = the (process_id_new 42), child_exit = None, child_reaped = None, child_lag = 5, child_errors = []\<rparr>"


section \<open>Waiting for a daemon to serve\<close>

text \<open>A probe that also records when each call ended and what it said.\<close>

definition noted_live :: "'p live_probe \<Rightarrow> ('p \<times> (instant \<times> bool) list) live_probe" where
  "noted_live is_live = (\<lambda>t (p, log). case is_live t p of (live, took, p) \<Rightarrow> (live, took, p, log @ [(t, live)]))"

definition daemon_ok :: "instant option \<Rightarrow> 'ch daemon_child \<times> clock \<Rightarrow> bool" where
  "daemon_ok exit = (\<lambda>(d, c). child_exits (dc_inner d) = exit \<and> child_ok (dc_inner d) (time c) \<and> handle_ok exit (dc_exit d) (time c))"

lemma daemon_ok_mono: "daemon_ok exit (d, c) \<Longrightarrow> time c \<le> time c' \<Longrightarrow> daemon_ok exit (d, c')"
  by (auto simp: daemon_ok_def handle_ok_def intro: child_ok_mono dest: exited_by_mono)

lemma daemon_exits_by_answers:
  assumes "watches_children os" "daemon_ok exit (d, c)"
  shows "\<exists>r d' c'. daemon_exits_by os deadline (d, c) = Some (r, d', c') \<and> daemon_ok exit (d', c') \<and> time c \<le> time c'
    \<and> (r = Ok True \<longrightarrow> exited_by exit (time c')) \<and> (r = Ok False \<longrightarrow> deadline \<le> time c')"
proof -
  have "\<And>h. Some (dc_exit d) = Some h \<Longrightarrow> handle_ok (child_exits (dc_inner d)) h (time c)" using assms(2) by (simp add: daemon_ok_def)
  from wait_child_answers[OF assms(1) _ this, where d = deadline] assms(2)
  obtain r exit' ch' c' where w: "wait_child os child_try_wait (Some (dc_exit d)) deadline (dc_inner d, c) = Some (r, exit', ch', c')"
      "time c \<le> time c'" "child_exit ch' = child_exit (dc_inner d)" "child_ok ch' (time c')" "child_errors (dc_inner d) = [] \<longrightarrow> child_errors ch' = []"
      "r = Ok True \<longrightarrow> exited_by exit (time c')" "r = Ok False \<longrightarrow> deadline \<le> time c'"
      "\<forall>h. exit' = Some h \<longrightarrow> handle_ok exit h (time c')"
    unfolding daemon_ok_def by force
  have "handle_ok exit (dc_exit d) (time c')" using assms(2) w(2) by (auto simp: daemon_ok_def handle_ok_def dest: exited_by_mono)
  with w assms(2) show ?thesis by (auto simp: daemon_exits_by_def daemon_ok_def child_exits_def split: option.split)
qed

definition live_inv :: "instant option \<Rightarrow> ('p \<times> (instant \<times> bool) list, 'ch) live_state \<Rightarrow> bool" where
  "live_inv exit = (\<lambda>((p, log), d, c). daemon_ok exit (d, c) \<and> list_all (\<lambda>(_, live). \<not> live) log)"

definition live_post :: "instant option \<Rightarrow> instant \<Rightarrow> ((io_error + startup) ret \<times> ('p \<times> (instant \<times> bool) list, 'ch) live_state) option \<Rightarrow> bool" where
  "live_post exit deadline r = (case r of
     None \<Rightarrow> False
   | Some (out, (_, log), _, c) \<Rightarrow> (case out of
       Returned (Inr Startup_Live) \<Rightarrow> (\<exists>before t. log = before @ [(t, True)] \<and> list_all (\<lambda>(_, live). \<not> live) before)
     | Returned (Inr Startup_TimedOut) \<Rightarrow> deadline \<le> time c \<and> log \<noteq> [] \<and> list_all (\<lambda>(_, live). \<not> live) log
     | Returned (Inr Startup_Exited) \<Rightarrow> (\<exists>before t. log = before @ [(t, False)] \<and> exited_by exit t \<and> list_all (\<lambda>(_, live). \<not> live) before)
     | Returned (Inl _) \<Rightarrow> list_all (\<lambda>(_, live). \<not> live) log
     | Panicked \<Rightarrow> instant_max < time c + poll_interval))"

lemma live_round_ok:
  assumes "watches_children os" "live_inv exit s"
  shows "case live_round os (noted_live is_live) deadline s of
      Break r \<Rightarrow> live_post exit deadline r
    | Continue s' \<Rightarrow> live_inv exit s' \<and> (s', s) \<in> measure (\<lambda>(_, _, c). deadline - time c)"
proof -
  obtain p log d c where s: "s = ((p, log), d, c)" by (metis prod.exhaust)
  obtain live took p' where probe: "is_live (time c) p = (live, took, p')" by (metis prod.exhaust)
  define c1 where "c1 = elapse took c"
  define c2 where "c2 = tick c1"
  have t: "time c \<le> time c1" "time c1 \<le> time c2" by (auto simp: c1_def c2_def)
  have log: "list_all (\<lambda>(_, live). \<not> live) log" and ok: "daemon_ok exit (d, c2)"
    using assms(2) t daemon_ok_mono[of exit d c c2] by (auto simp: live_inv_def s)
  let ?log = "log @ [(time c, live)]"
  have probed: "noted_live is_live (time c) (p, log) = (live, took, p', ?log)" using probe by (simp add: noted_live_def)
  have round: "live_round os (noted_live is_live) deadline s = (
    if live then Break (Some (Returned (Ok Startup_Live), (p', ?log), d, c1))
    else if deadline \<le> time c2 then Break (Some (Returned (Ok Startup_TimedOut), (p', ?log), d, c2))
    else case instant_add (time c2) poll_interval of
        None \<Rightarrow> Break (Some (Panicked, (p', ?log), d, c2))
      | Some soon \<Rightarrow>
          (case daemon_exits_by os (min deadline soon) (d, c2) of
             None \<Rightarrow> Break None
           | Some (Inl e, d, c) \<Rightarrow> Break (Some (Returned (Err e), (p', ?log), d, c))
           | Some (Inr False, d, c) \<Rightarrow> Continue ((p', ?log), d, c)
           | Some (Inr True, d, c) \<Rightarrow>
               let (live, took, p) = noted_live is_live (time c) (p', ?log) in
               Break (Some (Returned (Ok (if live then Startup_Live else Startup_Exited)), p, d, elapse took c))))"
    using probed by (simp add: live_round_def s Let_def instant_now_eq c1_def[symmetric] c2_def[symmetric])
  consider "live" | "\<not> live" "deadline \<le> time c2" | "\<not> live" "time c2 < deadline" "instant_add (time c2) poll_interval = None"
    | soon where "\<not> live" "time c2 < deadline" "instant_add (time c2) poll_interval = Some soon"
    by fastforce
  then show ?thesis
  proof cases
    case 4
    obtain r d' c' where r: "daemon_exits_by os (min deadline soon) (d, c2) = Some (r, d', c')" "daemon_ok exit (d', c')" "time c2 \<le> time c'"
        "r = Ok True \<longrightarrow> exited_by exit (time c')" "r = Ok False \<longrightarrow> min deadline soon \<le> time c'"
      using daemon_exits_by_answers[OF assms(1) ok] by blast
    have "time c2 < min deadline soon" using 4 by (auto simp: instant_add_def poll_interval_def from_millis_def split: if_splits)
    obtain l k q where again: "is_live (time c') p' = (l, k, q)" by (metis prod.exhaust)
    show ?thesis
    proof (cases r)
      case (Inl e)
      then show ?thesis unfolding round using 4 r log by (simp add: live_post_def)
    next
      case (Inr b)
      show ?thesis
      proof (cases b)
        case True
        with Inr r(4) show ?thesis unfolding round using 4 r(1) log again by (simp add: live_post_def noted_live_def)
      next
        case False
        with Inr r(5) have "min deadline soon \<le> time c'" by simp
        then have "time c < time c'" using t \<open>time c2 < min deadline soon\<close> by linarith
        then show ?thesis unfolding round using 4 r(1, 2) Inr False log t by (simp add: live_inv_def s)
      qed
    qed
  qed (use log in \<open>simp_all add: round live_post_def instant_add_def split: if_splits\<close>)
qed

text \<open>C26: Waiting for a daemon to serve ends with the truth. Whatever the probe answers and however long it takes, the
  wait returns; it reports the daemon live exactly for its first successful probe, reports a timeout only past
  the deadline with every probe failed, and reports an exit only when the daemon exited and a probe begun after
  its exit failed too.
\<close>

theorem startup_is_reported_truthfully:
  assumes "watches_children os" "daemon_ok exit (d, c)"
  shows "\<exists>r. daemon_wait_until_live os (noted_live is_live) deadline ((p, []), d, c) = Some r \<and> live_post exit deadline (Some r)"
proof -
  let ?s = "((p, []), d, c)" and ?round = "live_round os (noted_live is_live) deadline"
  have start: "live_inv exit ?s" using assms(2) by (simp add: live_inv_def)
  have step: "live_inv exit s' \<and> (s', s) \<in> measure (\<lambda>(_, _, c). deadline - time c)" if "live_inv exit s" "?round s = Continue s'" for s s'
    using live_round_ok[OF assms(1) that(1), where is_live = is_live and deadline = deadline] that(2) by simp
  obtain r where r: "iterate ?round ?s = Some r"
    using iterate_total[OF wf_measure start step] by blast
  have "live_post exit deadline r"
    using iterate_partial[where I = "live_inv exit" and Q = "live_post exit deadline", OF r start] step
      live_round_ok[OF assms(1), where is_live = is_live and deadline = deadline] by fastforce
  then show ?thesis using r by (cases r) (simp_all add: daemon_wait_until_live_def live_post_def)
qed

text \<open>A daemon that serves from 30 ms on, watched through its process handle.\<close>

definition example_child_os :: "child exit_os" where
  "example_child_os = \<lparr>xo_open = windows_open (\<lambda>_ w. (Ok (), w)),
     xo_wait = (\<lambda>deadline (ch, c). map_option (\<lambda>(r, _, c). (r, ch, c)) (event_wait (prompt_wait (child_exits ch)) deadline ((), c))),
     xo_state = (\<lambda>_ _ w. (ProcessState_Unknown, 0, w))\<rparr>"

definition example_daemon :: "unit daemon_child" where
  "example_daemon = \<lparr>dc_inner = example_child, dc_exit = \<lparr>ph_pid = child_pid example_child, ph_source = Source_Event\<rparr>, dc_readiness = None\<rparr>"

lemma example_child_os_watches: "watches_children example_child_os"
proof -
  have "\<exists>r c'. event_wait (prompt_wait (child_exits ch)) deadline ((), c) = Some (r, (), c') \<and> answer_ok (child_exits ch) deadline (time c) r (time c')"
    for ch deadline c
    using event_wait_truthful[OF prompt_calls_ok(3)[of "child_exits ch"]] unfolding truthful_wait_def by force
  then show ?thesis unfolding watches_children_def example_child_os_def by fastforce
qed

theorem startup_is_reported_truthfully_witness:
  "\<exists>r. daemon_wait_until_live example_child_os (noted_live (\<lambda>t p. (30000000 \<le> t, 0, p))) 90000000 (((), []), example_daemon, \<lparr>time = 0, delays = []\<rparr>)
      = Some r \<and> live_post None 90000000 (Some r)"
  by (rule startup_is_reported_truthfully[OF example_child_os_watches])
     (simp add: daemon_ok_def example_daemon_def example_child_def child_exits_def child_ok_def handle_ok_def)

end
