(* ===== verification/Unix_Spawn.thy ===== *)
theory Unix_Spawn
  imports Daemon_Child Monitor "HOL-Library.List_Lexorder" "HOL-Library.Char_ord"
begin

text \<open>
  Starting a process on Unix (the spawning half of \<^verbatim>\<open>src/src/local/unix.rs\<close>, with \<^verbatim>\<open>src/src/spawn_lock.rs\<close>). The
  state is the part of the calling process a spawn touches: its table of descriptors with their close-on-exec
  flags, its SIGCHLD disposition and its environment. \<^verbatim>\<open>std::process::Command\<close> is modelled as the crate uses it;
  any system call may fail. The spawn lock is held throughout, so a spawn is one step of the process.
\<close>

section \<open>Descriptors\<close>

datatype access = O_RDONLY | O_WRONLY | O_RDWR

record open_file =
  of_id :: nat
  of_fifo :: bool
  of_access :: access

type_synonym descriptors = "nat \<Rightarrow> (open_file \<times> bool) option"

record caller =
  ca_fds :: descriptors
  ca_max :: nat
  ca_rlimit :: "nat option"
  ca_close_range :: bool
  ca_sigchld :: nat
  ca_env :: "string \<Rightarrow> string option"
  ca_next :: nat
  ca_errors :: "io_error option list"
  ca_waits :: "(int \<times> io_error) list"

text \<open>The next system call: does it fail?\<close>

definition next_failure :: "caller \<Rightarrow> io_error option \<times> caller" where
  "next_failure l = (case ca_errors l of [] \<Rightarrow> (None, l) | e # es \<Rightarrow> (e, l\<lparr>ca_errors := es\<rparr>))"

definition too_many_files :: io_error where
  "too_many_files = \<lparr>io_kind = ErrorKind_Other, io_os = Some 24, io_message = []\<rparr>"

definition bad_descriptor :: io_error where
  "bad_descriptor = \<lparr>io_kind = ErrorKind_Other, io_os = Some 9, io_message = []\<rparr>"

text \<open>The lowest free number from \<^verbatim>\<open>n\<close> on, close-on-exec; and closing a number.\<close>

definition alloc :: "nat \<Rightarrow> open_file \<Rightarrow> caller \<Rightarrow> (io_error + nat) \<times> caller" where
  "alloc n file l = (case find (\<lambda>k. ca_fds l k = None) [n..<ca_max l] of
     None \<Rightarrow> (Err too_many_files, l)
   | Some k \<Rightarrow> (Ok k, l\<lparr>ca_fds := (ca_fds l)(k := Some (file, True))\<rparr>))"

definition close_fd :: "nat \<Rightarrow> caller \<Rightarrow> caller" where
  "close_fd k l = l\<lparr>ca_fds := (ca_fds l)(k := None)\<rparr>"

text \<open>\<^verbatim>\<open>fcntl(fd, F_DUPFD_CLOEXEC, n)\<close>, also behind \<^verbatim>\<open>File::try_clone\<close>, and \<^verbatim>\<open>std::io::pipe\<close>.\<close>

definition dup_fd :: "nat \<Rightarrow> nat \<Rightarrow> caller \<Rightarrow> (io_error + nat) \<times> caller" where
  "dup_fd n k l = (case next_failure l of
     (Some e, l) \<Rightarrow> (Err e, l)
   | (None, l) \<Rightarrow> (case ca_fds l k of
       None \<Rightarrow> (Err bad_descriptor, l)
     | Some (file, _) \<Rightarrow> alloc n file l))"

definition pipe_end :: "nat \<Rightarrow> access \<Rightarrow> open_file" where
  "pipe_end n access = \<lparr>of_id = n, of_fifo = True, of_access = access\<rparr>"

definition std_pipe :: "caller \<Rightarrow> (io_error + nat \<times> nat) \<times> caller" where
  "std_pipe l = (case next_failure l of
     (Some e, l) \<Rightarrow> (Err e, l)
   | (None, l) \<Rightarrow> (case alloc 0 (pipe_end (ca_next l) O_RDONLY) l of
       (Inl e, l) \<Rightarrow> (Err e, l)
     | (Inr reader, l) \<Rightarrow> (case alloc 0 (pipe_end (ca_next l) O_WRONLY) l of
         (Inl e, l) \<Rightarrow> (Err e, close_fd reader l)
       | (Inr writer, l) \<Rightarrow> (Ok (reader, writer), l\<lparr>ca_next := Suc (ca_next l)\<rparr>))))"

definition ready_pipe :: "caller \<Rightarrow> (io_error + nat \<times> nat) \<times> caller" where
  "ready_pipe l = (case std_pipe l of
     (Inl e, l) \<Rightarrow> (Err e, l)
   | (Inr (reader, writer), l) \<Rightarrow> (case dup_fd 3 writer l of
       (Inl e, l) \<Rightarrow> (Err e, close_fd reader (close_fd writer l))
     | (Inr raised, l) \<Rightarrow> (Ok (reader, raised), close_fd writer l)))"

section \<open>Commands\<close>

datatype stdio = Stdio_Inherit | Stdio_Null | Stdio_Fd nat

text \<open>The hook \<^verbatim>\<open>in_new_session\<close> installs, with the limit computed in the parent.\<close>

record command =
  cmd_program :: path
  cmd_args :: "string list"
  cmd_env :: "(string, string option) btree"
  cmd_dir :: "path option"
  cmd_stdin :: stdio
  cmd_stdout :: stdio
  cmd_stderr :: stdio
  cmd_hook :: "(nat \<times> nat option) option"

definition command_new :: "path \<Rightarrow> command" where
  "command_new program = \<lparr>cmd_program = program, cmd_args = [], cmd_env = [], cmd_dir = None,
     cmd_stdin = Stdio_Inherit, cmd_stdout = Stdio_Inherit, cmd_stderr = Stdio_Inherit, cmd_hook = None\<rparr>"

definition command_env :: "string \<Rightarrow> string option \<Rightarrow> command \<Rightarrow> command" where
  "command_env name change cmd = cmd\<lparr>cmd_env := btree_insert name change (cmd_env cmd)\<rparr>"

definition descriptor_limit :: "caller \<Rightarrow> nat" where
  "descriptor_limit l = min (case ca_rlimit l of Some n \<Rightarrow> n | None \<Rightarrow> 1024) 65536"

definition in_new_session :: "nat option \<Rightarrow> caller \<Rightarrow> command \<Rightarrow> command" where
  "in_new_session keep l cmd = cmd\<lparr>cmd_hook := Some (descriptor_limit l, keep)\<rparr>"

definition mark_inherited_descriptors_cloexec :: "bool \<Rightarrow> nat \<Rightarrow> descriptors \<Rightarrow> descriptors" where
  "mark_inherited_descriptors_cloexec close_range limit fds =
    (\<lambda>k. if 3 \<le> k \<and> (close_range \<or> k < limit) then map_option (\<lambda>(file, _). (file, True)) (fds k) else fds k)"

text \<open>What runs in the child: the standard streams, the hook, and the exec.\<close>

definition null_device :: open_file where
  "null_device = \<lparr>of_id = 0, of_fifo = False, of_access = O_RDWR\<rparr>"

definition child_stream :: "descriptors \<Rightarrow> nat \<Rightarrow> stdio \<Rightarrow> (open_file \<times> bool) option" where
  "child_stream fds k target = (case target of
     Stdio_Inherit \<Rightarrow> fds k
   | Stdio_Null \<Rightarrow> Some (null_device, False)
   | Stdio_Fd n \<Rightarrow> map_option (\<lambda>(file, _). (file, False)) (fds n))"

definition prepare :: "bool \<Rightarrow> nat \<times> nat option \<Rightarrow> descriptors \<Rightarrow> io_error + descriptors" where
  "prepare close_range = (\<lambda>(limit, keep) fds.
    let fds = mark_inherited_descriptors_cloexec close_range limit fds in
    case keep of
      None \<Rightarrow> Ok fds
    | Some k \<Rightarrow> (case fds k of
        None \<Rightarrow> Err bad_descriptor
      | Some (file, _) \<Rightarrow> Ok (fds(k := Some (file, False)))))"

definition exec_descriptors :: "descriptors \<Rightarrow> descriptors" where
  "exec_descriptors fds = (\<lambda>k. case fds k of Some (file, False) \<Rightarrow> Some (file, False) | _ \<Rightarrow> None)"

record started =
  st_program :: path
  st_args :: "string list"
  st_env :: "string \<Rightarrow> string option"
  st_dir :: "path option"
  st_fds :: descriptors
  st_leader :: bool
  st_sigchld :: nat

definition command_environment :: "(string \<Rightarrow> string option) \<Rightarrow> command \<Rightarrow> string \<Rightarrow> string option" where
  "command_environment inherited cmd name = (case btree_get name (cmd_env cmd) of None \<Rightarrow> inherited name | Some change \<Rightarrow> change)"

definition command_spawn :: "command \<Rightarrow> caller \<Rightarrow> (io_error + started) \<times> caller" where
  "command_spawn cmd l = (case next_failure l of
     (Some e, l) \<Rightarrow> (Err e, l)
   | (None, l) \<Rightarrow>
       let fds = (ca_fds l)(0 := child_stream (ca_fds l) 0 (cmd_stdin cmd), 1 := child_stream (ca_fds l) 1 (cmd_stdout cmd),
             2 := child_stream (ca_fds l) 2 (cmd_stderr cmd)) in
       case (case cmd_hook cmd of None \<Rightarrow> Ok fds | Some hook \<Rightarrow> prepare (ca_close_range l) hook fds) of
         Inl e \<Rightarrow> (Err e, l)
       | Inr fds \<Rightarrow> (Ok \<lparr>st_program = cmd_program cmd, st_args = cmd_args cmd, st_env = command_environment (ca_env l) cmd,
           st_dir = cmd_dir cmd, st_fds = exec_descriptors fds, st_leader = cmd_hook cmd \<noteq> None, st_sigchld = ca_sigchld l\<rparr>, l))"

section \<open>Spawning with child waiting\<close>

definition child_disposition :: "nat \<Rightarrow> caller \<Rightarrow> (io_error + nat) \<times> caller" where
  "child_disposition handler l = (case next_failure l of
     (Some e, l) \<Rightarrow> (Err e, l)
   | (None, l) \<Rightarrow> (Ok (ca_sigchld l), l\<lparr>ca_sigchld := handler\<rparr>))"

definition auto_reap_children :: "caller \<Rightarrow> (io_error + unit) \<times> caller" where
  "auto_reap_children l = apfst (map_sum id (\<lambda>_. ())) (child_disposition 1 l)"

definition restore_child_waiting :: "caller \<Rightarrow> (io_error + unit) \<times> caller" where
  "restore_child_waiting l = apfst (map_sum id (\<lambda>_. ())) (child_disposition 0 l)"

text \<open>The answers of \<^verbatim>\<open>waitpid(-1, WNOHANG)\<close>: none left means no child has exited.\<close>

fun reap_exited_children :: "(int \<times> io_error) list \<Rightarrow> (int \<times> io_error) list" where
  "reap_exited_children [] = []"
| "reap_exited_children ((pid, last_os_error) # answers) =
    (if 0 < pid \<or> pid = -1 \<and> io_kind last_os_error = ErrorKind_Interrupted then reap_exited_children answers else answers)"

text \<open>
  \<^verbatim>\<open>watched\<close>: a child that cannot be watched is stopped. The second component is the child as it is left, and
  \<^const>\<open>None\<close> outside means that waiting for the stopped child never returns.
\<close>

definition watched :: "(child \<Rightarrow> (io_error + 'h) \<times> child) \<Rightarrow> child \<times> clock \<Rightarrow> ((io_error + 'h) \<times> child \<times> clock) option" where
  "watched watch = (\<lambda>(ch, c). case watch ch of
     (Inr h, ch) \<Rightarrow> Some (Ok h, ch, c)
   | (Inl e, ch) \<Rightarrow> (case child_kill (time c) ch of
       (_, ch) \<Rightarrow> map_option (\<lambda>(_, ch, c). (Err e, ch, c)) (child_wait (ch, c))))"

text \<open>
  \<^verbatim>\<open>plan\<close> is how the new process will live. The result carries the process as \<^verbatim>\<open>exec\<close> left it, the child as it
  is left, and the state.
\<close>

definition spawn_then :: "(child \<Rightarrow> (io_error + 'h) \<times> child) \<Rightarrow> child \<Rightarrow> command \<Rightarrow> caller \<times> clock
    \<Rightarrow> ((io_error + 'h \<times> started) \<times> child option \<times> caller \<times> clock) option" where
  "spawn_then watch plan cmd = (\<lambda>(l, c).
    case child_disposition 0 l of
      (Inl e, l) \<Rightarrow> Some (Err e, None, l, c)
    | (Inr previous, l) \<Rightarrow>
        (case (case command_spawn cmd l of
             (Inl e, l) \<Rightarrow> Some (Err e, None, l, c)
           | (Inr st, l) \<Rightarrow> map_option (\<lambda>(r, ch, c). (map_sum id (\<lambda>h. (h, st)) r, Some ch, l, c)) (watched watch (plan, c))) of
           None \<Rightarrow> None
         | Some (r, ch, l, c) \<Rightarrow>
             (case child_disposition previous l of
                (Inl e, l) \<Rightarrow> Some (Err e, ch, l, c)
              | (Inr _, l) \<Rightarrow>
                  Some (r, ch, if previous = 1 then l\<lparr>ca_waits := reap_exited_children (ca_waits l)\<rparr> else l, c))))"

definition spawn_with_child_waiting :: "child \<Rightarrow> command \<Rightarrow> caller \<times> clock
    \<Rightarrow> ((io_error + started) \<times> child option \<times> caller \<times> clock) option" where
  "spawn_with_child_waiting plan cmd s = map_option (apfst (map_sum id snd)) (spawn_then (\<lambda>ch. (Ok (), ch)) plan cmd s)"

definition spawn_in_new_session :: "child \<Rightarrow> command \<Rightarrow> caller \<times> clock
    \<Rightarrow> ((io_error + started) \<times> child option \<times> caller \<times> clock) option" where
  "spawn_in_new_session plan cmd s = spawn_with_child_waiting plan (in_new_session None (fst s) cmd) s"

definition spawn_in_new_session_watched :: "child exit_os \<Rightarrow> child \<Rightarrow> command \<Rightarrow> nat option \<Rightarrow> caller \<times> clock
    \<Rightarrow> ((io_error + process_handle \<times> started) \<times> child option \<times> caller \<times> clock) option" where
  "spawn_in_new_session_watched os plan cmd keep s =
    spawn_then (\<lambda>ch. handle_open os (child_pid ch) ch) plan (in_new_session keep (fst s) cmd) s"

section \<open>Taking over the channel in the daemon\<close>

text \<open>\<^verbatim>\<open>str::parse::<i32>\<close>.\<close>

definition parse_i32 :: "string \<Rightarrow> int option" where
  "parse_i32 s =
    (let (negative, digits) = (case s of
         c # rest \<Rightarrow> if c = CHR ''-'' then (True, rest) else if c = CHR ''+'' then (False, rest) else (False, s)
       | [] \<Rightarrow> (False, []));
       n = (if negative then - int (decimal_value digits) else int (decimal_value digits)) in
     if digits \<noteq> [] \<and> list_all is_digit digits \<and> - (2 ^ 31) \<le> n \<and> n < 2 ^ 31 then Some n else None)"

definition take_ready_descriptor :: "string \<Rightarrow> descriptors \<Rightarrow> (io_error + nat) \<times> descriptors" where
  "take_ready_descriptor value fds =
    (let refuse = (\<lambda>message. (Err (io_error_new ErrorKind_InvalidInput message), fds)) in
     case parse_i32 value of
       None \<Rightarrow> refuse ''the readiness channel is not a descriptor number''
     | Some fd \<Rightarrow>
         if fd \<le> 2 then refuse ''a standard stream is not a readiness channel''
         else case fds (nat fd) of
           None \<Rightarrow> (Err bad_descriptor, fds)
         | Some (file, _) \<Rightarrow>
             if \<not> of_fifo file then refuse ''the readiness channel is not a pipe''
             else if of_access file \<noteq> O_WRONLY then refuse ''the readiness channel is not the write end of a pipe''
             else (Ok (nat fd), fds(nat fd := Some (file, True))))"

text \<open>\<^verbatim>\<open>Notifier::from_env\<close>: the variable is removed whether or not it names a channel.\<close>

definition ENV :: string where "ENV = ''KUNOBI_DAEMON_READY''"

definition notifier_from_env :: "started \<Rightarrow> (io_error + nat option) \<times> started" where
  "notifier_from_env st = (case st_env st ENV of
     None \<Rightarrow> (Ok None, st)
   | Some value \<Rightarrow>
       let st = st\<lparr>st_env := (st_env st)(ENV := None)\<rparr> in
       case take_ready_descriptor value (st_fds st) of
         (Inl e, fds) \<Rightarrow> (Err e, st\<lparr>st_fds := fds\<rparr>)
       | (Inr fd, fds) \<Rightarrow> (Ok (Some fd), st\<lparr>st_fds := fds\<rparr>))"

definition terminate_legacy_peer :: "(u32 \<Rightarrow> io_error + unit) \<Rightarrow> process_id \<Rightarrow> io_error + unit" where
  "terminate_legacy_peer kill_term pid =
    (if I32_MAX < process_id_get pid then Err (io_error_new ErrorKind_InvalidInput ''PID out of range'')
     else kill_term (process_id_get pid))"

section \<open>What the calls leave alone\<close>

definition frame :: "caller \<Rightarrow> caller \<Rightarrow> bool" where
  "frame l l' \<longleftrightarrow> ca_max l' = ca_max l \<and> ca_rlimit l' = ca_rlimit l \<and> ca_close_range l' = ca_close_range l \<and> ca_env l' = ca_env l"

lemma frame_refl [simp]: "frame l l"
  by (simp add: frame_def)

lemma frame_trans: "frame l m \<Longrightarrow> frame m n \<Longrightarrow> frame l n"
  by (simp add: frame_def)

lemma close_fd_simps [simp]:
  "frame l (close_fd k m) = frame l m" "ca_fds (close_fd k l) = (ca_fds l)(k := None)" "ca_sigchld (close_fd k l) = ca_sigchld l" "ca_next (close_fd k l) = ca_next l"
  "ca_max (close_fd k l) = ca_max l" "ca_rlimit (close_fd k l) = ca_rlimit l" "ca_close_range (close_fd k l) = ca_close_range l" "ca_env (close_fd k l) = ca_env l"
  by (simp_all add: close_fd_def frame_def)

lemma next_failure_frame:
  "next_failure l = (e, l') \<Longrightarrow> frame l l' \<and> ca_fds l' = ca_fds l \<and> ca_sigchld l' = ca_sigchld l \<and> ca_next l' = ca_next l"
  by (auto simp: next_failure_def frame_def split: list.splits)

lemma alloc_ok:
  "alloc n file l = (Inr k, l') \<Longrightarrow> n \<le> k \<and> k < ca_max l \<and> ca_fds l k = None \<and> l' = l\<lparr>ca_fds := (ca_fds l)(k := Some (file, True))\<rparr>"
  "alloc n file l = (Inl e, l') \<Longrightarrow> l' = l"
proof -
  assume "alloc n file l = (Inr k, l')"
  then obtain j where j: "find (\<lambda>k. ca_fds l k = None) [n..<ca_max l] = Some j" "j = k" "l' = l\<lparr>ca_fds := (ca_fds l)(k := Some (file, True))\<rparr>"
    by (auto simp: alloc_def split: option.splits)
  from j(1, 2) have "k \<in> set [n..<ca_max l]" "ca_fds l k = None" unfolding find_Some_iff by auto
  with j(3) show "n \<le> k \<and> k < ca_max l \<and> ca_fds l k = None \<and> l' = l\<lparr>ca_fds := (ca_fds l)(k := Some (file, True))\<rparr>" by auto
qed (auto simp: alloc_def split: option.splits)

lemma dup_fd_ok:
  assumes "dup_fd n j l = (r, l')"
  shows "frame l l' \<and> ca_sigchld l' = ca_sigchld l \<and> ca_next l' = ca_next l \<and>
    (case r of
       Inl _ \<Rightarrow> ca_fds l' = ca_fds l
     | Inr k \<Rightarrow> n \<le> k \<and> k < ca_max l \<and> ca_fds l k = None \<and> (\<exists>file b. ca_fds l j = Some (file, b) \<and> ca_fds l' = (ca_fds l)(k := Some (file, True))))"
proof -
  obtain e m where m: "next_failure l = (e, m)" by fastforce
  note same = next_failure_frame[OF m]
  show ?thesis
  proof (cases e)
    case (Some x)
    then show ?thesis using assms m same by (auto simp: dup_fd_def)
  next
    case None
    show ?thesis
    proof (cases "ca_fds m j")
      case None
      then show ?thesis using assms m same \<open>e = None\<close> by (auto simp: dup_fd_def)
    next
      case (Some x)
      obtain f b where x: "x = (f, b)" by fastforce
      with assms m None Some have a: "alloc n f m = (r, l')" by (simp add: dup_fd_def)
      show ?thesis
      proof (cases r)
        case (Inl e')
        then show ?thesis using alloc_ok(2)[of n f m e' l'] a same by simp
      next
        case (Inr k)
        then show ?thesis using alloc_ok(1)[of n f m k l'] a same Some x by (auto simp: frame_def)
      qed
    qed
  qed
qed

lemma std_pipe_ok:
  assumes "std_pipe l = (r, l')"
  shows "frame l l' \<and> ca_sigchld l' = ca_sigchld l \<and>
    (case r of
       Inl _ \<Rightarrow> ca_fds l' = ca_fds l
     | Inr (reader, writer) \<Rightarrow> reader \<noteq> writer \<and> reader < ca_max l \<and> writer < ca_max l \<and> ca_fds l reader = None \<and> ca_fds l writer = None
         \<and> ca_fds l' = (ca_fds l)(reader := Some (pipe_end (ca_next l) O_RDONLY, True), writer := Some (pipe_end (ca_next l) O_WRONLY, True)))"
proof -
  obtain e m where m: "next_failure l = (e, m)" by fastforce
  note same = next_failure_frame[OF m]
  show ?thesis
  proof (cases e)
    case (Some x)
    then show ?thesis using assms m same by (auto simp: std_pipe_def)
  next
    case None
    obtain a m1 where a: "alloc 0 (pipe_end (ca_next m) O_RDONLY) m = (a, m1)" by fastforce
    show ?thesis
    proof (cases a)
      case (Inl x)
      with alloc_ok(2)[of 0 _ m x m1] a have "m1 = m" by blast
      then show ?thesis using assms m None a same Inl by (auto simp: std_pipe_def)
    next
      case (Inr reader)
      with alloc_ok(1)[of 0 _ m reader m1] a
      have one: "reader < ca_max m" "ca_fds m reader = None" "m1 = m\<lparr>ca_fds := (ca_fds m)(reader := Some (pipe_end (ca_next m) O_RDONLY, True))\<rparr>"
        by auto
      obtain b m2 where b: "alloc 0 (pipe_end (ca_next m1) O_WRONLY) m1 = (b, m2)" by fastforce
      show ?thesis
      proof (cases b)
        case (Inl x)
        with alloc_ok(2)[of 0 _ m1 x m2] b have "m2 = m1" by blast
        then have "(r, l') = (Err x, close_fd reader m1)" using assms m None a \<open>a = Inr reader\<close> b Inl by (simp add: std_pipe_def)
        with one same show ?thesis by (auto simp: frame_def fun_upd_idem)
      next
        case (Inr writer)
        with alloc_ok(1)[of 0 _ m1 writer m2] b
        have two: "writer < ca_max m1" "ca_fds m1 writer = None" "m2 = m1\<lparr>ca_fds := (ca_fds m1)(writer := Some (pipe_end (ca_next m1) O_WRONLY, True))\<rparr>"
          by auto
        from assms m None a b Inr \<open>a = Inr reader\<close> have "r = Ok (reader, writer)" "l' = m2\<lparr>ca_next := Suc (ca_next m2)\<rparr>"
          by (auto simp: std_pipe_def)
        moreover have "reader \<noteq> writer" using two(2) one(3) by auto
        ultimately show ?thesis using one two same by (auto simp: frame_def)
      qed
    qed
  qed
qed

lemma ready_pipe_ok:
  assumes "ready_pipe l = (r, l')"
  shows "frame l l' \<and> ca_sigchld l' = ca_sigchld l \<and>
    (case r of
       Inl _ \<Rightarrow> ca_fds l' = ca_fds l
     | Inr (reader, child_end) \<Rightarrow> reader \<noteq> child_end \<and> 3 \<le> child_end \<and> child_end < ca_max l \<and> reader < ca_max l
         \<and> ca_fds l reader = None \<and> ca_fds l child_end = None
         \<and> ca_fds l' = (ca_fds l)(reader := Some (pipe_end (ca_next l) O_RDONLY, True), child_end := Some (pipe_end (ca_next l) O_WRONLY, True)))"
proof -
  obtain a m where a: "std_pipe l = (a, m)" by fastforce
  note p = std_pipe_ok[OF a]
  show ?thesis
  proof (cases a)
    case (Inl e)
    then show ?thesis using assms a p by (auto simp: ready_pipe_def)
  next
    case (Inr x)
    obtain reader writer where x: "x = (reader, writer)" by fastforce
    obtain b n where b: "dup_fd 3 writer m = (b, n)" by fastforce
    note d = dup_fd_ok[OF b]
    show ?thesis
    proof (cases b)
      case (Inl e)
      then have "(r, l') = (Err e, close_fd reader (close_fd writer n))" using assms a b x \<open>a = Inr x\<close> by (simp add: ready_pipe_def)
      with p d x Inl \<open>a = Inr x\<close> show ?thesis by (auto simp: frame_def fun_eq_iff)
    next
      case (Inr raised)
      then have "(r, l') = (Ok (reader, raised), close_fd writer n)" using assms a b x \<open>a = Inr x\<close> by (simp add: ready_pipe_def)
      with p d x Inr \<open>a = Inr x\<close> show ?thesis by (auto simp: frame_def fun_eq_iff split: if_splits)
    qed
  qed
qed

definition child_streams :: "descriptors \<Rightarrow> command \<Rightarrow> descriptors" where
  "child_streams fds cmd = fds(0 := child_stream fds 0 (cmd_stdin cmd), 1 := child_stream fds 1 (cmd_stdout cmd), 2 := child_stream fds 2 (cmd_stderr cmd))"

definition started_as :: "command \<Rightarrow> caller \<Rightarrow> started \<Rightarrow> bool" where
  "started_as cmd l st \<longleftrightarrow> st_program st = cmd_program cmd \<and> st_args st = cmd_args cmd \<and> st_dir st = cmd_dir cmd
    \<and> st_env st = command_environment (ca_env l) cmd \<and> st_leader st = (cmd_hook cmd \<noteq> None) \<and> st_sigchld st = 0
    \<and> (\<exists>fds. (case cmd_hook cmd of None \<Rightarrow> Ok (child_streams (ca_fds l) cmd) | Some hook \<Rightarrow> prepare (ca_close_range l) hook (child_streams (ca_fds l) cmd)) = Inr fds
          \<and> st_fds st = exec_descriptors fds)"

lemma command_spawn_ok:
  assumes "command_spawn cmd l = (r, l')"
  shows "frame l l' \<and> ca_fds l' = ca_fds l \<and> ca_sigchld l' = ca_sigchld l \<and> ca_next l' = ca_next l"
    and "r = Inr st \<Longrightarrow> ca_sigchld l = 0 \<Longrightarrow> started_as cmd l st"
proof -
  obtain e m where m: "next_failure l = (e, m)" by fastforce
  note same = next_failure_frame[OF m]
  then show "frame l l' \<and> ca_fds l' = ca_fds l \<and> ca_sigchld l' = ca_sigchld l \<and> ca_next l' = ca_next l"
    using assms m by (auto simp: command_spawn_def Let_def split: option.splits sum.splits)
  assume "r = Inr st" "ca_sigchld l = 0"
  then show "started_as cmd l st"
    using assms m same unfolding command_spawn_def started_as_def child_streams_def frame_def Let_def
    by (auto split: option.splits sum.splits)
qed

lemma child_disposition_ok:
  assumes "child_disposition handler l = (r, l')"
  shows "frame l l' \<and> ca_fds l' = ca_fds l \<and> ca_next l' = ca_next l
    \<and> (case r of Inl _ \<Rightarrow> ca_sigchld l' = ca_sigchld l | Inr previous \<Rightarrow> previous = ca_sigchld l \<and> ca_sigchld l' = handler)"
proof -
  obtain e m where m: "next_failure l = (e, m)" by fastforce
  from next_failure_frame[OF m] assms m show ?thesis by (auto simp: child_disposition_def frame_def split: option.splits)
qed

lemma spawn_then_ok:
  assumes "spawn_then watch plan cmd (l, c) = Some (r, ch, l', c')"
  shows "frame l l' \<and> ca_fds l' = ca_fds l \<and> ca_next l' = ca_next l"
    and "r = Inr (h, st) \<Longrightarrow> ca_sigchld l' = ca_sigchld l \<and> started_as cmd l st"
proof -
  obtain a l1 where a: "child_disposition 0 l = (a, l1)" by fastforce
  note one = child_disposition_ok[OF a]
  have "frame l l' \<and> ca_fds l' = ca_fds l \<and> ca_next l' = ca_next l
    \<and> (\<forall>h st. r = Inr (h, st) \<longrightarrow> ca_sigchld l' = ca_sigchld l \<and> started_as cmd l st)"
  proof (cases a)
    case (Inl e)
    then show ?thesis using assms a one by (auto simp: spawn_then_def)
  next
    case (Inr previous)
    obtain b l2 where b: "command_spawn cmd l1 = (b, l2)" by fastforce
    note two = command_spawn_ok(1)[OF b]
    have st: "started_as cmd l st" if "b = Inr st" for st
      using command_spawn_ok(2)[OF b that] one Inr by (cases "cmd_hook cmd") (simp_all add: started_as_def frame_def)
    define mid where "mid = (case b of Inl e \<Rightarrow> Some (Err e, None, l2, c)
        | Inr st \<Rightarrow> map_option (\<lambda>(r, ch, c). (map_sum id (\<lambda>h. (h, st)) r, Some ch, l2, c)) (watched watch (plan, c)))"
    have run: "spawn_then watch plan cmd (l, c) = (case mid of None \<Rightarrow> None
         | Some (r, ch, l, c) \<Rightarrow>
             (case child_disposition previous l of
                (Inl e, l) \<Rightarrow> Some (Err e, ch, l, c)
              | (Inr _, l) \<Rightarrow>
                  Some (r, ch, if previous = 1 then l\<lparr>ca_waits := reap_exited_children (ca_waits l)\<rparr> else l, c)))"
      using a b Inr by (cases b) (simp_all add: spawn_then_def mid_def)
    obtain x y z where mid: "mid = Some (x, y, l2, z)"
      using assms unfolding run by (cases b) (auto simp: mid_def split: option.splits)
    have from_b: "b = Inr st" if "x = Inr (h, st)" for h st
    proof (cases b)
      case (Inr st')
      then obtain rr where "x = map_sum id (\<lambda>h. (h, st')) rr" using mid by (auto simp: mid_def)
      with that Inr show ?thesis by (cases rr) auto
    qed (use mid that in \<open>simp add: mid_def\<close>)
    obtain d l3 where d: "child_disposition previous l2 = (d, l3)" by fastforce
    note three = child_disposition_ok[OF d]
    show ?thesis using assms mid d one two three st from_b Inr unfolding run
      by (cases d) (auto simp: frame_def split: if_splits)
  qed
  then show "frame l l' \<and> ca_fds l' = ca_fds l \<and> ca_next l' = ca_next l"
    "r = Inr (h, st) \<Longrightarrow> ca_sigchld l' = ca_sigchld l \<and> started_as cmd l st" by auto
qed

end
