(* ===== verification/Launch.thy ===== *)
theory Launch
  imports Unix_Spawn
begin

text \<open>
  Starting a daemon from a client (\<^verbatim>\<open>src/src/launch.rs\<close>, with its Unix spawn): the builder, the spawn with its
  readiness channel, and the waits for a live peer.
\<close>

section \<open>The builder\<close>

datatype daemon_output = DaemonOutput_Null | DaemonOutput_File nat

datatype env_change = EnvChange_Set string string | EnvChange_Remove string

record daemon_command =
  dcmd_program :: path
  dcmd_args :: "string list"
  dcmd_env :: "env_change list"
  dcmd_dir :: "path option"
  dcmd_stdout :: daemon_output
  dcmd_stderr :: daemon_output
  dcmd_readiness :: bool

definition daemon_command_new :: "path \<Rightarrow> daemon_command" where
  "daemon_command_new program = \<lparr>dcmd_program = program, dcmd_args = [], dcmd_env = [], dcmd_dir = None,
     dcmd_stdout = DaemonOutput_Null, dcmd_stderr = DaemonOutput_Null, dcmd_readiness = False\<rparr>"

definition daemon_arg :: "string \<Rightarrow> daemon_command \<Rightarrow> daemon_command" where
  "daemon_arg arg dc = dc\<lparr>dcmd_args := dcmd_args dc @ [arg]\<rparr>"

definition daemon_args :: "string list \<Rightarrow> daemon_command \<Rightarrow> daemon_command" where
  "daemon_args args dc = dc\<lparr>dcmd_args := dcmd_args dc @ args\<rparr>"

definition daemon_env :: "string \<Rightarrow> string \<Rightarrow> daemon_command \<Rightarrow> daemon_command" where
  "daemon_env name val dc = dc\<lparr>dcmd_env := dcmd_env dc @ [EnvChange_Set name val]\<rparr>"

definition daemon_env_remove :: "string \<Rightarrow> daemon_command \<Rightarrow> daemon_command" where
  "daemon_env_remove name dc = dc\<lparr>dcmd_env := dcmd_env dc @ [EnvChange_Remove name]\<rparr>"

definition daemon_current_dir :: "path \<Rightarrow> daemon_command \<Rightarrow> daemon_command" where
  "daemon_current_dir dir dc = dc\<lparr>dcmd_dir := Some dir\<rparr>"

definition daemon_stdout :: "daemon_output \<Rightarrow> daemon_command \<Rightarrow> daemon_command" where
  "daemon_stdout target dc = dc\<lparr>dcmd_stdout := target\<rparr>"

definition daemon_stderr :: "daemon_output \<Rightarrow> daemon_command \<Rightarrow> daemon_command" where
  "daemon_stderr target dc = dc\<lparr>dcmd_stderr := target\<rparr>"

definition readiness_channel :: "daemon_command \<Rightarrow> daemon_command" where
  "readiness_channel dc = dc\<lparr>dcmd_readiness := True\<rparr>"

text \<open>\<^verbatim>\<open>DaemonCommand::from\<close>.\<close>

definition daemon_command_from :: "command \<Rightarrow> daemon_command" where
  "daemon_command_from cmd =
    (let dc = daemon_args (cmd_args cmd) (daemon_command_new (cmd_program cmd));
         dc = fold (\<lambda>(name, change) dc. case change of Some val \<Rightarrow> daemon_env name val dc | None \<Rightarrow> daemon_env_remove name dc) (cmd_env cmd) dc in
     case cmd_dir cmd of Some dir \<Rightarrow> daemon_current_dir dir dc | None \<Rightarrow> dc)"

section \<open>Spawning\<close>

definition unix_stdio :: "daemon_output \<Rightarrow> caller \<Rightarrow> (io_error + stdio) \<times> caller" where
  "unix_stdio target l = (case target of
     DaemonOutput_Null \<Rightarrow> (Ok Stdio_Null, l)
   | DaemonOutput_File fd \<Rightarrow> apfst (map_sum id Stdio_Fd) (dup_fd 3 fd l))"

text \<open>What a dropped \<^verbatim>\<open>Stdio\<close> closes.\<close>

definition stdio_drop :: "stdio \<Rightarrow> caller \<Rightarrow> caller" where
  "stdio_drop target l = (case target of Stdio_Fd fd \<Rightarrow> close_fd fd l | _ \<Rightarrow> l)"

definition env_change_apply :: "env_change \<Rightarrow> command \<Rightarrow> command" where
  "env_change_apply change cmd = (case change of
     EnvChange_Set name val \<Rightarrow> command_env name (Some val) cmd
   | EnvChange_Remove name \<Rightarrow> command_env name None cmd)"

text \<open>The channel, if asked for: the reader's number and the daemon's. \<^verbatim>\<open>Channel::start\<close> may fail.\<close>

definition daemon_channel :: "daemon_command \<Rightarrow> command \<Rightarrow> caller \<Rightarrow> (io_error + (nat \<times> nat) option \<times> command) \<times> caller" where
  "daemon_channel dc cmd l =
    (if dcmd_readiness dc then
       (case ready_pipe l of
          (Inl e, l) \<Rightarrow> (Err e, l)
        | (Inr (reader, child_end), l) \<Rightarrow> (case next_failure l of
            (Some e, l) \<Rightarrow> (Err e, close_fd reader (close_fd child_end l))
          | (None, l) \<Rightarrow> (Ok (Some (reader, child_end), command_env ENV (Some (decimal child_end)) cmd), l)))
     else (Ok (None, command_env ENV None cmd), l))"

text \<open>
  The daemon as it is handed out, with the process as \<^verbatim>\<open>exec\<close> left it and what is left of the child. Everything
  the function owns is dropped when it returns, and on an error the launcher's end of the channel too.
\<close>

definition daemon_spawn :: "child exit_os \<Rightarrow> child \<Rightarrow> daemon_command \<Rightarrow> caller \<times> clock
    \<Rightarrow> ((io_error + nat daemon_child \<times> started) \<times> child option \<times> caller \<times> clock) option" where
  "daemon_spawn os plan dc = (\<lambda>(l, c).
    let cmd = (command_new (dcmd_program dc))\<lparr>cmd_args := dcmd_args dc, cmd_stdin := Stdio_Null\<rparr>;
        cmd = fold env_change_apply (dcmd_env dc) cmd;
        cmd = cmd\<lparr>cmd_dir := dcmd_dir dc\<rparr> in
    case unix_stdio (dcmd_stdout dc) l of
      (Inl e, l) \<Rightarrow> Some (Err e, None, l, c)
    | (Inr out, l) \<Rightarrow> (case unix_stdio (dcmd_stderr dc) l of
        (Inl e, l) \<Rightarrow> Some (Err e, None, stdio_drop out l, c)
      | (Inr err, l) \<Rightarrow>
          let cmd = cmd\<lparr>cmd_stdout := out, cmd_stderr := err\<rparr> in
          (case daemon_channel dc cmd l of
             (Inl e, l) \<Rightarrow> Some (Err e, None, stdio_drop out (stdio_drop err l), c)
           | (Inr (channel, cmd), l) \<Rightarrow>
               map_option (\<lambda>(r, ch, l, c).
                 let l = stdio_drop out (stdio_drop err (case channel of None \<Rightarrow> l | Some (_, child_end) \<Rightarrow> close_fd child_end l)) in
                 case r of
                   Inl e \<Rightarrow> (Err e, ch, case channel of None \<Rightarrow> l | Some (reader, _) \<Rightarrow> close_fd reader l, c)
                 | Inr (exit, st) \<Rightarrow>
                     (Ok (\<lparr>dc_inner = (case ch of Some ch \<Rightarrow> ch | None \<Rightarrow> plan), dc_exit = exit, dc_readiness = map_option fst channel\<rparr>, st), ch, l, c))
               (spawn_in_new_session_watched os plan cmd (map_option snd channel) (l, c)))))"

section \<open>Starting from a shim\<close>

definition launch_spawn :: "child \<Rightarrow> command \<Rightarrow> caller \<times> clock \<Rightarrow> ((io_error + started) \<times> child option \<times> caller \<times> clock) option" where
  "launch_spawn = spawn_with_child_waiting"

definition spawn_detached :: "child \<Rightarrow> command \<Rightarrow> caller \<times> clock \<Rightarrow> ((io_error + started) \<times> child option \<times> caller \<times> clock) option" where
  "spawn_detached plan cmd = launch_spawn plan (cmd\<lparr>cmd_stdin := Stdio_Null, cmd_stdout := Stdio_Null, cmd_stderr := Stdio_Null\<rparr>)"

definition wait_until_live :: "'p live_probe \<Rightarrow> instant \<Rightarrow> 'p \<Rightarrow> clock \<Rightarrow> (bool \<times> 'p \<times> clock) option" where
  "wait_until_live is_live deadline p c = map_option (\<lambda>(r, s). ((case r of Inr (Some _) \<Rightarrow> True | _ \<Rightarrow> False), s))
    (wait_until (\<lambda>_ t p. case is_live t p of (live, took, p) \<Rightarrow> ((Ok (if live then Some () else None) :: unit + unit option), took, p)) deadline p c)"

record spawn_wait =
  sw_live :: bool
  sw_error :: "io_error option"

definition spawn_and_wait :: "child \<Rightarrow> command \<Rightarrow> duration \<Rightarrow> 'p live_probe \<Rightarrow> caller \<times> 'p \<times> clock
    \<Rightarrow> (spawn_wait ret \<times> caller \<times> 'p \<times> clock) option" where
  "spawn_and_wait plan cmd budget is_live = (\<lambda>(l, p, c).
    case spawn_detached plan cmd (l, c) of
      None \<Rightarrow> None
    | Some (r, _, l, c) \<Rightarrow>
        (case now_plus budget c of
           (None, c) \<Rightarrow> Some (Panicked, l, p, c)
         | (Some deadline, c) \<Rightarrow>
             map_option (\<lambda>(live, p, c). (Returned \<lparr>sw_live = live, sw_error = (case r of Inl e \<Rightarrow> Some e | Inr _ \<Rightarrow> None)\<rparr>, l, p, c))
               (wait_until_live is_live deadline p c)))"

section \<open>Daemons start clean\<close>

lemma unix_stdio_ok:
  assumes "unix_stdio target l = (r, l')"
  shows "frame l l' \<and> ca_sigchld l' = ca_sigchld l \<and> ca_next l' = ca_next l
    \<and> (case r of
         Inl _ \<Rightarrow> ca_fds l' = ca_fds l
       | Inr s \<Rightarrow> (case target of
           DaemonOutput_Null \<Rightarrow> s = Stdio_Null \<and> ca_fds l' = ca_fds l
         | DaemonOutput_File fd \<Rightarrow> (\<exists>k f b. s = Stdio_Fd k \<and> k < ca_max l \<and> ca_fds l k = None \<and> ca_fds l fd = Some (f, b)
             \<and> ca_fds l' = (ca_fds l)(k := Some (f, True)))))"
proof (cases target)
  case (DaemonOutput_File fd)
  obtain a m where a: "dup_fd 3 fd l = (a, m)" by fastforce
  from dup_fd_ok[OF a] assms DaemonOutput_File a show ?thesis by (cases a) (auto simp: unix_stdio_def)
qed (use assms in \<open>auto simp: unix_stdio_def\<close>)

lemma stdio_drop_simps [simp]:
  "frame l (stdio_drop t m) = frame l m" "ca_sigchld (stdio_drop t l) = ca_sigchld l" "ca_next (stdio_drop t l) = ca_next l"
  "ca_fds (stdio_drop t l) = (case t of Stdio_Fd k \<Rightarrow> (ca_fds l)(k := None) | _ \<Rightarrow> ca_fds l)"
  by (simp_all add: stdio_drop_def split: stdio.split)

lemma daemon_channel_ok:
  assumes "daemon_channel dc cmd l = (r, l')"
  shows "frame l l' \<and> ca_sigchld l' = ca_sigchld l
    \<and> (case r of
         Inl _ \<Rightarrow> ca_fds l' = ca_fds l
       | Inr (None, cmd') \<Rightarrow> \<not> dcmd_readiness dc \<and> ca_fds l' = ca_fds l \<and> cmd' = command_env ENV None cmd
       | Inr (Some (reader, child_end), cmd') \<Rightarrow> dcmd_readiness dc \<and> cmd' = command_env ENV (Some (decimal child_end)) cmd
           \<and> reader \<noteq> child_end \<and> 3 \<le> child_end \<and> child_end < ca_max l \<and> reader < ca_max l \<and> ca_fds l reader = None \<and> ca_fds l child_end = None
           \<and> ca_fds l' = (ca_fds l)(reader := Some (pipe_end (ca_next l) O_RDONLY, True), child_end := Some (pipe_end (ca_next l) O_WRONLY, True)))"
proof (cases "dcmd_readiness dc")
  case True
  obtain a m where a: "ready_pipe l = (a, m)" by fastforce
  note p = ready_pipe_ok[OF a]
  show ?thesis
  proof (cases a)
    case (Inl e)
    then show ?thesis using assms True a p by (auto simp: daemon_channel_def)
  next
    case (Inr x)
    obtain reader child_end where x: "x = (reader, child_end)" by fastforce
    obtain e n where e: "next_failure m = (e, n)" by fastforce
    note f = next_failure_frame[OF e]
    show ?thesis using assms True a p Inr x e f frame_trans[of l m n]
      by (cases e) (auto simp: daemon_channel_def fun_upd_idem fun_upd_twist)
  qed
qed (use assms in \<open>auto simp: daemon_channel_def\<close>)

text \<open>The environment the builder asks for.\<close>

fun env_after :: "env_change list \<Rightarrow> (string \<Rightarrow> string option) \<Rightarrow> string \<Rightarrow> string option" where
  "env_after [] env = env"
| "env_after (EnvChange_Set name val # changes) env = env_after changes (env(name := Some val))"
| "env_after (EnvChange_Remove name # changes) env = env_after changes (env(name := None))"

lemma command_environment_env: "command_environment inherited (command_env name change cmd) = (command_environment inherited cmd)(name := change)"
  by (rule ext) (simp add: command_environment_def command_env_def)

lemma command_environment_fold:
  "command_environment inherited (fold env_change_apply changes cmd) = env_after changes (command_environment inherited cmd)"
  by (induction changes arbitrary: cmd) (auto simp: env_change_apply_def command_environment_env split: env_change.split)

lemma fold_env_change_keeps:
  "cmd_program (fold env_change_apply changes cmd) = cmd_program cmd" "cmd_args (fold env_change_apply changes cmd) = cmd_args cmd"
  by (induction changes arbitrary: cmd) (auto simp: env_change_apply_def command_env_def split: env_change.split)

lemma swept:
  assumes "\<forall>k. fds k \<noteq> None \<longrightarrow> k < m" "sweeps \<or> m \<le> limit" "prepare sweeps (limit, keep) (child_streams fds cmd) = Inr g"
  shows "k \<le> 2 \<Longrightarrow> (case keep of None \<Rightarrow> True | Some n \<Rightarrow> 3 \<le> n) \<Longrightarrow> child_streams fds cmd k = Some (f, False) \<Longrightarrow> exec_descriptors g k = Some (f, False)"
    and "exec_descriptors g k \<noteq> None \<Longrightarrow> k \<le> 2 \<or> keep = Some k"
    and "keep = Some k \<Longrightarrow> 3 \<le> k \<Longrightarrow> fds k = Some (f, b) \<Longrightarrow> exec_descriptors g k = Some (f, False)"
proof -
  let ?s = "child_streams fds cmd" and ?m = "mark_inherited_descriptors_cloexec sweeps limit (child_streams fds cmd)"
  have same: "?s k = fds k" if "3 \<le> k" for k using that by (simp add: child_streams_def)
  have g: "g k = (if keep = Some k then map_option (\<lambda>(f, _). (f, False)) (?m k) else ?m k)" for k
    using assms(3) by (auto simp: prepare_def Let_def split: option.splits)
  show "exec_descriptors g k = Some (f, False)"
    if "k \<le> 2" "case keep of None \<Rightarrow> True | Some n \<Rightarrow> 3 \<le> n" "child_streams fds cmd k = Some (f, False)"
    using g[of k] that by (cases keep) (auto simp: exec_descriptors_def mark_inherited_descriptors_cloexec_def)
  show "k \<le> 2 \<or> keep = Some k" if kept: "exec_descriptors g k \<noteq> None"
  proof (rule ccontr)
    assume "\<not> (k \<le> 2 \<or> keep = Some k)"
    then have "3 \<le> k" "g k = ?m k" using g[of k] by auto
    moreover obtain f where "g k = Some (f, False)" using kept by (auto simp: exec_descriptors_def split: option.splits bool.splits)
    ultimately have "fds k \<noteq> None" "\<not> (sweeps \<or> k < limit)" using same[of k]
      by (cases "fds k"; auto simp: mark_inherited_descriptors_cloexec_def split: if_splits)+
    with assms(1)[rule_format, of k] assms(2) show False by auto
  qed
  show "exec_descriptors g k = Some (f, False)" if "keep = Some k" "3 \<le> k" "fds k = Some (f, b)"
    using g[of k] that same[of k] by (simp add: exec_descriptors_def mark_inherited_descriptors_cloexec_def)
qed

lemma parse_decimal_i32: "n < 2 ^ 31 \<Longrightarrow> parse_i32 (decimal n) = Some (int n)"
proof -
  assume n: "n < 2 ^ 31"
  obtain c rest where c: "decimal n = c # rest" by (cases "decimal n") auto
  then have "is_digit c" using decimal_digits[of n] by simp
  then have "c \<noteq> CHR ''-''" "c \<noteq> CHR ''+''" by (auto simp: is_digit_def)
  with c n decimal_digits[of n] decimal_value_decimal[of n] show ?thesis by (simp add: parse_i32_def)
qed

text \<open>
  The descriptors a launcher has are below a bound the sweep reaches (all of them with \<^verbatim>\<open>close_range\<close>, else the
  first \<^const>\<open>descriptor_limit\<close>), a descriptor is an \<^verbatim>\<open>i32\<close>, and the files given for the output are open.
\<close>

definition output_of :: "caller \<Rightarrow> daemon_output \<Rightarrow> (open_file \<times> bool) option" where
  "output_of l target = (case target of
     DaemonOutput_Null \<Rightarrow> Some (null_device, False)
   | DaemonOutput_File fd \<Rightarrow> map_option (\<lambda>(f, _). (f, False)) (ca_fds l fd))"

definition caller_ok :: "daemon_command \<Rightarrow> caller \<Rightarrow> bool" where
  "caller_ok dc l \<longleftrightarrow> (\<forall>k. ca_fds l k \<noteq> None \<longrightarrow> k < ca_max l) \<and> (ca_close_range l \<or> ca_max l \<le> descriptor_limit l) \<and> ca_max l \<le> 2 ^ 31
    \<and> output_of l (dcmd_stdout dc) \<noteq> None \<and> output_of l (dcmd_stderr dc) \<noteq> None"

definition clean_start :: "daemon_command \<Rightarrow> caller \<Rightarrow> nat daemon_child \<Rightarrow> started \<Rightarrow> caller \<Rightarrow> bool" where
  "clean_start dc l d st l' \<longleftrightarrow>
    st_program st = dcmd_program dc \<and> st_args st = dcmd_args dc \<and> st_dir st = dcmd_dir dc \<and> st_leader st \<and> st_sigchld st = 0
    \<and> ca_sigchld l' = ca_sigchld l
    \<and> st_fds st 0 = Some (null_device, False) \<and> st_fds st 1 = output_of l (dcmd_stdout dc) \<and> st_fds st 2 = output_of l (dcmd_stderr dc)
    \<and> (case dc_readiness d of
        None \<Rightarrow> \<not> dcmd_readiness dc \<and> (\<forall>k. st_fds st k \<noteq> None \<longrightarrow> k \<le> 2) \<and> ca_fds l' = ca_fds l
          \<and> st_env st = (env_after (dcmd_env dc) (ca_env l))(ENV := None)
      | Some reader \<Rightarrow> dcmd_readiness dc \<and> ca_fds l reader = None \<and> ca_fds l' = (ca_fds l)(reader := Some (pipe_end (ca_next l) O_RDONLY, True))
          \<and> (\<exists>fd. 2 < fd \<and> (\<forall>k. st_fds st k \<noteq> None \<longrightarrow> k \<le> 2 \<or> k = fd)
            \<and> st_env st = (env_after (dcmd_env dc) (ca_env l))(ENV := Some (decimal fd))
            \<and> notifier_from_env st = (Ok (Some fd), st\<lparr>st_env := (st_env st)(ENV := None),
                 st_fds := (st_fds st)(fd := Some (pipe_end (ca_next l) O_WRONLY, True))\<rparr>)))"

lemma output_held:
  assumes "unix_stdio target l = (Inr s, l')" "\<And>k. ca_fds l' k \<noteq> None \<Longrightarrow> fds k = ca_fds l' k"
  shows "child_stream fds n s = output_of l target"
proof (cases target)
  case (DaemonOutput_File fd)
  with unix_stdio_ok[OF assms(1)] obtain k f b where "s = Stdio_Fd k" "ca_fds l fd = Some (f, b)" "ca_fds l' = (ca_fds l)(k := Some (f, True))"
    by auto
  with DaemonOutput_File assms(2)[of k] show ?thesis by (simp add: child_stream_def output_of_def)
qed (use unix_stdio_ok[OF assms(1)] in \<open>simp add: child_stream_def output_of_def\<close>)

lemma output_grows:
  assumes "unix_stdio target l = (r, l')"
  shows "ca_fds l k \<noteq> None \<Longrightarrow> ca_fds l' k = ca_fds l k" and "ca_fds l' k \<noteq> None \<Longrightarrow> k < ca_max l \<or> ca_fds l k \<noteq> None"
  using unix_stdio_ok[OF assms(1)] by (cases r; auto split: daemon_output.splits if_splits)+

lemma output_dropped:
  assumes "unix_stdio target l = (Inr s, l')"
  shows "(case s of Stdio_Fd k \<Rightarrow> fds(k := None) | _ \<Rightarrow> fds) = (\<lambda>k. if ca_fds l' k = ca_fds l k then fds k else None)"
  using unix_stdio_ok[OF assms(1)] by (auto split: daemon_output.splits simp: fun_eq_iff)

lemma output_kept: "ca_fds l' = ca_fds l \<or> (\<forall>k. ca_fds l k \<noteq> None \<longrightarrow> ca_fds l' k = ca_fds l k) \<Longrightarrow> output_of l target \<noteq> None \<Longrightarrow> output_of l' target = output_of l target"
  by (auto simp: output_of_def split: daemon_output.splits)

text \<open>Both outputs together.\<close>

lemma outputs_held:
  assumes a: "unix_stdio t1 l = (Inr out, l1)" and b: "unix_stdio t2 l1 = (Inr err, l2)" and ok: "output_of l t2 \<noteq> None"
  shows "(\<And>k. ca_fds l2 k \<noteq> None \<Longrightarrow> fds k = ca_fds l2 k) \<Longrightarrow> child_stream fds n out = output_of l t1"
    and "(\<And>k. ca_fds l2 k \<noteq> None \<Longrightarrow> fds k = ca_fds l2 k) \<Longrightarrow> child_stream fds n err = output_of l t2"
proof -
  assume fds: "\<And>k. ca_fds l2 k \<noteq> None \<Longrightarrow> fds k = ca_fds l2 k"
  show "child_stream fds n out = output_of l t1"
    by (rule output_held[OF a]) (use fds output_grows(1)[OF b] in metis)
  show "child_stream fds n err = output_of l t2"
    using output_held[OF b fds] output_kept[OF _ ok, of l1] output_grows(1)[OF a] by auto
qed

lemma outputs_dropped:
  assumes a: "unix_stdio t1 l = (Inr out, l1)" and b: "unix_stdio t2 l1 = (r, l2)" and F: "\<forall>k. ca_fds l2 k \<noteq> None \<longrightarrow> F k = ca_fds l2 k"
  shows "r = Inr err \<Longrightarrow> ca_fds m = F \<Longrightarrow> ca_fds (stdio_drop out (stdio_drop err m)) = (\<lambda>k. if ca_fds l2 k = None then F k else ca_fds l k)"
    and "r = Inl e \<Longrightarrow> ca_fds (stdio_drop out l2) = ca_fds l"
proof -
  show "ca_fds (stdio_drop out (stdio_drop err m)) = (\<lambda>k. if ca_fds l2 k = None then F k else ca_fds l k)" if "r = Inr err" "ca_fds m = F"
    unfolding stdio_drop_simps output_dropped[OF a] output_dropped[OF b[unfolded that(1)]] that(2)
  proof (rule ext)
    fix k
    show "(if ca_fds l1 k = ca_fds l k then if ca_fds l2 k = ca_fds l1 k then F k else None else None) = (if ca_fds l2 k = None then F k else ca_fds l k)"
      using output_grows(1)[OF a, of k] output_grows(1)[OF b, of k] F[rule_format, of k]
      by (cases "ca_fds l k"; cases "ca_fds l1 k"; cases "ca_fds l2 k") auto
  qed
  show "ca_fds (stdio_drop out l2) = ca_fds l" if "r = Inl e"
    unfolding stdio_drop_simps output_dropped[OF a]
  proof (rule ext)
    fix k
    show "(if ca_fds l1 k = ca_fds l k then ca_fds l2 k else None) = ca_fds l k"
      using unix_stdio_ok[OF b] that output_grows(1)[OF a, of k] by (cases "ca_fds l k"; cases "ca_fds l1 k") auto
  qed
qed

lemma outputs_free:
  assumes a: "unix_stdio t1 l = (r1, l1)" and b: "unix_stdio t2 l1 = (r2, l2)" and free: "ca_fds l2 k = None"
  shows "ca_fds l k = None"
proof (rule ccontr)
  assume open_l: "ca_fds l k \<noteq> None"
  with output_grows(1)[OF a this] have "ca_fds l1 k \<noteq> None" by simp
  with output_grows(1)[OF b this] free show False by simp
qed

lemma outputs_restored:
  assumes a: "unix_stdio t1 l = (Inr out, l1)" and b: "unix_stdio t2 l1 = (Inr err, l2)"
  shows "ca_fds m = (ca_fds l2)(k := x) \<Longrightarrow> ca_fds l2 k = None \<Longrightarrow> ca_fds (stdio_drop out (stdio_drop err m)) = (ca_fds l)(k := x)"
    and "ca_fds m = ca_fds l2 \<Longrightarrow> ca_fds (stdio_drop out (stdio_drop err m)) = ca_fds l"
proof -
  show "ca_fds (stdio_drop out (stdio_drop err m)) = (ca_fds l)(k := x)" if m: "ca_fds m = (ca_fds l2)(k := x)" "ca_fds l2 k = None"
  proof -
    have keep: "\<forall>j. ca_fds l2 j \<noteq> None \<longrightarrow> ((ca_fds l2)(k := x)) j = ca_fds l2 j" using m(2) by auto
    show ?thesis unfolding outputs_dropped(1)[OF a b keep refl m(1)]
      by (rule ext) (use m(2) outputs_free[OF a b] in auto)
  qed
  show "ca_fds (stdio_drop out (stdio_drop err m)) = ca_fds l" if m: "ca_fds m = ca_fds l2"
    unfolding outputs_dropped(1)[OF a b allI[OF impI[OF refl]] refl m] by (rule ext) (use outputs_free[OF a b] in auto)
qed

text \<open>The daemon takes over the channel it was given.\<close>

lemma channel_taken:
  assumes "st_env st ENV = Some (decimal fd)" "3 \<le> fd" "fd < 2 ^ 31" "st_fds st fd = Some (pipe_end n O_WRONLY, b)"
  shows "notifier_from_env st = (Ok (Some fd), st\<lparr>st_env := (st_env st)(ENV := None), st_fds := (st_fds st)(fd := Some (pipe_end n O_WRONLY, True))\<rparr>)"
  using assms by (simp add: notifier_from_env_def take_ready_descriptor_def parse_decimal_i32 Let_def pipe_end_def)

definition daemon_base :: "daemon_command \<Rightarrow> stdio \<Rightarrow> stdio \<Rightarrow> command" where
  "daemon_base dc out err = (fold env_change_apply (dcmd_env dc) ((command_new (dcmd_program dc))\<lparr>cmd_args := dcmd_args dc, cmd_stdin := Stdio_Null\<rparr>))
     \<lparr>cmd_dir := dcmd_dir dc, cmd_stdout := out, cmd_stderr := err\<rparr>"

lemma fold_env_change_stdin: "cmd_stdin (fold env_change_apply changes cmd) = cmd_stdin cmd"
  by (induction changes arbitrary: cmd) (auto simp: env_change_apply_def command_env_def split: env_change.split)

lemma daemon_base_simps [simp]:
  "cmd_program (daemon_base dc out err) = dcmd_program dc" "cmd_args (daemon_base dc out err) = dcmd_args dc" "cmd_dir (daemon_base dc out err) = dcmd_dir dc"
  "cmd_stdin (daemon_base dc out err) = Stdio_Null" "cmd_stdout (daemon_base dc out err) = out" "cmd_stderr (daemon_base dc out err) = err"
  "command_environment inherited (daemon_base dc out err) = env_after (dcmd_env dc) inherited"
proof -
  have "command_environment inherited (daemon_base dc out err) = command_environment inherited
      (fold env_change_apply (dcmd_env dc) ((command_new (dcmd_program dc))\<lparr>cmd_args := dcmd_args dc, cmd_stdin := Stdio_Null\<rparr>))"
    by (rule ext) (simp add: daemon_base_def command_environment_def)
  also have "\<dots> = env_after (dcmd_env dc) inherited"
    unfolding command_environment_fold by (rule arg_cong[where f = "env_after (dcmd_env dc)"]) (rule ext, simp add: command_environment_def command_new_def)
  finally show "command_environment inherited (daemon_base dc out err) = env_after (dcmd_env dc) inherited" .
qed (simp_all add: daemon_base_def fold_env_change_keeps fold_env_change_stdin command_new_def)

lemma command_env_simps [simp]:
  "cmd_program (command_env n v cmd) = cmd_program cmd" "cmd_args (command_env n v cmd) = cmd_args cmd" "cmd_dir (command_env n v cmd) = cmd_dir cmd"
  "cmd_stdin (command_env n v cmd) = cmd_stdin cmd" "cmd_stdout (command_env n v cmd) = cmd_stdout cmd" "cmd_stderr (command_env n v cmd) = cmd_stderr cmd"
  by (simp_all add: command_env_def)

lemma session_started:
  assumes st: "started_as (in_new_session keep m (command_env ENV v (daemon_base dc out err))) m st" and ok: "caller_ok dc l" and frame: "frame l m"
    and bound: "\<And>k. ca_fds m k \<noteq> None \<Longrightarrow> k < ca_max l" and keep: "case keep of None \<Rightarrow> True | Some n \<Rightarrow> 3 \<le> n"
    and out: "child_stream (ca_fds m) 1 out = output_of l (dcmd_stdout dc)" and err: "child_stream (ca_fds m) 2 err = output_of l (dcmd_stderr dc)"
  shows "st_program st = dcmd_program dc \<and> st_args st = dcmd_args dc \<and> st_dir st = dcmd_dir dc \<and> st_leader st \<and> st_sigchld st = 0
      \<and> st_fds st 0 = Some (null_device, False) \<and> st_fds st 1 = output_of l (dcmd_stdout dc) \<and> st_fds st 2 = output_of l (dcmd_stderr dc)
      \<and> st_env st = (env_after (dcmd_env dc) (ca_env l))(ENV := v)"
    and "st_fds st k \<noteq> None \<Longrightarrow> k \<le> 2 \<or> keep = Some k"
    and "keep = Some k \<Longrightarrow> 3 \<le> k \<Longrightarrow> ca_fds m k = Some (f, b) \<Longrightarrow> st_fds st k = Some (f, False)"
proof -
  let ?cmd = "in_new_session keep m (command_env ENV v (daemon_base dc out err))"
  from st obtain g where g: "prepare (ca_close_range m) (descriptor_limit m, keep) (child_streams (ca_fds m) ?cmd) = Inr g" and fds: "st_fds st = exec_descriptors g"
    by (auto simp: started_as_def in_new_session_def)
  have reach: "ca_close_range m \<or> ca_max l \<le> descriptor_limit m" using ok frame by (auto simp: caller_ok_def frame_def descriptor_limit_def)
  have below: "\<forall>k. ca_fds m k \<noteq> None \<longrightarrow> k < ca_max l" using bound by blast
  note swept = swept[OF below reach g]
  have "\<exists>f. output_of l t = Some (f, False)" if "output_of l t \<noteq> None" for t
    using that by (auto simp: output_of_def split: daemon_output.splits)
  then obtain f1 f2 where f: "output_of l (dcmd_stdout dc) = Some (f1, False)" "output_of l (dcmd_stderr dc) = Some (f2, False)"
    using ok unfolding caller_ok_def by blast
  have s: "child_streams (ca_fds m) ?cmd 0 = Some (null_device, False)" "child_streams (ca_fds m) ?cmd 1 = Some (f1, False)"
    "child_streams (ca_fds m) ?cmd 2 = Some (f2, False)"
    using out err f by (simp_all add: child_streams_def in_new_session_def child_stream_def[of _ 0])
  have "st_env st = command_environment (ca_env m) (command_env ENV v (daemon_base dc out err))"
    using st by (auto simp: started_as_def in_new_session_def command_environment_def)
  also have "\<dots> = (env_after (dcmd_env dc) (ca_env l))(ENV := v)"
    using frame by (simp add: command_environment_env frame_def)
  finally show "st_program st = dcmd_program dc \<and> st_args st = dcmd_args dc \<and> st_dir st = dcmd_dir dc \<and> st_leader st \<and> st_sigchld st = 0
      \<and> st_fds st 0 = Some (null_device, False) \<and> st_fds st 1 = output_of l (dcmd_stdout dc) \<and> st_fds st 2 = output_of l (dcmd_stderr dc)
      \<and> st_env st = (env_after (dcmd_env dc) (ca_env l))(ENV := v)"
    using st swept(1)[OF _ keep s(1)] swept(1)[OF _ keep s(2)] swept(1)[OF _ keep s(3)] f unfolding fds
    by (simp add: started_as_def in_new_session_def)
  show "st_fds st k \<noteq> None \<Longrightarrow> k \<le> 2 \<or> keep = Some k" unfolding fds by (rule swept(2))
  show "keep = Some k \<Longrightarrow> 3 \<le> k \<Longrightarrow> ca_fds m k = Some (f, b) \<Longrightarrow> st_fds st k = Some (f, False)" unfolding fds by (rule swept(3))
qed

text \<open>The run of a spawn whose outputs and channel are set up.\<close>

lemma daemon_spawn_run:
  assumes "unix_stdio (dcmd_stdout dc) l = (Inr out, l1)" "unix_stdio (dcmd_stderr dc) l1 = (Inr err, l2)"
    and "daemon_channel dc (daemon_base dc out err) l2 = (Inr (channel, cmd), l3)"
    and "daemon_spawn os plan dc (l, c) = Some (r, ch, l', c')"
  obtains r' l4 where "spawn_then (\<lambda>ch. handle_open os (child_pid ch) ch) plan (in_new_session (map_option snd channel) l3 cmd) (l3, c) = Some (r', ch, l4, c')"
    and "case r' of
       Inl e \<Rightarrow> r = Inl e \<and> l' = (case channel of None \<Rightarrow> stdio_drop out (stdio_drop err l4)
           | Some (reader, child_end) \<Rightarrow> close_fd reader (stdio_drop out (stdio_drop err (close_fd child_end l4))))
     | Inr (h, st) \<Rightarrow> \<exists>d. r = Inr (d, st) \<and> dc_readiness d = map_option fst channel
         \<and> l' = stdio_drop out (stdio_drop err (case channel of None \<Rightarrow> l4 | Some (_, child_end) \<Rightarrow> close_fd child_end l4))"
proof -
  have base: "(fold env_change_apply (dcmd_env dc) ((command_new (dcmd_program dc))\<lparr>cmd_args := dcmd_args dc, cmd_stdin := Stdio_Null\<rparr>))
     \<lparr>cmd_dir := dcmd_dir dc, cmd_stdout := out, cmd_stderr := err\<rparr> = daemon_base dc out err" by (simp add: daemon_base_def)
  define spawned where "spawned = spawn_then (\<lambda>ch. handle_open os (child_pid ch) ch) plan (in_new_session (map_option snd channel) l3 cmd) (l3, c)"
  from assms(4) have run: "map_option (\<lambda>(r, ch, l, c).
       let l = stdio_drop out (stdio_drop err (case channel of None \<Rightarrow> l | Some (_, child_end) \<Rightarrow> close_fd child_end l)) in
       case r of
         Inl e \<Rightarrow> (Err e, ch, case channel of None \<Rightarrow> l | Some (reader, _) \<Rightarrow> close_fd reader l, c)
       | Inr (exit, st) \<Rightarrow>
           (Ok (\<lparr>dc_inner = (case ch of Some ch \<Rightarrow> ch | None \<Rightarrow> plan), dc_exit = exit, dc_readiness = map_option fst channel\<rparr>, st), ch, l, c))
     spawned = Some (r, ch, l', c')"
    unfolding daemon_spawn_def Let_def prod.case assms(1) sum.case assms(2) base assms(3) spawn_in_new_session_watched_def fst_conv spawned_def .
  then obtain r' ch' l4 c4 where sp: "spawned = Some (r', ch', l4, c4)" by auto
  show thesis
  proof (rule that[of r' l4])
    show "spawn_then (\<lambda>ch. handle_open os (child_pid ch) ch) plan (in_new_session (map_option snd channel) l3 cmd) (l3, c) = Some (r', ch, l4, c')"
      using run sp unfolding spawned_def[symmetric] by (cases r') (auto simp: Let_def)
  qed (use run sp in \<open>cases r'; auto simp: Let_def split: option.splits\<close>)
qed

lemma channel_clean:
  assumes ok: "caller_ok dc l" and a: "unix_stdio (dcmd_stdout dc) l = (Inr out, l1)" and b: "unix_stdio (dcmd_stderr dc) l1 = (Inr err, l2)"
    and ready: "dcmd_readiness dc" and cmd: "cmd = command_env ENV (Some (decimal fd)) (daemon_base dc out err)"
    and ends: "reader \<noteq> fd" "3 \<le> fd" "fd < ca_max l" "reader < ca_max l" "ca_fds l2 reader = None" "ca_fds l2 fd = None"
    and fds: "ca_fds l3 = (ca_fds l2)(reader := Some (pipe_end (ca_next l) O_RDONLY, True), fd := Some (pipe_end (ca_next l) O_WRONLY, True))"
    and f3: "frame l l3" "ca_sigchld l3 = ca_sigchld l" and bound: "\<And>k. ca_fds l2 k \<noteq> None \<Longrightarrow> k < ca_max l"
    and streams: "\<And>n. child_stream (ca_fds l3) n out = output_of l (dcmd_stdout dc)" "\<And>n. child_stream (ca_fds l3) n err = output_of l (dcmd_stderr dc)"
    and sp: "spawn_then watch plan (in_new_session (Some fd) l3 cmd) (l3, c) = Some (r', ch, l4, c')"
    and left: "case r' of
       Inl e \<Rightarrow> r = Inl e \<and> l' = close_fd reader (stdio_drop out (stdio_drop err (close_fd fd l4)))
     | Inr (h, st) \<Rightarrow> \<exists>d. r = Inr (d, st) \<and> dc_readiness d = Some reader \<and> l' = stdio_drop out (stdio_drop err (close_fd fd l4))"
  shows "case r of Inl _ \<Rightarrow> ca_fds l' = ca_fds l | Inr (d, st) \<Rightarrow> clean_start dc l d st l'"
proof -
  have same: "ca_fds l4 = ca_fds l3" using spawn_then_ok(1)[OF sp] by simp
  have closed: "ca_fds (close_fd fd l4) = (ca_fds l2)(reader := Some (pipe_end (ca_next l) O_RDONLY, True))"
    using fds same ends(1, 6) by (auto simp: fun_eq_iff)
  note kept = outputs_restored(1)[OF a b closed ends(5)]
  have free: "ca_fds l reader = None" by (rule outputs_free[OF a b ends(5)])
  show ?thesis
  proof (cases r')
    case (Inl e)
    then show ?thesis using left kept free by (simp add: fun_upd_idem)
  next
    case (Inr w)
    obtain h st where w: "w = (h, st)" by fastforce
    with left Inr obtain d where d: "r = Inr (d, st)" "dc_readiness d = Some reader" "l' = stdio_drop out (stdio_drop err (close_fd fd l4))" by auto
    have s: "ca_sigchld l4 = ca_sigchld l3" "started_as (in_new_session (Some fd) l3 cmd) l3 st"
      using spawn_then_ok(2)[OF sp, of h st] Inr w by simp_all
    have below: "\<And>k. ca_fds l3 k \<noteq> None \<Longrightarrow> k < ca_max l" "fd < 2 ^ 31"
      using bound fds ends(3, 4) ok by (auto simp: caller_ok_def split: if_splits)
    note st = session_started[OF s(2)[unfolded cmd] ok f3(1) below(1) _ streams]
    have "notifier_from_env st = (Ok (Some fd), st\<lparr>st_env := (st_env st)(ENV := None), st_fds := (st_fds st)(fd := Some (pipe_end (ca_next l) O_WRONLY, True))\<rparr>)"
      by (rule channel_taken[OF _ ends(2) below(2)]) (use st(1, 3) ends(2) fds in auto)
    then show ?thesis using d s(1) f3(2) kept free ready st(1, 2) ends(2) by (auto simp: clean_start_def intro!: exI[of _ fd])
  qed
qed

lemma spawned_clean:
  assumes ok: "caller_ok dc l" and a: "unix_stdio (dcmd_stdout dc) l = (Inr out, l1)" and b: "unix_stdio (dcmd_stderr dc) l1 = (Inr err, l2)"
    and x: "daemon_channel dc (daemon_base dc out err) l2 = (Inr (channel, cmd), l3)"
    and frame: "frame l l2" "ca_sigchld l2 = ca_sigchld l" "ca_next l2 = ca_next l" and bound: "\<And>k. ca_fds l2 k \<noteq> None \<Longrightarrow> k < ca_max l"
    and run: "daemon_spawn os plan dc (l, c) = Some (r, ch, l', c')"
  shows "case r of Inl _ \<Rightarrow> ca_fds l' = ca_fds l | Inr (d, st) \<Rightarrow> clean_start dc l d st l'"
proof -
  note three = daemon_channel_ok[OF x]
  obtain r' l4 where sp: "spawn_then (\<lambda>ch. handle_open os (child_pid ch) ch) plan (in_new_session (map_option snd channel) l3 cmd) (l3, c) = Some (r', ch, l4, c')"
    and left: "case r' of
       Inl e \<Rightarrow> r = Inl e \<and> l' = (case channel of None \<Rightarrow> stdio_drop out (stdio_drop err l4)
           | Some (reader, child_end) \<Rightarrow> close_fd reader (stdio_drop out (stdio_drop err (close_fd child_end l4))))
     | Inr (h, st) \<Rightarrow> \<exists>d. r = Inr (d, st) \<and> dc_readiness d = map_option fst channel
         \<and> l' = stdio_drop out (stdio_drop err (case channel of None \<Rightarrow> l4 | Some (_, child_end) \<Rightarrow> close_fd child_end l4))"
    by (rule daemon_spawn_run[OF a b x run])
  have same: "ca_fds l4 = ca_fds l3" using spawn_then_ok(1)[OF sp] by simp
  have f3: "frame l l3" "ca_sigchld l3 = ca_sigchld l" using three frame frame_trans[of l l2 l3] by auto
  have streams: "child_stream (ca_fds l3) n out = output_of l (dcmd_stdout dc)" "child_stream (ca_fds l3) n err = output_of l (dcmd_stderr dc)" for n
  proof -
    have "ca_fds l3 k = ca_fds l2 k" if "ca_fds l2 k \<noteq> None" for k
      using three that by (cases channel) (auto split: prod.splits)
    then show "child_stream (ca_fds l3) n out = output_of l (dcmd_stdout dc)" "child_stream (ca_fds l3) n err = output_of l (dcmd_stderr dc)"
      using outputs_held[OF a b, of "ca_fds l3" n] ok by (auto simp: caller_ok_def)
  qed
  show ?thesis
  proof (cases channel)
    case None
    with three have "\<not> dcmd_readiness dc" "ca_fds l3 = ca_fds l2" and cmd: "cmd = command_env ENV None (daemon_base dc out err)" by auto
    note cmd' = this
    show ?thesis
    proof (cases r')
      case (Inl e)
      then show ?thesis using left None outputs_restored(2)[OF a b, of l4] same cmd' by simp
    next
      case (Inr w)
      obtain h st where w: "w = (h, st)" by fastforce
      with left None Inr obtain d where d: "r = Inr (d, st)" "dc_readiness d = None" "l' = stdio_drop out (stdio_drop err l4)" by auto
      have s: "ca_sigchld l4 = ca_sigchld l3" "started_as (in_new_session None l3 cmd) l3 st"
        using spawn_then_ok(2)[OF sp, of h st] Inr w None by simp_all
      note st = session_started[OF s(2)[unfolded cmd] ok f3(1) _ _ streams]
      show ?thesis using d None s(1) f3(2) outputs_restored(2)[OF a b, of l4] same cmd' st bound by (simp add: clean_start_def)
    qed
  next
    case (Some z)
    obtain reader fd where z: "z = (reader, fd)" by fastforce
    from three Some z have ready: "dcmd_readiness dc" and cmd: "cmd = command_env ENV (Some (decimal fd)) (daemon_base dc out err)"
      and ends: "reader \<noteq> fd" "3 \<le> fd" "fd < ca_max l" "reader < ca_max l" "ca_fds l2 reader = None" "ca_fds l2 fd = None"
      and fds: "ca_fds l3 = (ca_fds l2)(reader := Some (pipe_end (ca_next l) O_RDONLY, True), fd := Some (pipe_end (ca_next l) O_WRONLY, True))"
      using frame by (auto simp: frame_def)
    show ?thesis by (rule channel_clean[OF ok a b ready cmd ends fds f3 bound streams sp[unfolded Some z option.map snd_conv] left[unfolded Some z option.case prod.case option.map fst_conv]])
  qed
qed


definition example_caller :: caller where
  "example_caller = \<lparr>ca_fds = (\<lambda>_. None)(0 := Some (null_device, False), 1 := Some (null_device, False), 2 := Some (null_device, False),
     4 := Some (\<lparr>of_id = 4, of_fifo = False, of_access = O_WRONLY\<rparr>, True), 5 := Some (\<lparr>of_id = 5, of_fifo = False, of_access = O_RDWR\<rparr>, False)),
     ca_max = 20, ca_rlimit = Some 20, ca_close_range = False, ca_sigchld = 1, ca_env = (\<lambda>_. None)(''HOME'' := Some ''/root''), ca_next = 9,
     ca_errors = [], ca_waits = []\<rparr>"

definition example_daemon_command :: daemon_command where
  "example_daemon_command = readiness_channel (daemon_stdout (DaemonOutput_File 4) (daemon_env ''LOG'' ''debug'' (daemon_arg ''serve'' (daemon_command_new ''/bin/d''))))"

lemma example_caller_ok: "caller_ok example_daemon_command example_caller"
  by (auto simp: caller_ok_def example_caller_def example_daemon_command_def readiness_channel_def daemon_stdout_def daemon_env_def daemon_arg_def
      daemon_command_new_def output_of_def descriptor_limit_def split: if_splits)

lemma example_spawn:
  "case daemon_spawn example_child_os example_child example_daemon_command (example_caller, \<lparr>time = 0, delays = []\<rparr>) of
     Some (Inr (d, st), ch, l', c') \<Rightarrow> dc_readiness d = Some 6 \<and> st_env st ENV = Some ''8'' | _ \<Rightarrow> False"
  by code_simp


end
