(* ===== verification/Warmup.thy ===== *)
theory Warmup
  imports Daemon_Child Text
begin

text \<open>
  Warming an executable (\<^verbatim>\<open>src/src/warmup.rs\<close>): reading it into the file cache, and running it once on a thread
  that always reaps it. The calls on files and the spawn are parameters; the thread has a clock of its own, and its
  report reaches the caller when the thread ends.
\<close>

section \<open>Reading the file\<close>

definition WINDOW :: u64 where "WINDOW = 65536"

type_synonym 'f read_call = "nat \<Rightarrow> 'f \<Rightarrow> (io_error + nat) \<times> 'f"

definition warm_round :: "'f read_call \<Rightarrow> u64 \<times> 'f \<Rightarrow> ((io_error + unit) \<times> 'f, u64 \<times> 'f) control" where
  "warm_round read = (\<lambda>(remaining, f).
    if 0 < remaining then
      (let want = min WINDOW remaining in
       case read (unat want) f of
         (Inl e, f) \<Rightarrow> Break (Err e, f)
       | (Inr got, f) \<Rightarrow> if got = 0 then Break (Ok (), f) else Continue (remaining - of_nat got, f))
    else Break (Ok (), f))"

definition warm_executable :: "(path \<Rightarrow> 'w \<Rightarrow> (io_error + 'f) \<times> 'w) \<Rightarrow> ('f \<Rightarrow> io_error + bool \<times> u64) \<Rightarrow> 'f read_call
    \<Rightarrow> path \<Rightarrow> 'w \<Rightarrow> ((io_error + unit) \<times> 'f option \<times> 'w) option" where
  "warm_executable open_path metadata read path w = (case open_path path w of
     (Inl e, w) \<Rightarrow> Some (Err e, None, w)
   | (Inr f, w) \<Rightarrow> (case metadata f of
       Inl e \<Rightarrow> Some (Err e, Some f, w)
     | Inr (is_dir, len) \<Rightarrow>
         if is_dir then Some (Err (io_error_new ErrorKind_IsADirectory ''warmup path is a directory''), Some f, w)
         else map_option (\<lambda>(r, f). (r, Some f, w)) (iterate (warm_round read) (len, f))))"

fun prefault_all :: "(path \<Rightarrow> 'w \<Rightarrow> (io_error + 'f) \<times> 'w) \<Rightarrow> ('f \<Rightarrow> io_error + bool \<times> u64) \<Rightarrow> 'f read_call \<Rightarrow> path list \<Rightarrow> 'w \<Rightarrow> 'w option" where
  "prefault_all open_path metadata read [] w = Some w"
| "prefault_all open_path metadata read (path # paths) w = (case warm_executable open_path metadata read path w of
     None \<Rightarrow> None
   | Some (_, _, w) \<Rightarrow> prefault_all open_path metadata read paths w)"

section \<open>Running it once\<close>

definition SPAWN_BUDGET :: duration where "SPAWN_BUDGET = 2 * nanos_per_sec"
definition RUNAWAY_LIMIT :: duration where "RUNAWAY_LIMIT = 60 * nanos_per_sec"

text \<open>\<^verbatim>\<open>Command::spawn\<close> at an instant, with the time it takes.\<close>

type_synonym 'w spawn_call = "instant \<Rightarrow> 'w \<Rightarrow> (io_error + child) \<times> duration \<times> 'w"

definition free_round :: "'w spawn_call \<Rightarrow> instant \<Rightarrow> duration \<times> 'w \<times> clock
    \<Rightarrow> ((io_error + child) \<times> 'w \<times> clock, duration \<times> 'w \<times> clock) control" where
  "free_round spawn until = (\<lambda>(pause, w, c).
    let (spawned, took, w) = spawn (time c) w; c = elapse took c in
    case spawned of
      Inr ch \<Rightarrow> Break (Ok ch, w, c)
    | Inl e \<Rightarrow>
        if io_kind e = ErrorKind_ExecutableFileBusy then
          (let (now, c) = instant_now c in
           if now < until then
             (let (left, c) = remaining until c in
              Continue (min (pause * 2) (from_millis 50), w, sleep (min pause left) c))
           else Break (Err e, w, c))
        else Break (Err e, w, c))"

definition spawn_when_free :: "'w spawn_call \<Rightarrow> instant \<Rightarrow> 'w \<times> clock \<Rightarrow> ((io_error + child) \<times> 'w \<times> clock) option" where
  "spawn_when_free spawn until = (\<lambda>(w, c). iterate (free_round spawn until) (from_millis 1, w, c))"

definition warm_exits_by :: "child exit_os \<Rightarrow> instant \<Rightarrow> child \<times> clock \<Rightarrow> ((io_error + bool) \<times> child \<times> clock) option" where
  "warm_exits_by os limit = (\<lambda>(ch, c). case handle_open os (child_pid ch) ch of
     (opened, ch) \<Rightarrow> map_option (\<lambda>(r, _, ch, c). (r, ch, c))
       (wait_child os child_try_wait (case opened of Inl _ \<Rightarrow> None | Inr h \<Rightarrow> Some h) limit (ch, c)))"

definition runaway_error :: io_error where
  "runaway_error = io_error_new ErrorKind_TimedOut ''warmup child killed at its runaway limit''"

definition reap :: "child exit_os \<Rightarrow> instant \<Rightarrow> child \<times> clock \<Rightarrow> ((io_error + exit_status) \<times> child \<times> clock) option" where
  "reap os limit s = (case warm_exits_by os limit s of
     None \<Rightarrow> None
   | Some (exited, ch, c) \<Rightarrow>
       if exited = Ok True then child_wait (ch, c)
       else (case child_kill (time c) ch of
         (_, ch) \<Rightarrow> map_option (\<lambda>(r, s). (case r of
             Inl e \<Rightarrow> Err e
           | Inr _ \<Rightarrow> Err (case exited of Inl e \<Rightarrow> e | Inr _ \<Rightarrow> runaway_error), s)) (child_wait (ch, c))))"

text \<open>The thread: its report, the child as it leaves it, and when it ends.\<close>

definition warm_thread :: "child exit_os \<Rightarrow> 'w spawn_call \<Rightarrow> instant \<Rightarrow> duration \<Rightarrow> 'w \<times> clock
    \<Rightarrow> ((io_error + exit_status) ret \<times> child option \<times> 'w \<times> clock) option" where
  "warm_thread os spawn deadline runaway = (\<lambda>(w, c). case now_plus runaway c of
     (None, c) \<Rightarrow> Some (Panicked, None, w, c)
   | (Some later, c) \<Rightarrow> (case spawn_when_free spawn (max deadline later) (w, c) of
       None \<Rightarrow> None
     | Some (Inl e, w, c) \<Rightarrow> Some (Returned (Err e), None, w, c)
     | Some (Inr ch, w, c) \<Rightarrow> (case now_plus runaway c of
         (None, c) \<Rightarrow> Some (Panicked, Some ch, w, c)
       | (Some later, c) \<Rightarrow> map_option (\<lambda>(r, ch, c). (Returned r, Some ch, w, c)) (reap os (max deadline later) (ch, c)))))"

definition exit_status_display :: "exit_status \<Rightarrow> string" where
  "exit_status_display status = (case status of
     ExitStatus_Code n \<Rightarrow> ''exit status: '' @ decimal n
   | ExitStatus_Killed \<Rightarrow> ''signal: 9 (SIGKILL)'')"

definition still_running :: "path \<Rightarrow> io_error" where
  "still_running path = io_error_new ErrorKind_TimedOut (''warmup '' @ path @ '' is still running after its budget; left to finish'')"

definition warm_reported :: "path \<Rightarrow> (io_error + exit_status) ret \<Rightarrow> io_error + unit" where
  "warm_reported path report = (case report of
     Returned (Inr status) \<Rightarrow> if exit_success status then Ok ()
       else Err (io_error_other (''warmup '' @ path @ '' exited '' @ exit_status_display status))
   | Returned (Inl e) \<Rightarrow> Err e
   | Panicked \<Rightarrow> Err (still_running path))"

text \<open>
  The caller: \<^verbatim>\<open>no_thread\<close> is the error of creating the thread, and \<^verbatim>\<open>(w, t)\<close> the thread's world and clock. A thread
  that panics drops the sender, which ends the wait too.
\<close>

definition warm_spawn_until :: "child exit_os \<Rightarrow> 'w spawn_call \<Rightarrow> path \<Rightarrow> instant \<Rightarrow> io_error option \<Rightarrow> 'w \<times> clock \<Rightarrow> clock
    \<Rightarrow> (io_error + unit) \<times> clock" where
  "warm_spawn_until os spawn path deadline no_thread s c = (case no_thread of
     Some e \<Rightarrow> (Err e, c)
   | None \<Rightarrow>
       let (left, c) = remaining deadline c in
       case warm_thread os spawn deadline RUNAWAY_LIMIT s of
         None \<Rightarrow> (Err (still_running path), elapse left c)
       | Some (report, _, _, t) \<Rightarrow>
           if time t \<le> time c + left then
             (warm_reported path report, elapse (time t - time c) c)
           else (Err (still_running path), elapse left c))"

definition warm_spawn :: "child exit_os \<Rightarrow> 'w spawn_call \<Rightarrow> path \<Rightarrow> io_error option \<Rightarrow> 'w \<times> clock \<Rightarrow> clock \<Rightarrow> (io_error + unit) ret \<times> clock" where
  "warm_spawn os spawn path no_thread s c = (case now_plus SPAWN_BUDGET c of
     (None, c) \<Rightarrow> (Panicked, c)
   | (Some deadline, c) \<Rightarrow> apfst Returned (warm_spawn_until os spawn path deadline no_thread s c))"

section \<open>Reading ends\<close>

text \<open>A read that also records what it got.\<close>

definition noted_read :: "'f read_call \<Rightarrow> ('f \<times> nat list) read_call" where
  "noted_read read = (\<lambda>want (f, log). case read want f of
     (Inl e, f) \<Rightarrow> (Err e, f, log)
   | (Inr got, f) \<Rightarrow> (Ok got, f, log @ [got]))"

definition reads_within :: "'f read_call \<Rightarrow> bool" where
  "reads_within read \<longleftrightarrow> (\<forall>want f. case fst (read want f) of Inl _ \<Rightarrow> True | Inr got \<Rightarrow> got \<le> want)"

definition read_inv :: "u64 \<Rightarrow> u64 \<times> 'f \<times> nat list \<Rightarrow> bool" where
  "read_inv len = (\<lambda>(remaining, f, log). sum_list log + unat remaining = unat len \<and> list_all (\<lambda>got. 0 < got \<and> got \<le> 65536) log)"

definition read_post :: "u64 \<Rightarrow> (io_error + unit) \<times> 'f \<times> nat list \<Rightarrow> bool" where
  "read_post len = (\<lambda>(r, f, log). sum_list log \<le> unat len \<and> list_all (\<lambda>got. got \<le> 65536) log
    \<and> (r = Ok () \<longrightarrow> sum_list log = unat len \<or> log \<noteq> [] \<and> last log = 0))"

lemma warm_round_ok:
  assumes "reads_within read" "read_inv len s"
  shows "case warm_round (noted_read read) s of
      Break r \<Rightarrow> read_post len r
    | Continue s' \<Rightarrow> read_inv len s' \<and> (s', s) \<in> measure (\<lambda>(remaining, _). unat remaining)"
proof -
  obtain remaining f log where s: "s = (remaining, f, log)" using prod_cases3 by blast
  show ?thesis
  proof (cases "0 < remaining")
    case False
    then have "remaining = 0" by (simp add: word_gt_0)
    with assms(2) s show ?thesis by (auto simp: warm_round_def read_inv_def read_post_def list_all_iff)
  next
    case True
    let ?want = "min WINDOW remaining"
    have want: "unat ?want \<le> 65536" "unat ?want \<le> unat remaining"
      by (simp_all add: WINDOW_def min_def word_le_nat_alt)
    obtain r f' where r: "read (unat ?want) f = (r, f')" by fastforce
    show ?thesis
    proof (cases r)
      case (Inl e)
      then show ?thesis using True s r assms(2)
        by (auto simp: warm_round_def noted_read_def read_inv_def read_post_def Let_def list_all_iff)
    next
      case (Inr got)
      with assms(1) r have got: "got \<le> unat ?want" unfolding reads_within_def by (metis fst_conv sum.case(2))
      then have small: "unat (of_nat got :: u64) = got"
        using want(1) by (simp add: unat_of_nat take_bit_nat_eq_self)
      then have "unat (remaining - of_nat got) = unat remaining - got" using got want(2)
        by (subst unat_sub) (simp_all add: word_le_nat_alt)
      with True s r Inr assms(2) got want show ?thesis
        by (auto simp: warm_round_def noted_read_def read_inv_def read_post_def Let_def list_all_iff)
    qed
  qed
qed

text \<open>Reading an executable always ends. However the reads go short, warming a file returns; it asks for no more than
  the length the file had and never more than the window at once, and it reports success only when it has read that
  length or the file has ended.
\<close>

theorem warming_ends:
  assumes "reads_within read" "open_path path w = (Inr (f, []), w')" "metadata (f, []) = Inr (False, len)"
  shows "\<exists>r f' log. warm_executable open_path metadata (noted_read read) path w = Some (r, Some (f', log), w') \<and> read_post len (r, f', log)"
proof -
  have "read_inv len (len, f, [])" by (simp add: read_inv_def)
  from iterate_correct[where Q = "read_post len", OF this warm_round_ok[OF assms(1)]]
  obtain r where "iterate (warm_round (noted_read read)) (len, f, []) = Some r" "read_post len r" by blast
  with assms(2, 3) show ?thesis by (cases r) (auto simp: warm_executable_def)
qed

definition reader_of :: "nat list read_call" where
  "reader_of = (\<lambda>want chunks. case chunks of [] \<Rightarrow> (Ok 0, []) | n # rest \<Rightarrow> (Ok (min want n), rest))"

theorem warming_ends_witness:
  "\<exists>r f' log. warm_executable (\<lambda>_ w. (Ok ([3000, 90000], []), w)) (\<lambda>_. Ok (False, 100000)) (noted_read reader_of) ''/bin/shim'' ()
     = Some (r, Some (f', log), ()) \<and> read_post 100000 (r, f', log)"
  by (rule warming_ends) (auto simp: reads_within_def reader_of_def split: list.split)

section \<open>The child is always reaped\<close>

text \<open>
  What is relied on: a child not waited for can be found, so that opening its handle never says it is gone, and a
  freshly spawned child has not been waited for, its calls work, and by itself it ends with an exit code.
\<close>

definition opens_children :: "child exit_os \<Rightarrow> bool" where
  "opens_children os \<longleftrightarrow> (\<forall>pid ch. case xo_open os pid ch of (r, ch') \<Rightarrow> ch' = ch \<and> r \<noteq> Ok Opened_Gone)"

definition fresh :: "child \<Rightarrow> bool" where
  "fresh ch \<longleftrightarrow> child_reaped ch = None \<and> child_errors ch = [] \<and> map_option snd (child_exit ch) \<noteq> Some ExitStatus_Killed"

definition spawns_fresh :: "'w spawn_call \<Rightarrow> bool" where
  "spawns_fresh spawn \<longleftrightarrow> (\<forall>t w. case fst (spawn t w) of Inl _ \<Rightarrow> True | Inr ch \<Rightarrow> fresh ch)"

text \<open>The exit event always answers.\<close>

definition watch_works :: "child exit_os \<Rightarrow> bool" where
  "watch_works os \<longleftrightarrow> (\<forall>deadline s. case xo_wait os deadline s of Some (Inl _, _) \<Rightarrow> False | _ \<Rightarrow> True)"

lemma poll_no_error:
  assumes "poll check d s c = Some (r, s', c')" "I s" "\<And>t s. I s \<Longrightarrow> case check t s of (Inl _, _, _) \<Rightarrow> False | (Inr _, _, s') \<Rightarrow> I s'"
  shows "\<exists>b. r = Inr b"
proof -
  let ?I = "\<lambda>(pause, s, c). I s" and ?Q = "\<lambda>(r, s, c). \<exists>b. r = Inr b"
  have step: "case poll_round check d x of Break r \<Rightarrow> ?Q r | Continue s' \<Rightarrow> ?I s'" if I: "?I x" for x
  proof -
    obtain pause s c where x: "x = (pause, s, c)" using prod_cases3 by blast
    obtain r took s' where r: "check (time c) s = (r, took, s')" by (metis prod.exhaust)
    with I assms(3)[of s "time c"] obtain b where "r = Inr b" "I s'" unfolding x by (cases r) auto
    with r show ?thesis unfolding x by (auto simp: poll_round_def Let_def split: bool.splits option.splits prod.splits)
  qed
  have start: "?I (backoff_first, s, c)" using assms(2) by simp
  have keeps: "?I x'" if "?I x" "poll_round check d x = Continue x'" for x x' using step[OF that(1)] that(2) by simp
  have ends: "?Q y" if "?I x" "poll_round check d x = Break y" for x y using step[OF that(1)] that(2) by simp
  have "?Q (r, s', c')"
    by (rule iterate_partial[where I = ?I and Q = ?Q, OF assms(1)[unfolded poll_def] start]) (fact keeps, fact ends)
  then show ?thesis by simp
qed

lemma warm_exits_by_ok:
  assumes "watches_children os" "opens_children os" "fresh ch"
  shows "\<exists>r ch' c'. warm_exits_by os limit (ch, c) = Some (r, ch', c') \<and> time c \<le> time c'
    \<and> child_exit ch' = child_exit ch \<and> child_ok ch' (time c') \<and> child_errors ch' = []
    \<and> (r = Ok True \<longrightarrow> exited_by (child_exits ch) (time c')) \<and> (r = Ok False \<longrightarrow> limit \<le> time c')
    \<and> (watch_works os \<longrightarrow> (\<exists>b. r = Ok b))"
proof -
  obtain opened where o: "handle_open os (child_pid ch) ch = (opened, ch)"
    and source: "\<And>h. opened = Inr h \<Longrightarrow> ph_source h \<noteq> Source_Exited"
  proof -
    obtain r ch' where x: "xo_open os (process_id_get (child_pid ch)) ch = (r, ch')" by fastforce
    with assms(2) have "ch' = ch" "r \<noteq> Ok Opened_Gone" unfolding opens_children_def by (metis (mono_tags) case_prod_conv)+
    with x show thesis by (cases r) (auto intro!: that simp: handle_open_def split: opened.splits)
  qed
  let ?exit = "case opened of Inl _ \<Rightarrow> None | Inr h \<Rightarrow> Some h"
  have ok: "child_ok ch (time c)" using assms(3) by (simp add: fresh_def child_ok_def)
  have "\<And>h. ?exit = Some h \<Longrightarrow> handle_ok (child_exits ch) h (time c)"
    using source by (auto simp: handle_ok_def split: sum.splits)
  from wait_child_answers[OF assms(1) ok this, where d = limit] assms(3)
  obtain r exit' ch' c' where w: "wait_child os child_try_wait ?exit limit (ch, c) = Some (r, exit', ch', c')" "time c \<le> time c'"
      "child_exit ch' = child_exit ch" "child_ok ch' (time c')" "child_errors ch' = []"
      "r = Ok True \<longrightarrow> exited_by (child_exits ch) (time c')" "r = Ok False \<longrightarrow> limit \<le> time c'"
    unfolding fresh_def by blast
  have polled: "\<exists>b. r' = Ok b"
    if "poll (\<lambda>t w. apfst (map_sum id (\<lambda>status. status \<noteq> None)) (child_try_wait t w)) (Some limit) ch c = Some (r', ch2, c2)" for r' ch2 c2
    by (rule poll_no_error[OF that, where I = "\<lambda>ch. child_errors ch = []"])
       (use assms(3) in \<open>auto simp: fresh_def child_try_wait_def next_error_def split: option.splits prod.splits\<close>)
  have "\<exists>b. r = Ok b" if works: "watch_works os"
  proof (cases "\<exists>h. ?exit = Some h \<and> \<not> is_pid_only h")
    case True
    then obtain h where h: "?exit = Some h" "\<not> is_pid_only h" by blast
    then have "ph_source h = Source_Event" using source by (cases "ph_source h") (auto simp: is_pid_only_def split: sum.splits)
    with h w(1) works[unfolded watch_works_def, rule_format, of "Some limit" "(ch, c)"] show ?thesis
      by (auto simp: wait_child_def Let_def handle_wait_until_def handle_wait_for_def split: option.splits sum.splits)
  next
    case False
    then show ?thesis using w(1) polled by (cases ?exit) (auto simp: wait_child_def Let_def)
  qed
  with o w show ?thesis by (auto simp: warm_exits_by_def)
qed

text \<open>What reaping promises of a fresh child: it is waited for, and killed only at the limit.\<close>

definition reaped_ok :: "child exit_os \<Rightarrow> instant \<Rightarrow> io_error + exit_status \<Rightarrow> child \<Rightarrow> instant \<Rightarrow> bool" where
  "reaped_ok os limit r ch t \<longleftrightarrow> exited_by (child_exits ch) t
    \<and> (case r of
         Inr status \<Rightarrow> child_reaped ch = Some status \<and> status \<noteq> ExitStatus_Killed
       | Inl e \<Rightarrow> child_reaped ch \<noteq> None \<and> (watch_works os \<longrightarrow> e = runaway_error \<and> limit \<le> t))
    \<and> child_reaped ch = map_option snd (child_exit ch)"

lemma child_wait_exited:
  assumes "child_ok ch (time c)" "child_errors ch = []" "exited_by (child_exits ch) (time c)"
  shows "\<exists>status ch'. child_wait (ch, c) = Some (Ok status, ch', c) \<and> child_reaped ch' = Some status \<and> child_exit ch' = child_exit ch
    \<and> map_option snd (child_exit ch) = Some status"
  using assms by (auto simp: child_ok_def child_wait_def next_error_def exited_by_def child_exits_def elapse_def split: option.splits)

lemma reap_ok:
  assumes "watches_children os" "opens_children os" "fresh ch"
  shows "\<exists>r ch' c'. reap os limit (ch, c) = Some (r, ch', c') \<and> time c \<le> time c' \<and> reaped_ok os limit r ch' (time c')"
proof -
  from warm_exits_by_ok[OF assms, of limit c] obtain r ch1 c1 where w: "warm_exits_by os limit (ch, c) = Some (r, ch1, c1)" "time c \<le> time c1"
      "child_exit ch1 = child_exit ch" "child_ok ch1 (time c1)" "child_errors ch1 = []"
      "r = Ok True \<longrightarrow> exited_by (child_exits ch) (time c1)" "r = Ok False \<longrightarrow> limit \<le> time c1" "watch_works os \<longrightarrow> (\<exists>b. r = Ok b)" by blast
  show ?thesis
  proof (cases "r = Ok True")
    case True
    then have "exited_by (child_exits ch1) (time c1)" using w(3, 6) by (simp add: child_exits_def)
    from child_wait_exited[OF w(4, 5) this] True w(1, 2, 3) this assms(3) show ?thesis
      by (auto simp: reap_def reaped_ok_def fresh_def child_exits_def)
  next
    case False
    obtain ch2 ch3 c3 status where k: "child_kill (time c1) ch1 = (Ok (), ch2)" "child_wait (ch2, c1) = Some (Ok status, ch3, c3)"
      "child_reaped ch3 = Some status" "exited_by (child_exits ch3) (time c3)" "time c1 \<le> time c3" "map_option snd (child_exit ch3) = Some status"
      by (rule child_kill_then_wait[OF w(5, 4)])
    with False w(1, 2, 7, 8) show ?thesis by (auto simp: reap_def reaped_ok_def split: sum.split)
  qed
qed

lemma free_round_ok:
  assumes "spawns_fresh spawn" "0 < pause"
  shows "case free_round spawn until (pause, w, c) of
      Break (r, w', c') \<Rightarrow> time c \<le> time c' \<and> (case r of Inl _ \<Rightarrow> True | Inr ch \<Rightarrow> fresh ch)
    | Continue (pause', w', c') \<Rightarrow> 0 < pause' \<and> time c \<le> time c' \<and> until - time c' < until - time c"
proof -
  obtain r took w' where r: "spawn (time c) w = (r, took, w')" by (metis prod.exhaust)
  with assms(1) have ok: "case r of Inl _ \<Rightarrow> True | Inr ch \<Rightarrow> fresh ch" unfolding spawns_fresh_def by (metis fst_conv)
  let ?c = "tick (elapse took c)" and ?d = "tick (tick (elapse took c))"
  have t: "time c \<le> time ?c" "time ?c \<le> time ?d" using tick_mono[of "elapse took c"] tick_mono[of ?c] by simp_all
  have "time ?d + min pause (until - time ?d) \<le> time (sleep (min pause (until - time ?d)) ?d)" by (rule sleep_lasts)
  then have "until - time (sleep (min pause (until - time ?d)) ?d) < until - time c" "time c \<le> time (sleep (min pause (until - time ?d)) ?d)"
    if "time ?c < until" using that t assms(2) by linarith+
  with r ok t assms(2) show ?thesis
    by (auto simp: free_round_def Let_def instant_now_eq remaining_eq from_millis_def split: sum.splits)
qed

lemma spawn_when_free_ok:
  assumes "spawns_fresh spawn"
  shows "\<exists>r w' c'. spawn_when_free spawn until (w, c) = Some (r, w', c') \<and> time c \<le> time c' \<and> (case r of Inl _ \<Rightarrow> True | Inr ch \<Rightarrow> fresh ch)"
proof -
  let ?I = "\<lambda>(pause, w, d). 0 < (pause :: duration) \<and> time c \<le> time d" and ?s = "(from_millis 1, w, c)"
  let ?Q = "\<lambda>(r, w', c'). time c \<le> time c' \<and> (case r of Inl _ \<Rightarrow> True | Inr ch \<Rightarrow> fresh ch)"
  have start: "?I ?s" by (simp add: from_millis_def)
  have step: "case free_round spawn until x of Break y \<Rightarrow> ?Q y | Continue x' \<Rightarrow> ?I x' \<and> (x', x) \<in> measure (\<lambda>(_, _, c). until - time c)" if "?I x" for x
  proof -
    obtain pause w' d where x: "x = (pause, w', d)" using prod_cases3 by blast
    show ?thesis using that free_round_ok[OF assms, where pause = pause and until = until and w = w' and c = d] unfolding x
      by (auto split: control.splits sum.splits)
  qed
  from iterate_correct[where I = ?I and Q = ?Q, OF start step]
  obtain r where "iterate (free_round spawn until) ?s = Some r" "?Q r" by blast
  then show ?thesis by (cases r) (auto simp: spawn_when_free_def)
qed

text \<open>What the thread leaves.\<close>

definition warmed :: "child exit_os \<Rightarrow> instant \<Rightarrow> duration \<Rightarrow> instant \<Rightarrow> ((io_error + exit_status) ret \<times> child option \<times> 'w \<times> clock) option \<Rightarrow> bool" where
  "warmed os deadline runaway t out = (case out of
     None \<Rightarrow> False
   | Some (Panicked, _, _, c) \<Rightarrow> instant_max < time c + runaway
   | Some (Returned r, None, _, _) \<Rightarrow> (\<exists>e. r = Err e)
   | Some (Returned r, Some ch, _, c) \<Rightarrow> (\<exists>limit. deadline \<le> limit \<and> t + runaway \<le> limit \<and> reaped_ok os limit r ch (time c)))"

lemma warm_thread_ok:
  assumes "watches_children os" "opens_children os" "spawns_fresh spawn"
  shows "warmed os deadline runaway (time c) (warm_thread os spawn deadline runaway (w, c))"
proof (cases "instant_add (time (tick c)) runaway")
  case None
  then show ?thesis by (simp add: warm_thread_def now_plus_eq warmed_def instant_add_def split: if_splits)
next
  case (Some later)
  obtain r w' c1 where s: "spawn_when_free spawn (max deadline later) (w, tick c) = Some (r, w', c1)" "time (tick c) \<le> time c1"
      "case r of Inl _ \<Rightarrow> True | Inr ch \<Rightarrow> fresh ch"
    using spawn_when_free_ok[OF assms(3)] by blast
  show ?thesis
  proof (cases r)
    case (Inl e)
    with Some s show ?thesis by (simp add: warm_thread_def now_plus_eq warmed_def)
  next
    case (Inr ch)
    show ?thesis
    proof (cases "instant_add (time (tick c1)) runaway")
      case None
      with Some s Inr show ?thesis by (simp add: warm_thread_def now_plus_eq warmed_def instant_add_def split: if_splits)
    next
      case (Some later')
      from reap_ok[OF assms(1, 2), of ch "max deadline later'" "tick c1"] s(3) Inr
      obtain x ch' c' where reaped: "reap os (max deadline later') (ch, tick c1) = Some (x, ch', c')" "reaped_ok os (max deadline later') x ch' (time c')"
        by auto
      have "time (tick c1) + runaway = later'" using Some by (simp add: instant_add_def split: if_splits)
      then have "time c + runaway \<le> later'" using s(2) tick_mono[of c] tick_mono[of c1] by linarith
      then have "\<exists>limit. deadline \<le> limit \<and> time c + runaway \<le> limit \<and> reaped_ok os limit x ch' (time c')"
        using reaped(2) by (intro exI[of _ "max deadline later'"]) simp
      with \<open>instant_add (time (tick c)) runaway = Some later\<close> Some s Inr reaped(1) show ?thesis
        by (simp add: warm_thread_def now_plus_eq warmed_def)
    qed
  qed
qed

lemma warm_reported_ok: "warm_reported path report = Ok () \<longleftrightarrow> report = Returned (Inr (ExitStatus_Code 0))"
  by (auto simp: warm_reported_def exit_success_def split: ret.split sum.split)

lemma warm_caller_ok:
  assumes "watches_children os" "opens_children os" "spawns_fresh spawn"
  shows "case warm_spawn_until os spawn path deadline no_thread (w, t) c of
      (r, c') \<Rightarrow> time c' \<le> max deadline (time (tick c))
        \<and> (r = Ok () \<longrightarrow> (case warm_thread os spawn deadline RUNAWAY_LIMIT (w, t) of
            Some (_, Some ch, _, t') \<Rightarrow> child_reaped ch = Some (ExitStatus_Code 0) \<and> exited_by (child_exits ch) (time t') \<and> time t' \<le> max deadline (time (tick c))
          | _ \<Rightarrow> False))"
proof (cases no_thread)
  case (Some e)
  then show ?thesis by (simp add: warm_spawn_until_def le_max_iff_disj)
next
  case None
  let ?d = "max deadline (time (tick c))"
  note warmed = warm_thread_ok[OF assms, of deadline RUNAWAY_LIMIT t w]
  then obtain report left w' t' where out: "warm_thread os spawn deadline RUNAWAY_LIMIT (w, t) = Some (report, left, w', t')"
    by (auto simp: warmed_def split: option.splits)
  have budget: "time (tick c) + (deadline - time (tick c)) = ?d" by simp
  show ?thesis
  proof (cases "time t' \<le> ?d")
    case True
    then have run: "warm_spawn_until os spawn path deadline no_thread (w, t) c = (warm_reported path report, elapse (time t' - time (tick c)) (tick c))"
      using None out by (simp add: warm_spawn_until_def remaining_eq budget)
    have "\<exists>ch. left = Some ch \<and> child_reaped ch = Some (ExitStatus_Code 0) \<and> exited_by (child_exits ch) (time t')"
      if "warm_reported path report = Ok ()"
      using warmed that unfolding out by (cases left) (auto simp: warmed_def reaped_ok_def warm_reported_ok)
    with True show ?thesis unfolding run out by auto
  next
    case False
    then have "warm_spawn_until os spawn path deadline no_thread (w, t) c = (Err (still_running path), elapse (deadline - time (tick c)) (tick c))"
      using None out by (simp add: warm_spawn_until_def remaining_eq budget)
    then show ?thesis by simp
  qed
qed


text \<open>The executable is busy at first; then it runs for half a second.\<close>

definition example_spawn_call :: "nat spawn_call" where
  "example_spawn_call = (\<lambda>t n. case n of
     0 \<Rightarrow> (Ok \<lparr>child_pid = child_pid example_child, child_exit = Some (t + from_millis 500, ExitStatus_Code 0), child_reaped = None,
       child_lag = 5, child_errors = []\<rparr>, 7, 0)
   | Suc m \<Rightarrow> (Err (io_error_new ErrorKind_ExecutableFileBusy ''Text file busy''), 3, m))"

lemma example_spawn_call_ok: "opens_children example_child_os" "spawns_fresh example_spawn_call"
  by (auto simp: opens_children_def example_child_os_def windows_open_def spawns_fresh_def example_spawn_call_def fresh_def split: nat.split)


end
