(* ===== verification/Spec2Isabelle.thy ===== *)
theory Spec2Isabelle
  imports Replacement Selection Retry Upgrade Observation Lifecycle Admission Generation Outstanding Pump Channel_Wait Wire_Async Command_Line Allocation Client Serve Launch Warmup
begin

text \<open>
  A verification development for the crate \<^verbatim>\<open>kunobi-daemon\<close>: local daemons that are started, found, spoken to,
  replaced and retired without losing requests. Paths below are relative to \<^verbatim>\<open>src/src/\<close>.

  \<^bold>\<open>The program.\<close> A client connects to a daemon over a local socket, authenticates it, negotiates a session and
  exchanges frames; a daemon admits sessions and requests, counts them, and drains when asked to stop. A daemon is
  started by a launcher, tells it over a readiness channel that it serves, publishes a record of where it serves, and
  holds process locks while it does. A replacement runs a handoff between two daemons, during which a relay holds back
  its writers until the successor was selected; an upgrade decides whether one is needed.

  \<^bold>\<open>How the model is built.\<close> A function of the source is a definition of the same name (type and method joined by an
  underscore, variants as \<^verbatim>\<open>Type_Variant\<close>); \<^verbatim>\<open>Result\<close> is a sum with \<^verbatim>\<open>Err\<close> on the left; a panic is the value \<^const>\<open>Panicked\<close>
  where it can happen. Mutable state is passed. Machine integers are words where they can wrap. Calls of the operating
  system, of Tokio and of the caller's closures are parameters or schedules; time is a clock per thread whose readings
  move on by arbitrary delays. A loop is \<^const>\<open>iterate\<close> over one round, with no bound or fuel: not returning is
  \<^const>\<open>None\<close>, and that a loop returns is a theorem, from a measure. Threads and tasks are interleaved step by step,
  a critical section being one step. A property about what happened on the way runs the code with a caller that
  writes it down, which changes nothing else.

  \<^bold>\<open>The theories.\<close>
  \<^item> \<^verbatim>\<open>Rust_Prelude\<close>: machine integers, errors, clocks, the loop \<^const>\<open>iterate\<close> and the contracts of loops; \<^verbatim>\<open>Gate\<close> and \<^verbatim>\<open>Monitor\<close>: the contracts of things that count guards, of implementations that simulate a specification and of condition variables; \<^verbatim>\<open>Text\<close>: numbers, hexadecimal and paths as text.
  \<^item> \<^verbatim>\<open>Readiness\<close> (\<^verbatim>\<open>readiness.rs\<close>), \<^verbatim>\<open>Backoff\<close> (\<^verbatim>\<open>backoff.rs\<close>), \<^verbatim>\<open>Retry\<close> (\<^verbatim>\<open>retry.rs\<close>): probing and pausing until a deadline; the waits end in time, the pauses grow to their limit and the retries keep to their schedule.
  \<^item> \<^verbatim>\<open>Replacement\<close> (\<^verbatim>\<open>replacement.rs\<close>): the handoff as the source's step machine and its drivers. It refines an abstract protocol, carries out its operations in order, reports a commit exactly if one happened, and ends.
  \<^item> \<^verbatim>\<open>Selection\<close> (\<^verbatim>\<open>selection.rs\<close>), \<^verbatim>\<open>Upgrade\<close> (\<^verbatim>\<open>upgrade.rs\<close>), \<^verbatim>\<open>Ownership\<close> (\<^verbatim>\<open>ownership.rs\<close>): watching whether a successor was selected, deciding on an upgrade under its lock, and the lock files; at most one process holds a lock, and what is reported is what was seen.
  \<^item> \<^verbatim>\<open>Outstanding\<close>, \<^verbatim>\<open>Writer_Slot\<close>, \<^verbatim>\<open>Pump\<close> (all \<^verbatim>\<open>transport.rs\<close>): the requests in flight of a relay refine a multiset and wake who waits for them; a paused writer is stopped at a frame boundary; a pump forwards every byte in order.
  \<^item> \<^verbatim>\<open>Channel\<close>, \<^verbatim>\<open>Channel_Wait\<close> (\<^verbatim>\<open>readiness/channel.rs\<close>): what a daemon writes is what its launcher hears, whatever the chunks, and waiting for it answers.
  \<^item> \<^verbatim>\<open>Wire_Messages\<close>, \<^verbatim>\<open>Wire_Codec\<close> (\<^verbatim>\<open>wire/generated.rs\<close>): the protobuf messages round trip, unknown fields and open enumerations included. \<^verbatim>\<open>Wire\<close>, \<^verbatim>\<open>Wire_Frames\<close>, \<^verbatim>\<open>Wire_Session\<close>, \<^verbatim>\<open>Wire_Exchange\<close> (\<^verbatim>\<open>wire.rs\<close>): frames, negotiation and sessions; both ends agree on a session, the version chosen is the best both have, messages arrive and failures are told. \<^verbatim>\<open>Wire_Async\<close> (\<^verbatim>\<open>wire/asynchronous.rs\<close>): the asynchronous sessions refine these.
  \<^item> \<^verbatim>\<open>Lifecycle\<close>, \<^verbatim>\<open>Admission\<close>, \<^verbatim>\<open>Generation\<close> (the files of these names): requests, permits and session leases are counted exactly under every interleaving, a drain returns, and a generation retires only when that is justified.
  \<^item> \<^verbatim>\<open>Control\<close> (\<^verbatim>\<open>control.rs\<close>, \<^verbatim>\<open>control/watch.rs\<close>), \<^verbatim>\<open>Client\<close> (\<^verbatim>\<open>client.rs\<close>), \<^verbatim>\<open>Serve\<close> (\<^verbatim>\<open>serve.rs\<close>): the control service and its subscriptions, the client that asks it, and the accept loop; subscribers end up with the state of the service, a reply comes from the peer that was verified, and every connection is accounted for until the loop returns.
  \<^item> \<^verbatim>\<open>Peer\<close> (\<^verbatim>\<open>peer.rs\<close>, \<^verbatim>\<open>pid.rs\<close>), \<^verbatim>\<open>Connect\<close> (\<^verbatim>\<open>local/mod.rs\<close>): who may speak, decided by the first rule that decides, and the retries of a connect.
  \<^item> \<^verbatim>\<open>Identity\<close> (\<^verbatim>\<open>identity.rs\<close>, \<^verbatim>\<open>socket_path.rs\<close>, \<^verbatim>\<open>local/pipe_name.rs\<close>), \<^verbatim>\<open>Command_Line\<close> (\<^verbatim>\<open>local/command_line.rs\<close>): names of services, sockets and pipes that fit and never alias; Windows command lines and environment blocks, which the receiver splits into what was given.
  \<^item> \<^verbatim>\<open>File_System\<close>, \<^verbatim>\<open>Publication\<close>, \<^verbatim>\<open>Allocation\<close> (\<^verbatim>\<open>publication.rs\<close>, \<^verbatim>\<open>generation.rs\<close>): records are replaced atomically and conditionally, and a new generation gets a number never used.
  \<^item> \<^verbatim>\<open>Observation\<close> (\<^verbatim>\<open>observation.rs\<close>): observing a stream changes nothing of it and loses no event.
  \<^item> \<^verbatim>\<open>Process_Handle\<close> (\<^verbatim>\<open>local/process.rs\<close> and its platforms), \<^verbatim>\<open>Daemon_Child\<close> (\<^verbatim>\<open>candidate.rs\<close> and the child of \<^verbatim>\<open>launch.rs\<close>): the exit of a process is reported truthfully on every platform, a candidate is disposable until it is selected, and a startup is reported as it went.
  \<^item> \<^verbatim>\<open>Unix_Spawn\<close> (the spawning half of \<^verbatim>\<open>local/unix.rs\<close>, \<^verbatim>\<open>local/readiness.rs\<close>), \<^verbatim>\<open>Launch\<close> (\<^verbatim>\<open>launch.rs\<close>): a daemon starts with its channel and nothing else of its launcher. \<^verbatim>\<open>Warmup\<close> (\<^verbatim>\<open>warmup.rs\<close>): a warmed executable is read to its length or run once, and its process never outlives the thread that watches it.

  \<^bold>\<open>What is relied on.\<close> The theorems name as hypotheses what they need of the system: that a call reports a process
  as exited only if it has and times out no earlier than asked, that a read returns no more than asked for, that every
  descriptor of a launcher lies within the range its sweep covers. The models of the file system and of the lock files
  have built in that a rename is atomic and that a lock of the system excludes.

  \<^bold>\<open>Not modelled.\<close> Calls into the operating system have no source here beyond the call: the socket I/O of
  \<^verbatim>\<open>local/unix.rs\<close> and \<^verbatim>\<open>local/unix_socket.rs\<close>, named pipes, sockets, process creation and security descriptors on
  Windows (\<^verbatim>\<open>local/windows.rs\<close>, \<^verbatim>\<open>local/windows_socket.rs\<close>, \<^verbatim>\<open>local/windows_spawn.rs\<close>, \<^verbatim>\<open>local/security\<close>, \<^verbatim>\<open>serve/windows.rs\<close>,
  \<^verbatim>\<open>publication/windows.rs\<close>), and the credentials of a connection (\<^verbatim>\<open>local/peer.rs\<close>). The asynchronous waits for an exit and the
  cancellation of futures there are left out, as are the panics of a poisoned mutex. Tests, examples, benchmarks and
  scripts are not part of the crate.
\<close>

end
